(* ===== verification/HVAC_Prelude.thy ===== *)
theory HVAC_Prelude
  imports Main "HOL-Library.Word"
begin

text \<open>
  Shared vocabulary of the development: the ways a C or C++ process can stop (\<open>fault\<close>) and
  the sequencing of fallible code (\<open>run\<close>), the conversions between C integer types, the
  insertion performed by \<open>operator[]\<close> of the standard maps, and the decimal text that
  \<open>printf\<close>, \<open>atoi\<close> and \<open>fscanf\<close> exchange.
\<close>

named_theorems run_simps "rules that evaluate sequencing and assertions"
named_theorems width_simps "C integer conversions that change nothing in range"

section \<open>Faults and sequencing\<close>

text \<open>
  \<open>assert\<close> is active in the builds of this repository: the default build type is Debug and no
  file defines NDEBUG. A failed assertion, a call of \<open>exit\<close>, an access through a null pointer,
  a division by zero, a write past a buffer and a wait that nobody ends are results of the model.
\<close>

datatype fault =
    Assertion_Failed
  | Exit int
  | Null_Dereference
  | Division_By_Zero
  | Buffer_Overflow
  | Blocked_Forever

type_synonym 'a run = "fault + 'a"
type_synonym byte = "8 word"

definition bind_run :: "'a run \<Rightarrow> ('a \<Rightarrow> 'b run) \<Rightarrow> 'b run" where
  "bind_run x f = (case x of Inl e \<Rightarrow> Inl e | Inr y \<Rightarrow> f y)"

definition assert_run :: "bool \<Rightarrow> 'a run \<Rightarrow> 'a run" where
  "assert_run b x = (if b then x else Inl Assertion_Failed)"

section \<open>C integer conversions\<close>

text \<open>Conversion of an integer value to \<open>int32_t\<close>, \<open>int64_t\<close>, \<open>uint32_t\<close> and \<open>uint64_t\<close>.\<close>

definition int32 :: "int \<Rightarrow> int" where
  "int32 x = signed_take_bit 31 x"

definition int64 :: "int \<Rightarrow> int" where
  "int64 x = signed_take_bit 63 x"

definition uint32 :: "int \<Rightarrow> int" where
  "uint32 x = take_bit 32 x"

definition uint64 :: "int \<Rightarrow> int" where
  "uint64 x = take_bit 64 x"

section \<open>The standard maps\<close>

text \<open>
  \<open>m[k]\<close> of \<open>std::map\<close> and \<open>std::unordered_map\<close> used as a value: the stored value, or the
  default value of the type, which the access then inserts.
\<close>

definition index_value :: "'v \<Rightarrow> ('k \<rightharpoonup> 'v) \<Rightarrow> 'k \<Rightarrow> 'v" where
  "index_value d m k = (case m k of None \<Rightarrow> d | Some v \<Rightarrow> v)"

definition index_insert :: "'v \<Rightarrow> ('k \<rightharpoonup> 'v) \<Rightarrow> 'k \<Rightarrow> ('k \<rightharpoonup> 'v)" where
  "index_insert d m k = (case m k of None \<Rightarrow> m(k \<mapsto> d) | Some v \<Rightarrow> m)"

section \<open>Characters and decimal numbers\<close>

definition is_space :: "char \<Rightarrow> bool" where
  "is_space c = (c \<in> set [CHR '' '', CHR 0x09, CHR 0x0A, CHR 0x0B, CHR 0x0C, CHR 0x0D])"

definition digit_chars :: "char list" where
  "digit_chars = ''0123456789''"

definition is_digit :: "char \<Rightarrow> bool" where
  "is_digit c = (c \<in> set digit_chars)"

definition digit_value :: "char \<Rightarrow> int" where
  "digit_value c = int (length (takeWhile (\<lambda>d. d \<noteq> c) digit_chars))"

fun show_nat :: "nat \<Rightarrow> string" where
  "show_nat n =
     (if n < 10 then [digit_chars ! n] else show_nat (n div 10) @ [digit_chars ! (n mod 10)])"

declare show_nat.simps [simp del]

definition show_int :: "int \<Rightarrow> string" where
  "show_int z = (if z < 0 then CHR ''-'' # show_nat (nat (- z)) else show_nat (nat z))"

fun read_digits :: "int \<Rightarrow> string \<Rightarrow> int \<times> string" where
  "read_digits acc [] = (acc, [])"
| "read_digits acc (c # s) =
     (if is_digit c then read_digits (10 * acc + digit_value c) s else (acc, c # s))"

definition scan_nat :: "string \<Rightarrow> (int \<times> string) option" where
  "scan_nat s = (case s of [] \<Rightarrow> None | c # _ \<Rightarrow> if is_digit c then Some (read_digits 0 s) else None)"

text \<open>
  The conversion behind \<open>atoi\<close> and \<open>%d\<close>: leading white space, an optional sign, at least one
  digit. The value is read as a \<open>long\<close>, which saturates, and then converted to \<open>int\<close>.
\<close>

definition clamp_long :: "int \<Rightarrow> int" where
  "clamp_long z = max (- (2 ^ 63)) (min (2 ^ 63 - 1) z)"

definition scan_int :: "string \<Rightarrow> (int \<times> string) option" where
  "scan_int s =
     (case dropWhile is_space s of
        [] \<Rightarrow> None
      | c # r \<Rightarrow>
          if c = CHR ''-'' then map_option (\<lambda>(n, t). (int32 (clamp_long (- n)), t)) (scan_nat r)
          else if c = CHR ''+'' then map_option (\<lambda>(n, t). (int32 (clamp_long n), t)) (scan_nat r)
          else map_option (\<lambda>(n, t). (int32 (clamp_long n), t)) (scan_nat (c # r)))"

definition atoi :: "string \<Rightarrow> int" where
  "atoi s = (case scan_int s of None \<Rightarrow> 0 | Some (z, t) \<Rightarrow> z)"

text \<open>\<open>strstr(hay, needle) != NULL\<close> and \<open>find(needle) != npos\<close>.\<close>

fun contains_str :: "string \<Rightarrow> string \<Rightarrow> bool" where
  "contains_str needle [] = (needle = [])"
| "contains_str needle (c # s) =
     (take (length needle) (c # s) = needle \<or> contains_str needle s)"

section \<open>Lemmas\<close>

lemma bind_run_Inl [simp, run_simps]: "bind_run (Inl e) f = Inl e"
  by (simp add: bind_run_def)

lemma bind_run_Inr [simp, run_simps]: "bind_run (Inr x) f = f x"
  by (simp add: bind_run_def)

lemma bind_run_eq_Inr: "bind_run x f = Inr z \<longleftrightarrow> (\<exists>y. x = Inr y \<and> f y = Inr z)"
  by (cases x) auto

lemma assert_run_True [simp, run_simps]: "assert_run True x = x"
  by (simp add: assert_run_def)

lemma assert_run_False [simp, run_simps]: "assert_run False x = Inl Assertion_Failed"
  by (simp add: assert_run_def)

lemma assert_run_eq_Inr: "assert_run b x = Inr z \<longleftrightarrow> b \<and> x = Inr z"
  by (simp add: assert_run_def)

lemma bind_run_assert [simp, run_simps]: "bind_run (assert_run b x) f = assert_run b (bind_run x f)"
  by (simp add: assert_run_def)

lemma index_insert_dom: "dom (index_insert d m k) = insert k (dom m)"
  by (auto simp: index_insert_def split: option.splits)

lemma index_insert_other [simp]: "x \<noteq> k \<Longrightarrow> index_insert d m k x = m x"
  by (simp add: index_insert_def split: option.splits)

lemma index_insert_same: "index_insert d m k k = Some (index_value d m k)"
  by (simp add: index_insert_def index_value_def split: option.splits)

lemma index_insert_id [simp]: "m k = Some v \<Longrightarrow> index_insert d m k = m"
  by (simp add: index_insert_def)

lemma index_value_Some [simp]: "m k = Some v \<Longrightarrow> index_value d m k = v"
  by (simp add: index_value_def)

lemma index_value_None [simp]: "m k = None \<Longrightarrow> index_value d m k = d"
  by (simp add: index_value_def)

lemma int32_id [width_simps]: "- (2 ^ 31) \<le> x \<Longrightarrow> x < 2 ^ 31 \<Longrightarrow> int32 x = x"
  by (simp add: int32_def signed_take_bit_int_eq_self)

lemma int64_id [width_simps]: "- (2 ^ 63) \<le> x \<Longrightarrow> x < 2 ^ 63 \<Longrightarrow> int64 x = x"
  by (simp add: int64_def signed_take_bit_int_eq_self)

lemma uint32_id [width_simps]: "0 \<le> x \<Longrightarrow> x < 2 ^ 32 \<Longrightarrow> uint32 x = x"
  by (simp add: uint32_def take_bit_int_eq_self)

lemma uint64_id [width_simps]: "0 \<le> x \<Longrightarrow> x < 2 ^ 64 \<Longrightarrow> uint64 x = x"
  by (simp add: uint64_def take_bit_int_eq_self)

lemma int32_bounds: "- (2 ^ 31) \<le> int32 x" "int32 x < 2 ^ 31"
  unfolding int32_def by (rule signed_take_bit_int_greater_eq_minus_exp signed_take_bit_int_less_exp)+

lemma uint32_bounds: "0 \<le> uint32 x" "uint32 x < 2 ^ 32"
  unfolding uint32_def by (rule take_bit_nonnegative take_bit_int_less_exp)+

lemma uint64_bounds: "0 \<le> uint64 x" "uint64 x < 2 ^ 64"
  unfolding uint64_def by (rule take_bit_nonnegative take_bit_int_less_exp)+

lemma int32_int32 [simp]: "int32 (int32 x) = int32 x"
  by (simp add: int32_def)

lemma int32_uint32 [simp]: "int32 (uint32 x) = int32 x"
  by (simp add: int32_def uint32_def signed_take_bit_take_bit)

lemma int32_int64 [simp]: "int32 (int64 x) = int32 x"
  by (simp add: int32_def int64_def)

lemma int32_take_bit:
  assumes "0 \<le> int32 x"
  shows "int32 x = take_bit 31 x"
proof -
  from assms have "\<not> bit x 31" unfolding int32_def signed_take_bit_nonnegative_iff .
  then show ?thesis by (simp add: int32_def signed_take_bit_def)
qed

lemma int32_le_uint64: "0 \<le> int32 x \<Longrightarrow> int32 x \<le> uint64 x"
  unfolding int32_take_bit uint64_def by (rule take_bit_tightened_less_eq_int) simp

lemma int32_high:
  assumes "2 ^ 31 \<le> x" and "x < 2 ^ 32"
  shows "int32 x = x - 2 ^ 32"
proof -
  have "take_bit 32 (x - 2 ^ 32) = take_bit 32 x" by (simp add: take_bit_eq_mod)
  then have "int32 x = int32 (x - 2 ^ 32)"
    unfolding int32_def signed_take_bit_eq_iff_take_bit_eq by simp
  with assms show ?thesis by (simp add: int32_id)
qed

lemma uint64_negative:
  assumes "- (2 ^ 63) \<le> x" and "x < 0"
  shows "2 ^ 63 \<le> uint64 x"
proof -
  have "uint64 x = (x + 2 ^ 64) mod 2 ^ 64" by (simp add: uint64_def take_bit_eq_mod)
  also have "\<dots> = x + 2 ^ 64" using assms by (intro mod_pos_pos_trivial) simp_all
  finally show ?thesis using assms by simp
qed

lemma digit_chars_nth:
  assumes "n < 10"
  shows "is_digit (digit_chars ! n) \<and> digit_value (digit_chars ! n) = int n"
proof -
  have "\<forall>k \<in> set [0..<10]. is_digit (digit_chars ! k) \<and> digit_value (digit_chars ! k) = int k"
    by code_simp
  with assms show ?thesis by simp
qed

lemma show_nat_nonempty: "show_nat n \<noteq> []"
  by (subst show_nat.simps) simp

lemma show_nat_digits: "\<forall>c \<in> set (show_nat n). is_digit c"
proof (induction n rule: show_nat.induct)
  case (1 n)
  show ?case
  proof (cases "n < 10")
    case True
    then show ?thesis by (subst show_nat.simps) (simp add: digit_chars_nth)
  next
    case False
    with "1.IH" show ?thesis by (subst show_nat.simps) (auto simp: digit_chars_nth)
  qed
qed

lemma read_digits_append:
  "\<forall>c \<in> set s. is_digit c \<Longrightarrow> read_digits a (s @ t) = read_digits (fst (read_digits a s)) t"
  by (induction s arbitrary: a) auto

lemma read_digits_show_nat:
  "fst (read_digits 0 (show_nat n)) = int n"
proof (induction n rule: show_nat.induct)
  case (1 n)
  show ?case
  proof (cases "n < 10")
    case True
    then show ?thesis by (subst show_nat.simps) (simp add: digit_chars_nth)
  next
    case False
    with "1.IH" show ?thesis
      by (subst show_nat.simps)
        (simp add: digit_chars_nth read_digits_append show_nat_digits, presburger)
  qed
qed

lemma read_digits_stop: "t = [] \<or> \<not> is_digit (hd t) \<Longrightarrow> read_digits a t = (a, t)"
  by (cases t) auto

lemma read_digits_shorter: "length (snd (read_digits a s)) \<le> length s"
  by (induction a s rule: read_digits.induct) auto

lemma scan_nat_shorter: "scan_nat s = Some (n, t) \<Longrightarrow> length t < length s"
proof -
  assume "scan_nat s = Some (n, t)"
  then obtain c r where s: "s = c # r" "is_digit c" "read_digits 0 (c # r) = (n, t)"
    by (auto simp: scan_nat_def split: list.splits if_splits)
  with read_digits_shorter [of "digit_value c" r] show ?thesis by simp
qed

lemma scan_nat_show:
  assumes "t = [] \<or> \<not> is_digit (hd t)"
  shows "scan_nat (show_nat n @ t) = Some (int n, t)"
proof -
  obtain c s where c: "show_nat n = c # s" by (cases "show_nat n") (auto simp: show_nat_nonempty)
  then have "is_digit c" using show_nat_digits [of n] by simp
  moreover have "read_digits 0 (show_nat n @ t) = (int n, t)"
    using assms by (simp add: read_digits_append show_nat_digits read_digits_show_nat read_digits_stop)
  ultimately show ?thesis by (simp add: scan_nat_def c)
qed

lemma digit_not_space: "is_digit c \<Longrightarrow> \<not> is_space c \<and> c \<noteq> CHR ''-'' \<and> c \<noteq> CHR ''+''"
  by (auto simp: is_digit_def is_space_def digit_chars_def)

lemma scan_int_space: "\<forall>c \<in> set w. is_space c \<Longrightarrow> scan_int (w @ s) = scan_int s"
  by (induction w) (auto simp: scan_int_def)

lemma clamp_long_id: "- (2 ^ 31) \<le> z \<Longrightarrow> z < 2 ^ 31 \<Longrightarrow> int32 (clamp_long z) = z"
  by (simp add: clamp_long_def int32_id)

lemma scan_int_show_int:
  assumes "- (2 ^ 31) \<le> z" "z < 2 ^ 31" "t = [] \<or> \<not> is_digit (hd t)"
  shows "scan_int (show_int z @ t) = Some (z, t)"
proof (cases "z < 0")
  case True
  have "\<not> is_space CHR ''-''" by (simp add: is_space_def)
  with True assms show ?thesis
    by (simp add: scan_int_def show_int_def scan_nat_show clamp_long_id)
next
  case False
  obtain c s where c: "show_nat (nat z) = c # s"
    by (cases "show_nat (nat z)") (auto simp: show_nat_nonempty)
  then have "is_digit c" using show_nat_digits [of "nat z"] by simp
  then have "\<not> is_space c \<and> c \<noteq> CHR ''-'' \<and> c \<noteq> CHR ''+''" by (rule digit_not_space)
  moreover have "scan_nat (c # s @ t) = Some (int (nat z), t)"
    using scan_nat_show [OF assms(3), of "nat z"] c by simp
  ultimately show ?thesis using False assms
    by (simp add: scan_int_def show_int_def c clamp_long_id)
qed

lemma atoi_show_int: "- (2 ^ 31) \<le> z \<Longrightarrow> z < 2 ^ 31 \<Longrightarrow> atoi (show_int z) = z"
  using scan_int_show_int [of z "[]"] by (simp add: atoi_def)

lemma atoi_bounds: "- (2 ^ 31) \<le> atoi s \<and> atoi s < 2 ^ 31"
  using int32_bounds by (auto simp: atoi_def scan_int_def split: option.splits list.splits)

lemma contains_str_iff: "contains_str p s \<longleftrightarrow> (\<exists>a b. s = a @ p @ b)"
proof (induction s)
  case Nil
  show ?case by auto
next
  case (Cons c s)
  have "take (length p) (c # s) = p \<longleftrightarrow> (\<exists>b. c # s = p @ b)"
    by (metis append_eq_conv_conj)
  moreover have "(\<exists>a b. c # s = a @ p @ b) \<longleftrightarrow> (\<exists>b. c # s = p @ b) \<or> (\<exists>a b. s = a @ p @ b)"
    by (metis append_Cons append_Nil list.inject neq_Nil_conv)
  ultimately show ?case using Cons by simp
qed

end
