(* ===== verification/HVAC_Posix.thy ===== *)
theory HVAC_Posix
  imports HVAC_Prelude
begin

text \<open>
  The operating system as the code uses it. The system calls and the \<open>std::filesystem\<close> calls
  are parameters of every definition that uses them, collected in the record \<open>posix_ops\<close> over an
  arbitrary system state. The locale \<open>posix_files\<close> states what the code relies on for regular
  files; \<open>linux_ops\<close> is a file system with finite descriptor table and finite free space that
  meets these laws, and the interpretation \<open>lx\<close> makes every lemma of the locale available for it.
\<close>

section \<open>The interface\<close>

record 'o posix_ops =
  sys_open :: "'o \<Rightarrow> string \<Rightarrow> 32 word \<Rightarrow> int \<Rightarrow> int \<times> 'o"
  sys_read :: "'o \<Rightarrow> int \<Rightarrow> int \<Rightarrow> (int \<times> byte list) \<times> 'o"
  sys_pread :: "'o \<Rightarrow> int \<Rightarrow> int \<Rightarrow> int \<Rightarrow> (int \<times> byte list) \<times> 'o"
  sys_lseek :: "'o \<Rightarrow> int \<Rightarrow> int \<Rightarrow> int \<Rightarrow> int \<times> 'o"
  sys_close :: "'o \<Rightarrow> int \<Rightarrow> int \<times> 'o"
  sys_mkdtemp :: "'o \<Rightarrow> string \<Rightarrow> string option \<times> 'o"
  sys_copy :: "'o \<Rightarrow> string \<Rightarrow> string \<Rightarrow> bool \<times> 'o"

text \<open>The flags of \<open>fcntl.h\<close> on Linux, the limit of one transfer and the \<open>whence\<close> values.\<close>

definition O_RDONLY :: "32 word" where "O_RDONLY = 0"
definition O_WRONLY :: "32 word" where "O_WRONLY = 1"
definition O_ACCMODE :: "32 word" where "O_ACCMODE = 3"
definition O_CREAT :: "32 word" where "O_CREAT = 0x40"
definition O_TRUNC :: "32 word" where "O_TRUNC = 0x200"
definition O_APPEND :: "32 word" where "O_APPEND = 0x400"
definition MAX_RW_COUNT :: int where "MAX_RW_COUNT = 0x7ffff000"

definition chunk :: "byte list \<Rightarrow> nat \<Rightarrow> int \<Rightarrow> byte list" where
  "chunk c off count = take (nat (min count MAX_RW_COUNT)) (drop off c)"

text \<open>\<open>fs::path::filename\<close> and \<open>fs::path::parent_path\<close> of a path without trailing slash.\<close>

definition path_filename :: "string \<Rightarrow> string" where
  "path_filename p = rev (takeWhile (\<lambda>c. c \<noteq> CHR ''/'') (rev p))"

definition path_parent :: "string \<Rightarrow> string" where
  "path_parent p =
     (let d = rev (dropWhile (\<lambda>c. c \<noteq> CHR ''/'') (rev p))
      in if length d \<le> 1 then d else butlast d)"

section \<open>What the code relies on\<close>

locale posix_files =
  fixes ops :: "'o posix_ops"
    and content :: "'o \<Rightarrow> string \<rightharpoonup> byte list"
    and handle :: "'o \<Rightarrow> int \<rightharpoonup> (string \<times> nat)"
  assumes open_fd: "sys_open ops s p O_RDONLY m = (fd, s') \<Longrightarrow> fd \<noteq> -1 \<Longrightarrow>
        0 \<le> fd \<and> fd < 2 ^ 31 \<and> handle s fd = None \<and> content s p \<noteq> None \<and>
        handle s' = (handle s)(fd \<mapsto> (p, 0)) \<and> content s' = content s"
    and open_error: "sys_open ops s p O_RDONLY m = (-1, s') \<Longrightarrow> handle s' = handle s \<and> content s' = content s"
    and read_ok: "handle s fd = Some (p, off) \<Longrightarrow> content s p = Some c \<Longrightarrow> 0 \<le> n \<Longrightarrow>
        \<exists>s'. sys_read ops s fd n = ((int (length (chunk c off n)), chunk c off n), s') \<and>
          handle s' = (handle s)(fd \<mapsto> (p, off + length (chunk c off n))) \<and> content s' = content s"
    and pread_ok: "handle s fd = Some (p, off) \<Longrightarrow> content s p = Some c \<Longrightarrow> 0 \<le> n \<Longrightarrow> 0 \<le> pos \<Longrightarrow>
        \<exists>s'. sys_pread ops s fd n pos = ((int (length (chunk c (nat pos) n)), chunk c (nat pos) n), s') \<and>
          handle s' = handle s \<and> content s' = content s"
    and bad_fd: "handle s fd = None \<Longrightarrow> sys_read ops s fd n = ((-1, []), s) \<and>
        sys_pread ops s fd n pos = ((-1, []), s) \<and> sys_close ops s fd = (-1, s)"
    and pread_negative: "pos < 0 \<Longrightarrow> sys_pread ops s fd n pos = ((-1, []), s)"
    and lseek_effect: "sys_lseek ops s fd delta w = (r, s') \<Longrightarrow>
        content s' = content s \<and> (\<forall>f. f \<noteq> fd \<longrightarrow> handle s' f = handle s f) \<and>
        map_option fst (handle s' fd) = map_option fst (handle s fd)"
    and close_ok: "handle s fd = Some h \<Longrightarrow> \<exists>s'. sys_close ops s fd = (0, s') \<and>
        handle s' = (handle s)(fd := None) \<and> content s' = content s"
    and mkdtemp_frame: "sys_mkdtemp ops s t = (d, s') \<Longrightarrow> content s' = content s \<and> handle s' = handle s"
    and copy_ok: "sys_copy ops s src dst = (True, s') \<Longrightarrow>
        content s src \<noteq> None \<and> content s dst = None \<and>
        content s' = (content s)(dst := content s src) \<and> handle s' = handle s"
    and copy_error: "sys_copy ops s src dst = (False, s') \<Longrightarrow> handle s' = handle s \<and>
        (\<forall>p. content s p \<noteq> None \<longrightarrow> content s' p = content s p)"
begin

lemma lseek_frame:
  assumes "sys_lseek ops s fd delta w = (r, s')"
  shows "content s' = content s" and "map_option fst (handle s' f) = map_option fst (handle s f)"
  using lseek_effect [OF assms] by (cases "f = fd"; simp)+

end

section \<open>A file system that meets the laws\<close>

text \<open>
  Regular files by path, directories, the table of the descriptors opened by the process with its
  limit (RLIMIT_NOFILE), the free bytes of the device that copies go to, and the suffixes
  \<open>mkdtemp\<close> will try. Descriptors 0, 1 and 2 are the standard streams the process is born with.
\<close>

record linux =
  files :: "string \<rightharpoonup> byte list"
  dirs :: "string list"
  fdt :: "int \<rightharpoonup> (string \<times> nat)"
  nofile :: nat
  free_bytes :: nat
  suffixes :: "string list"

definition free_fd :: "linux \<Rightarrow> int option" where
  "free_fd s = find (\<lambda>fd. fdt s fd = None) (map int [3..<min (nofile s) (2 ^ 20)])"

definition linux_open :: "linux \<Rightarrow> string \<Rightarrow> 32 word \<Rightarrow> int \<Rightarrow> int \<times> linux" where
  "linux_open s p flags mode =
     (case free_fd s of
        None \<Rightarrow> (-1, s)
      | Some fd \<Rightarrow>
          (case files s p of
             Some c \<Rightarrow>
               (fd, s\<lparr>fdt := (fdt s)(fd \<mapsto> (p, 0)),
                      files := (files s)(p \<mapsto> (if and flags O_TRUNC \<noteq> 0 then [] else c))\<rparr>)
           | None \<Rightarrow>
               if and flags O_CREAT \<noteq> 0 \<and> path_parent p \<in> set (dirs s)
               then (fd, s\<lparr>fdt := (fdt s)(fd \<mapsto> (p, 0)), files := (files s)(p \<mapsto> [])\<rparr>)
               else (-1, s)))"

definition linux_pread :: "linux \<Rightarrow> int \<Rightarrow> int \<Rightarrow> int \<Rightarrow> (int \<times> byte list) \<times> linux" where
  "linux_pread s fd n pos =
     (case fdt s fd of
        None \<Rightarrow> ((-1, []), s)
      | Some (p, off) \<Rightarrow>
          (case files s p of
             None \<Rightarrow> ((-1, []), s)
           | Some c \<Rightarrow> if pos < 0 then ((-1, []), s)
                       else ((int (length (chunk c (nat pos) n)), chunk c (nat pos) n), s)))"

definition linux_read :: "linux \<Rightarrow> int \<Rightarrow> int \<Rightarrow> (int \<times> byte list) \<times> linux" where
  "linux_read s fd n =
     (case fdt s fd of
        None \<Rightarrow> ((-1, []), s)
      | Some (p, off) \<Rightarrow>
          (case files s p of
             None \<Rightarrow> ((-1, []), s)
           | Some c \<Rightarrow>
               ((int (length (chunk c off n)), chunk c off n),
                s\<lparr>fdt := (fdt s)(fd \<mapsto> (p, off + length (chunk c off n)))\<rparr>)))"

definition linux_lseek :: "linux \<Rightarrow> int \<Rightarrow> int \<Rightarrow> int \<Rightarrow> int \<times> linux" where
  "linux_lseek s fd off whence =
     (case fdt s fd of
        None \<Rightarrow> (-1, s)
      | Some (p, cur) \<Rightarrow>
          (let len = (case files s p of None \<Rightarrow> 0 | Some c \<Rightarrow> int (length c));
               base = (if whence = 0 then Some 0 else if whence = 1 then Some (int cur)
                       else if whence = 2 then Some len else None)
           in case base of
                None \<Rightarrow> (-1, s)
              | Some b \<Rightarrow> if b + off < 0 then (-1, s)
                          else (b + off, s\<lparr>fdt := (fdt s)(fd \<mapsto> (p, nat (b + off)))\<rparr>)))"

definition linux_close :: "linux \<Rightarrow> int \<Rightarrow> int \<times> linux" where
  "linux_close s fd = (if fdt s fd = None then (-1, s) else (0, s\<lparr>fdt := (fdt s)(fd := None)\<rparr>))"

text \<open>\<open>mkdtemp\<close> needs a template that ends in XXXXXX below a directory that exists.\<close>

definition linux_mkdtemp :: "linux \<Rightarrow> string \<Rightarrow> string option \<times> linux" where
  "linux_mkdtemp s t =
     (let stem = take (length t - 6) t in
      if drop (length t - 6) t \<noteq> ''XXXXXX'' \<or> path_parent t \<notin> set (dirs s) then (None, s)
      else case suffixes s of
             [] \<Rightarrow> (None, s)
           | x # xs \<Rightarrow>
               if stem @ x \<in> set (dirs s) then (None, s\<lparr>suffixes := xs\<rparr>)
               else (Some (stem @ x), s\<lparr>suffixes := xs, dirs := (stem @ x) # dirs s\<rparr>))"

text \<open>
  \<open>fs::copy\<close> of a regular file without options: an error when the source does not exist, when
  the target exists or its directory does not, and when the device is full, which leaves the bytes
  that still fitted behind.
\<close>

definition linux_copy :: "linux \<Rightarrow> string \<Rightarrow> string \<Rightarrow> bool \<times> linux" where
  "linux_copy s src dst =
     (case files s src of
        None \<Rightarrow> (False, s)
      | Some c \<Rightarrow>
          if files s dst \<noteq> None \<or> path_parent dst \<notin> set (dirs s) then (False, s)
          else if length c \<le> free_bytes s
          then (True, s\<lparr>files := (files s)(dst \<mapsto> c), free_bytes := free_bytes s - length c\<rparr>)
          else (False, s\<lparr>files := (files s)(dst \<mapsto> take (free_bytes s) c), free_bytes := 0\<rparr>))"

definition linux_ops :: "linux posix_ops" where
  "linux_ops = \<lparr>sys_open = linux_open, sys_read = linux_read, sys_pread = linux_pread,
     sys_lseek = linux_lseek, sys_close = linux_close, sys_mkdtemp = linux_mkdtemp,
     sys_copy = linux_copy\<rparr>"


section \<open>Lemmas\<close>

lemma free_fd_Some:
  assumes "free_fd s = Some fd"
  shows "0 \<le> fd \<and> fd < 2 ^ 31 \<and> fdt s fd = None"
proof -
  have "x \<in> set xs" "P x" if "find P xs = Some x" for P and x :: int and xs
    using that by (induction xs) (auto split: if_splits)
  from this [OF assms [unfolded free_fd_def]] show ?thesis by auto
qed

lemma chunk_length: "int (length (chunk c off n)) \<le> MAX_RW_COUNT"
  by (simp add: chunk_def MAX_RW_COUNT_def)

lemma chunk_le_count: "0 \<le> n \<Longrightarrow> int (length (chunk c off n)) \<le> n"
  by (simp add: chunk_def)

lemma chunk_whole: "length c - off \<le> nat n \<Longrightarrow> int (length c) \<le> MAX_RW_COUNT \<Longrightarrow> chunk c off n = drop off c"
  by (auto simp: chunk_def MAX_RW_COUNT_def min_def)

lemmas linux_defs = linux_open_def linux_read_def linux_pread_def linux_lseek_def
  linux_close_def linux_mkdtemp_def linux_copy_def

interpretation lx: posix_files linux_ops files fdt
proof (unfold_locales, goal_cases)
  case (1 s p m fd s')
  then show ?case
    using free_fd_Some [of s]
    by (auto simp: linux_ops_def linux_open_def O_RDONLY_def split: option.splits)
next
  case (2 s p m s')
  then show ?case
    using free_fd_Some [of s]
    by (auto simp: linux_ops_def linux_open_def O_RDONLY_def split: option.splits)
qed (auto simp: linux_ops_def linux_defs Let_def map_upd_triv split: option.splits if_splits list.splits prod.splits)

section \<open>A sample system\<close>

text \<open>One data file, a directory on the fast device, a few descriptors and enough space.\<close>

definition sample_os :: linux where
  "sample_os = \<lparr>files = [''/data/a'' \<mapsto> [10, 20, 30, 40, 50]], dirs = [''/data'', ''/bb''], fdt = Map.empty,
     nofile = 16, free_bytes = 100, suffixes = [''aaaaaa'', ''bbbbbb'']\<rparr>"

end
