(* ===== verification/HVAC_Data_Mover.thy ===== *)
theory HVAC_Data_Mover
  imports HVAC_Posix
begin

text \<open>
  The data mover of the server (\<open>mthvac_data_mover.cpp\<close>): the three globals it shares with the
  request handlers, the queue operations both sides use, and the body of the mover thread, split at
  its synchronisation points. \<open>Mover_Locking\<close> is the thread before \<open>pthread_cond_wait\<close>,
  \<open>Mover_Waiting\<close> inside it, \<open>Mover_Woken\<close> after it returned, \<open>Mover_Copying\<close> in the copy
  loop that runs without the mutex.
\<close>

section \<open>State\<close>

datatype mover_pc = Mover_Locking | Mover_Waiting | Mover_Woken | Mover_Copying

record 'o server =
  fd_to_path :: "int \<rightharpoonup> string"
  path_cache_map :: "string \<rightharpoonup> string"
  data_queue :: "string list"
  local_list :: "string list"
  mover :: mover_pc
  srv_os :: 'o

section \<open>The queue\<close>

text \<open>\<open>std::queue\<close>: \<open>front\<close> and \<open>pop\<close> of an empty queue are undefined, here \<open>None\<close>.\<close>

definition queue_empty :: "'a list \<Rightarrow> bool" where
  "queue_empty q = (q = [])"

definition queue_push :: "'a \<Rightarrow> 'a list \<Rightarrow> 'a list" where
  "queue_push x q = q @ [x]"

definition queue_front :: "'a list \<Rightarrow> 'a option" where
  "queue_front q = (case q of [] \<Rightarrow> None | x # xs \<Rightarrow> Some x)"

definition queue_pop :: "'a list \<Rightarrow> 'a list option" where
  "queue_pop q = (case q of [] \<Rightarrow> None | x # xs \<Rightarrow> Some xs)"

text \<open>The promise of the queue to the handlers that fill it and the thread that empties it.\<close>

locale fifo_queue =
  fixes is_empty :: "'q \<Rightarrow> bool"
    and push :: "'a \<Rightarrow> 'q \<Rightarrow> 'q"
    and front :: "'q \<Rightarrow> 'a option"
    and pop :: "'q \<Rightarrow> 'q option"
    and items :: "'q \<Rightarrow> 'a list"
  assumes items_push: "items (push x q) = items q @ [x]"
    and empty_iff: "is_empty q \<longleftrightarrow> items q = []"
    and front_items: "front q = (case items q of [] \<Rightarrow> None | x # xs \<Rightarrow> Some x)"
    and pop_items: "map_option items (pop q) = (case items q of [] \<Rightarrow> None | x # xs \<Rightarrow> Some xs)"
begin

lemma front_pop:
  assumes "\<not> is_empty q"
  shows "\<exists>x q'. front q = Some x \<and> pop q = Some q' \<and> items q = x # items q'"
proof -
  from assms obtain x xs where i: "items q = x # xs" by (auto simp: empty_iff neq_Nil_conv)
  moreover from i obtain q' where "pop q = Some q'" "items q' = xs"
    using pop_items [of q] by auto
  ultimately show ?thesis using front_items [of q] by auto
qed

lemma front_push: "\<not> is_empty q \<Longrightarrow> front (push x q) = front q"
  by (auto simp: front_items items_push empty_iff neq_Nil_conv)

lemma items_fold_push: "items (fold push xs q) = items q @ xs"
  by (induction xs arbitrary: q) (simp_all add: items_push)

lemma pop_decreases: "pop q = Some q' \<Longrightarrow> length (items q') < length (items q)"
  using pop_items [of q] by (auto split: list.splits)

end

interpretation dq: fifo_queue queue_empty queue_push queue_front queue_pop "\<lambda>q. q"
  by unfold_locales
    (auto simp: queue_empty_def queue_push_def queue_front_def queue_pop_def split: list.splits)

section \<open>The mover thread\<close>

text \<open>
  \<open>string(getenv("BBPATH")) + "/XXXXXX"\<close>: an unset variable is only reported before the null
  pointer is used.
\<close>

definition mover_nvmepath :: "(string \<Rightarrow> string option) \<Rightarrow> string run" where
  "mover_nvmepath env =
     (case env ''BBPATH'' of None \<Rightarrow> Inl Null_Dereference | Some d \<Rightarrow> Inr (d @ ''/XXXXXX''))"

text \<open>\<open>pthread_cond_signal(&data_cond)\<close>: it wakes the mover only while the mover waits.\<close>

definition data_cond_signal :: "'o server \<Rightarrow> 'o server" where
  "data_cond_signal s = (if mover s = Mover_Waiting then s\<lparr>mover := Mover_Woken\<rparr> else s)"

text \<open>The loop that moves \<open>data_queue\<close> to \<open>local_list\<close> under the mutex.\<close>

function drain_queue :: "'a list \<Rightarrow> 'a list \<Rightarrow> 'a list \<times> 'a list" where
  "drain_queue q loc =
     (if queue_empty q then (q, loc)
      else case (queue_front q, queue_pop q) of
             (Some x, Some q') \<Rightarrow> drain_queue q' (queue_push x loc)
           | _ \<Rightarrow> (q, loc))"
  by pat_completeness auto
termination
  by (relation "measure (\<lambda>(q, loc). length q)") (auto dest: dq.pop_decreases [OF sym])

declare drain_queue.simps [simp del]

text \<open>One turn of the copy loop: a fresh directory, the copy, the entry in the cache map.\<close>

definition mover_copy_one :: "'o posix_ops \<Rightarrow> string \<Rightarrow> string \<Rightarrow> 'o server \<Rightarrow> 'o server" where
  "mover_copy_one ops nvmepath p s =
     (let (dir_name, os1) = sys_mkdtemp ops (srv_os s) nvmepath;
          dirpath = (case dir_name of None \<Rightarrow> nvmepath | Some d \<Rightarrow> d);
          filename = dirpath @ ''/'' @ path_filename p;
          (ok, os2) = sys_copy ops os1 p filename
      in if ok then s\<lparr>srv_os := os2, path_cache_map := (path_cache_map s)(p \<mapsto> filename)\<rparr>
         else s\<lparr>srv_os := os2\<rparr>)"

text \<open>The steps of the thread between its synchronisation points.\<close>

definition mover_wait :: "'o server \<Rightarrow> 'o server" where
  "mover_wait s = s\<lparr>mover := Mover_Waiting\<rparr>"

definition mover_drain :: "'o server \<Rightarrow> 'o server" where
  "mover_drain s =
     (let (q, loc) = drain_queue (data_queue s) (local_list s)
      in s\<lparr>data_queue := q, local_list := loc, mover := Mover_Copying\<rparr>)"

definition mover_copy_turn :: "'o posix_ops \<Rightarrow> string \<Rightarrow> 'o server \<Rightarrow> 'o server" where
  "mover_copy_turn ops nvmepath s =
     (case (queue_front (local_list s), queue_pop (local_list s)) of
        (Some p, Some rest) \<Rightarrow> (mover_copy_one ops nvmepath p s)\<lparr>local_list := rest\<rparr>
      | _ \<Rightarrow> s\<lparr>mover := Mover_Locking\<rparr>)"

text \<open>
  The interleaving of the thread with its environment. \<open>wake\<close> is a return of
  \<open>pthread_cond_wait\<close> without a signal, which POSIX allows at any time.
\<close>

inductive mover_step :: "'o posix_ops \<Rightarrow> string \<Rightarrow> 'o server \<Rightarrow> 'o server \<Rightarrow> bool"
  for ops nvmepath where
  wait: "mover s = Mover_Locking \<Longrightarrow> mover_step ops nvmepath s (mover_wait s)"
| wake: "mover s = Mover_Waiting \<Longrightarrow> mover_step ops nvmepath s (s\<lparr>mover := Mover_Woken\<rparr>)"
| drain: "mover s = Mover_Woken \<Longrightarrow> mover_step ops nvmepath s (mover_drain s)"
| copy: "mover s = Mover_Copying \<Longrightarrow> mover_step ops nvmepath s (mover_copy_turn ops nvmepath s)"

text \<open>The copy loop run to its end, as the thread does once it has been woken.\<close>

fun mover_copy_all :: "'o posix_ops \<Rightarrow> string \<Rightarrow> string list \<Rightarrow> 'o server \<Rightarrow> 'o server" where
  "mover_copy_all ops nvmepath [] s = s"
| "mover_copy_all ops nvmepath (p # ps) s =
     mover_copy_all ops nvmepath ps (mover_copy_one ops nvmepath p s)"

definition mover_round :: "'o posix_ops \<Rightarrow> string \<Rightarrow> 'o server \<Rightarrow> 'o server" where
  "mover_round ops nvmepath s =
     (let s1 = mover_drain s
      in (mover_copy_all ops nvmepath (local_list s1) s1)\<lparr>local_list := [], mover := Mover_Locking\<rparr>)"

section \<open>Lemmas\<close>

lemma drain_queue_eq: "drain_queue q loc = ([], loc @ q)"
proof (induction q loc rule: drain_queue.induct)
  case (1 q loc)
  show ?case
  proof (cases q)
    case Nil
    then show ?thesis by (subst drain_queue.simps) (simp add: queue_empty_def)
  next
    case (Cons x xs)
    with 1 show ?thesis
      by (subst drain_queue.simps) (simp add: queue_empty_def queue_front_def queue_pop_def queue_push_def)
  qed
qed

lemma mover_drain_eq:
  "mover_drain s = s\<lparr>data_queue := [], local_list := local_list s @ data_queue s, mover := Mover_Copying\<rparr>"
  by (simp add: mover_drain_def drain_queue_eq)

lemma mover_copy_turn_Nil: "local_list s = [] \<Longrightarrow> mover_copy_turn ops nvmepath s = s\<lparr>mover := Mover_Locking\<rparr>"
  by (simp add: mover_copy_turn_def queue_front_def queue_pop_def)

lemma mover_copy_turn_Cons:
  "local_list s = p # ps \<Longrightarrow> mover_copy_turn ops nvmepath s = (mover_copy_one ops nvmepath p s)\<lparr>local_list := ps\<rparr>"
  by (simp add: mover_copy_turn_def queue_front_def queue_pop_def)

lemma mover_copy_one_frame [simp]:
  "fd_to_path (mover_copy_one ops nvmepath p s) = fd_to_path s"
  "data_queue (mover_copy_one ops nvmepath p s) = data_queue s"
  "local_list (mover_copy_one ops nvmepath p s) = local_list s"
  "mover (mover_copy_one ops nvmepath p s) = mover s"
  by (simp_all add: mover_copy_one_def Let_def split: prod.splits)

lemma mover_copy_one_local_list:
  "mover_copy_one ops nvmepath p (s\<lparr>local_list := l\<rparr>) = (mover_copy_one ops nvmepath p s)\<lparr>local_list := l\<rparr>"
  by (simp add: mover_copy_one_def Let_def split: prod.splits)

lemma mover_copy_all_local_list:
  "mover_copy_all ops nvmepath ps (s\<lparr>local_list := l\<rparr>) = (mover_copy_all ops nvmepath ps s)\<lparr>local_list := l\<rparr>"
  by (induction ps arbitrary: s) (simp_all add: mover_copy_one_local_list)

lemma data_cond_signal_frame [simp]:
  "fd_to_path (data_cond_signal s) = fd_to_path s"
  "path_cache_map (data_cond_signal s) = path_cache_map s"
  "data_queue (data_cond_signal s) = data_queue s"
  "local_list (data_cond_signal s) = local_list s"
  "srv_os (data_cond_signal s) = srv_os s"
  by (simp_all add: data_cond_signal_def)

text \<open>
  Left alone the mover has one way to go on, so a number of its steps leads to one state.
\<close>

lemma mover_step_unique: "mover_step ops nvmepath s t \<Longrightarrow> mover_step ops nvmepath s u \<Longrightarrow> t = u"
  by (auto simp: mover_step.simps)

lemma mover_steps_unique: "(mover_step ops nvmepath ^^ n) s t \<Longrightarrow> (mover_step ops nvmepath ^^ n) s u \<Longrightarrow> t = u"
proof (induction n arbitrary: t u)
  case (Suc n)
  then obtain a b where "(mover_step ops nvmepath ^^ n) s a" "mover_step ops nvmepath a t"
    "(mover_step ops nvmepath ^^ n) s b" "mover_step ops nvmepath b u" by (auto elim!: relpowp_Suc_E)
  with Suc.IH mover_step_unique show ?case by blast
qed simp

lemma mover_steps_number:
  assumes "(mover_step ops nvmepath)\<^sup>*\<^sup>* s t"
  shows "\<exists>n. \<forall>v. (mover_step ops nvmepath ^^ n) s v \<longleftrightarrow> v = t"
proof -
  from rtranclp_imp_relpowp [OF assms] obtain n where n: "(mover_step ops nvmepath ^^ n) s t" by blast
  with mover_steps_unique [OF this] show ?thesis by blast
qed

text \<open>The small steps of the copy loop reach the state the loop computes.\<close>

lemma copy_loop_steps:
  assumes "mover s = Mover_Copying" and "local_list s = ps"
  shows "(mover_step ops nvmepath)\<^sup>*\<^sup>* s
           ((mover_copy_all ops nvmepath ps s)\<lparr>local_list := [], mover := Mover_Locking\<rparr>)"
  using assms
proof (induction ps arbitrary: s)
  case Nil
  then have "mover_step ops nvmepath s (s\<lparr>mover := Mover_Locking\<rparr>)"
    using mover_step.copy [of s ops nvmepath] by (simp add: mover_copy_turn_Nil)
  with Nil show ?case by (cases s) simp
next
  case (Cons p ps)
  let ?t = "(mover_copy_one ops nvmepath p s)\<lparr>local_list := ps\<rparr>"
  have "mover_step ops nvmepath s ?t"
    using mover_step.copy [of s ops nvmepath] Cons.prems by (simp add: mover_copy_turn_Cons)
  moreover have "(mover_step ops nvmepath)\<^sup>*\<^sup>* ?t
      ((mover_copy_all ops nvmepath ps ?t)\<lparr>local_list := [], mover := Mover_Locking\<rparr>)"
    by (rule Cons.IH) (simp_all add: Cons.prems)
  ultimately show ?case
    by (simp add: mover_copy_all_local_list)
qed

lemma round_steps:
  assumes "mover s = Mover_Woken"
  shows "(mover_step ops nvmepath)\<^sup>*\<^sup>* s (mover_round ops nvmepath s)"
proof -
  have "mover_step ops nvmepath s (mover_drain s)" using assms by (rule mover_step.drain)
  moreover have "(mover_step ops nvmepath)\<^sup>*\<^sup>* (mover_drain s) (mover_round ops nvmepath s)"
    unfolding mover_round_def Let_def by (rule copy_loop_steps) (simp_all add: mover_drain_eq)
  ultimately show ?thesis by (rule converse_rtranclp_into_rtranclp)
qed

lemma mover_copy_one_dom:
  "dom (path_cache_map (mover_copy_one ops nvmepath p s)) \<subseteq> insert p (dom (path_cache_map s))"
  by (auto simp: mover_copy_one_def Let_def split: prod.splits)

lemma mover_copy_all_fields [simp]:
  "fd_to_path (mover_copy_all ops nvmepath ps s) = fd_to_path s"
  "data_queue (mover_copy_all ops nvmepath ps s) = data_queue s"
  by (induction ps arbitrary: s) simp_all

lemma mover_copy_all_dom:
  "dom (path_cache_map (mover_copy_all ops nvmepath ps s)) \<subseteq> dom (path_cache_map s) \<union> set ps"
proof (induction ps arbitrary: s)
  case (Cons p ps)
  have "dom (path_cache_map (mover_copy_all ops nvmepath (p # ps) s)) \<subseteq>
      dom (path_cache_map (mover_copy_one ops nvmepath p s)) \<union> set ps"
    using Cons.IH by simp
  with mover_copy_one_dom [of ops nvmepath p s] show ?case unfolding list.set by blast
qed simp

section \<open>Properties\<close>

text \<open>
  C22: once the mover has been woken, its steps end in the state \<open>mover_round\<close> computes: the shared
  queue and the private list are empty, the thread is back at its lock, the descriptors of the
  handlers are untouched, and only paths that had been queued can have entered the cache map.
\<close>

theorem mover_round_completes:
  assumes "mover s = Mover_Woken"
  shows "(mover_step ops nvmepath)\<^sup>*\<^sup>* s (mover_round ops nvmepath s) \<and>
    data_queue (mover_round ops nvmepath s) = [] \<and> local_list (mover_round ops nvmepath s) = [] \<and>
    mover (mover_round ops nvmepath s) = Mover_Locking \<and>
    fd_to_path (mover_round ops nvmepath s) = fd_to_path s \<and>
    dom (path_cache_map (mover_round ops nvmepath s)) \<subseteq>
      dom (path_cache_map s) \<union> (set (local_list s) \<union> set (data_queue s))"
proof (intro conjI)
  show "(mover_step ops nvmepath)\<^sup>*\<^sup>* s (mover_round ops nvmepath s)"
    using assms by (rule round_steps)
  show "dom (path_cache_map (mover_round ops nvmepath s)) \<subseteq>
      dom (path_cache_map s) \<union> (set (local_list s) \<union> set (data_queue s))"
    using mover_copy_all_dom [of ops nvmepath "local_list s @ data_queue s" "mover_drain s"]
    by (simp add: mover_round_def mover_drain_eq)
qed (simp_all add: mover_round_def mover_drain_eq)

definition woken_server :: "linux server" where
  "woken_server = \<lparr>fd_to_path = Map.empty, path_cache_map = Map.empty, data_queue = [''/data/a''], local_list = [],
     mover = Mover_Woken, srv_os = sample_os\<rparr>"

lemma woken_server_round:
  "path_cache_map (mover_round linux_ops ''/bb/XXXXXX'' woken_server) = [''/data/a'' \<mapsto> ''/bb/aaaaaa/a'']"
  by (simp add: mover_round_def mover_drain_eq woken_server_def mover_copy_one_def linux_ops_def
      linux_mkdtemp_def linux_copy_def path_parent_def path_filename_def sample_os_def Let_def)

theorem mover_round_completes_witness:
  "(mover_step linux_ops ''/bb/XXXXXX'')\<^sup>*\<^sup>* woken_server (mover_round linux_ops ''/bb/XXXXXX'' woken_server) \<and>
   data_queue (mover_round linux_ops ''/bb/XXXXXX'' woken_server) = [] \<and>
   path_cache_map (mover_round linux_ops ''/bb/XXXXXX'' woken_server) ''/data/a'' = Some ''/bb/aaaaaa/a''"
  using mover_round_completes [of woken_server linux_ops "''/bb/XXXXXX''"]
  by (simp add: woken_server_round) (simp add: woken_server_def)

end
