(* ===== verification/HVAC_Comm.thy ===== *)
theory HVAC_Comm
  imports HVAC_Data_Mover
begin

text \<open>
  The communication layer the two sides share and the request handlers of the server
  (\<open>mthvac_comm.h\<close>, \<open>mthvac_comm.cpp\<close>). Mercury is not part of the repository: the return
  codes of its calls are fields of the record \<open>mercury\<close>. Mercury runs every handler on the one
  progress thread, so handlers are atomic with respect to each other.
\<close>

section \<open>Messages\<close>

record hvac_open_in_t = open_path :: string
record hvac_open_out_t = open_ret_status :: int

text \<open>\<open>bulk_handle\<close> stands for the client buffer; \<open>bulk_size\<close> is the size it was registered with.\<close>

record hvac_rpc_in_t =
  input_val :: int
  bulk_size :: int
  accessfd :: int
  rpc_offset :: int

record hvac_rpc_out_t = rpc_ret :: int

record hvac_seek_in_t =
  seek_fd :: int
  seek_offset :: int
  seek_whence :: int

record hvac_seek_out_t = seek_ret :: int
record hvac_close_in_t = close_fd :: int
record hvac_rpc_trigger_srv_print_stats_in_t = dummy_arg :: int
record hvac_rpc_trigger_srv_print_stats_out_t = stats_status :: int

section \<open>Mercury and the allocator, as the handlers see them\<close>

definition HG_SUCCESS :: int where "HG_SUCCESS = 0"

text \<open>
  What Mercury does with a request whose server is gone, or aborts while it handles the request,
  depends on the transport and is not documented. It is part of the parameter: \<open>HG_Forward\<close> can refuse
  the request or accept it, and then the callback gets an error or never runs. Error codes are
  positive, \<open>HG_SUCCESS\<close> is 0.
\<close>

datatype reply_loss = Error_Reply nat | Silence

datatype request_loss = Refused_Request nat | Accepted reply_loss

record mercury =
  hg_get_input :: int
  calloc_ok :: "int \<Rightarrow> bool"
  hg_get_info :: bool
  hg_bulk_create :: "int \<Rightarrow> int"
  hg_bulk_transfer :: "int \<Rightarrow> int \<Rightarrow> int \<Rightarrow> int"
  hg_bulk_info_ret :: int
  hg_respond :: int
  hg_gone :: "string option \<Rightarrow> request_loss"
  hg_aborts :: "string \<Rightarrow> reply_loss"

section \<open>The read handler\<close>

record hvac_rpc_state =
  rpc_size :: int
  rpc_buffer :: "byte list"
  rpc_in :: hvac_rpc_in_t

text \<open>
  The file is read into the front of a zeroed buffer. \<open>size\<close> is a \<open>uint64_t\<close>: a failed read
  gives the size \<open>2^64 - 1\<close>. The log line after the read evaluates \<open>fd_to_path[accessfd]\<close>.
\<close>

definition read_file :: "'o posix_ops \<Rightarrow> hvac_rpc_in_t \<Rightarrow> int \<Rightarrow> 'o \<Rightarrow> (int \<times> byte list) \<times> 'o" where
  "read_file ops i sz os =
     (if rpc_offset i = -1 then sys_read ops os (accessfd i) sz
      else sys_pread ops os (accessfd i) sz (rpc_offset i))"

definition hvac_rpc_handler ::
    "'o posix_ops \<Rightarrow> mercury \<Rightarrow> hvac_rpc_in_t \<Rightarrow> 'o server \<Rightarrow> (hvac_rpc_state \<times> 'o server) run" where
  "hvac_rpc_handler ops hg i s =
     (let sz = uint64 (input_val i) in
      assert_run (calloc_ok hg sz) (
      assert_run (hg_get_info hg) (
      assert_run (hg_bulk_create hg sz = 0) (
      let ((readbytes, data), os') = read_file ops i sz (srv_os s);
          s' = s\<lparr>srv_os := os', fd_to_path := index_insert [] (fd_to_path s) (accessfd i)\<rparr>;
          size' = uint64 readbytes
      in assert_run (hg_bulk_transfer hg (bulk_size i) sz size' = 0)
           (Inr (\<lparr>rpc_size = size', rpc_buffer = data @ replicate (nat sz - length data) 0, rpc_in = i\<rparr>, s'))))))"

text \<open>The completion callback answers with the size and the bytes have reached the client.\<close>

definition hvac_rpc_handler_bulk_cb ::
    "mercury \<Rightarrow> hvac_rpc_state \<Rightarrow> (hvac_rpc_out_t \<times> byte list) run" where
  "hvac_rpc_handler_bulk_cb hg st =
     (let out = \<lparr>rpc_ret = int32 (rpc_size st)\<rparr> in
      assert_run (hg_bulk_info_ret hg = 0) (
      assert_run (hg_respond hg = HG_SUCCESS)
        (Inr (out, take (nat (rpc_size st)) (rpc_buffer st)))))"

section \<open>The open, close and seek handlers\<close>

definition redirect_path :: "'o server \<Rightarrow> string \<Rightarrow> string" where
  "redirect_path s p = (case path_cache_map s p of None \<Rightarrow> p | Some q \<Rightarrow> q)"

definition hvac_open_rpc_handler ::
    "'o posix_ops \<Rightarrow> mercury \<Rightarrow> hvac_open_in_t \<Rightarrow> 'o server \<Rightarrow> (hvac_open_out_t \<times> 'o server) run" where
  "hvac_open_rpc_handler ops hg i s =
     assert_run (hg_get_input hg = 0) (
     let (fd, os') = sys_open ops (srv_os s) (redirect_path s (open_path i)) O_RDONLY 0
     in Inr (\<lparr>open_ret_status = fd\<rparr>,
             s\<lparr>srv_os := os', fd_to_path := (fd_to_path s)(fd \<mapsto> open_path i)\<rparr>))"

definition hvac_close_rpc_handler ::
    "'o posix_ops \<Rightarrow> mercury \<Rightarrow> hvac_close_in_t \<Rightarrow> 'o server \<Rightarrow> 'o server run" where
  "hvac_close_rpc_handler ops hg i s =
     assert_run (hg_get_input hg = HG_SUCCESS) (
     let (ret, os') = sys_close ops (srv_os s) (close_fd i) in
     assert_run (ret = 0) (
     let path = index_value [] (fd_to_path s) (close_fd i);
         s1 = s\<lparr>srv_os := os', fd_to_path := index_insert [] (fd_to_path s) (close_fd i)\<rparr>;
         s2 = (if path_cache_map s1 path = None
               then data_cond_signal (s1\<lparr>data_queue := queue_push path (data_queue s1)\<rparr>)
               else s1)
     in Inr (s2\<lparr>fd_to_path := (fd_to_path s2)(close_fd i := None)\<rparr>)))"

definition hvac_seek_rpc_handler ::
    "'o posix_ops \<Rightarrow> mercury \<Rightarrow> hvac_seek_in_t \<Rightarrow> 'o server \<Rightarrow> (hvac_seek_out_t \<times> 'o server) run" where
  "hvac_seek_rpc_handler ops hg i s =
     assert_run (hg_get_input hg = 0) (
     let (r, os') = sys_lseek ops (srv_os s) (seek_fd i) (seek_offset i) (seek_whence i)
     in Inr (\<lparr>seek_ret = int32 r\<rparr>, s\<lparr>srv_os := os'\<rparr>))"

text \<open>
  The statistics handler answers with \<open>-1\<close> when the input cannot be decoded and prints the
  statistics otherwise; the second component says whether \<open>print_all_stats\<close> ran, the third is the
  code the handler returns.
\<close>

definition hvac_trigger_srv_print_stats_handler ::
    "mercury \<Rightarrow> hvac_rpc_trigger_srv_print_stats_out_t \<times> bool \<times> int" where
  "hvac_trigger_srv_print_stats_handler hg =
     (if hg_get_input hg \<noteq> HG_SUCCESS then (\<lparr>stats_status = -1\<rparr>, False, hg_respond hg)
      else (\<lparr>stats_status = 0\<rparr>, True, hg_respond hg))"

section \<open>Runs of the server\<close>

text \<open>
  One step of the server process: a request handler that does not abort the process, or a step of
  the mover thread. The bulk transfer that follows a read changes no state of the server.
\<close>

inductive server_step :: "'o posix_ops \<Rightarrow> mercury \<Rightarrow> string \<Rightarrow> 'o server \<Rightarrow> 'o server \<Rightarrow> bool"
  for ops hg nvmepath where
  on_open: "hvac_open_rpc_handler ops hg i s = Inr (out, t) \<Longrightarrow> server_step ops hg nvmepath s t"
| on_read: "hvac_rpc_handler ops hg j s = Inr (st, t) \<Longrightarrow> server_step ops hg nvmepath s t"
| on_seek: "hvac_seek_rpc_handler ops hg k s = Inr (r, t) \<Longrightarrow> server_step ops hg nvmepath s t"
| on_close: "hvac_close_rpc_handler ops hg l s = Inr t \<Longrightarrow> server_step ops hg nvmepath s t"
| on_mover: "mover_step ops nvmepath s t \<Longrightarrow> server_step ops hg nvmepath s t"

definition server_init :: "'o \<Rightarrow> 'o server" where
  "server_init os = \<lparr>fd_to_path = Map.empty, path_cache_map = Map.empty, data_queue = [],
     local_list = [], mover = Mover_Locking, srv_os = os\<rparr>"

text \<open>
  The cache holds copies: a redirected path exists and its copy has the same bytes. Every open
  descriptor is recorded under the path the client asked for and reads the bytes of that path.
\<close>

definition cache_coherent :: "('o \<Rightarrow> string \<rightharpoonup> byte list) \<Rightarrow> 'o server \<Rightarrow> bool" where
  "cache_coherent content s \<longleftrightarrow>
     (\<forall>p q. path_cache_map s p = Some q \<longrightarrow>
        content (srv_os s) p \<noteq> None \<and> content (srv_os s) q = content (srv_os s) p)"

definition handles_tracked ::
    "('o \<Rightarrow> string \<rightharpoonup> byte list) \<Rightarrow> ('o \<Rightarrow> int \<rightharpoonup> (string \<times> nat)) \<Rightarrow> 'o server \<Rightarrow> bool" where
  "handles_tracked content handle s \<longleftrightarrow>
     (\<forall>fd h off. handle (srv_os s) fd = Some (h, off) \<longrightarrow> 0 \<le> fd \<and>
        (\<exists>p. fd_to_path s fd = Some p \<and> content (srv_os s) p \<noteq> None \<and>
             content (srv_os s) h = content (srv_os s) p))"

definition server_inv ::
    "('o \<Rightarrow> string \<rightharpoonup> byte list) \<Rightarrow> ('o \<Rightarrow> int \<rightharpoonup> (string \<times> nat)) \<Rightarrow> 'o server \<Rightarrow> bool" where
  "server_inv content handle s \<longleftrightarrow> cache_coherent content s \<and> handles_tracked content handle s"

text \<open>Mercury and the allocator working: what a handler needs in order not to abort.\<close>

definition mercury_ok :: "mercury \<Rightarrow> bool" where
  "mercury_ok hg \<longleftrightarrow> hg_get_input hg = 0 \<and> (\<forall>n. 0 \<le> n \<longrightarrow> n < 2 ^ 31 \<longrightarrow> calloc_ok hg n) \<and> hg_get_info hg \<and>
     (\<forall>n. hg_bulk_create hg n = 0) \<and> (\<forall>a b n. n \<le> a \<longrightarrow> n \<le> b \<longrightarrow> hg_bulk_transfer hg a b n = 0) \<and>
     hg_bulk_info_ret hg = 0 \<and> hg_respond hg = 0"

text \<open>Mercury refuses a transfer larger than one of the two registered regions.\<close>

definition bulk_bounded :: "mercury \<Rightarrow> bool" where
  "bulk_bounded hg \<longleftrightarrow> (\<forall>a b n. n > a \<or> n > b \<longrightarrow> hg_bulk_transfer hg a b n \<noteq> 0)"

lemma cache_coherentD:
  "cache_coherent content s \<Longrightarrow> path_cache_map s p = Some q \<Longrightarrow>
     \<exists>c. content (srv_os s) p = Some c \<and> content (srv_os s) q = Some c"
  by (fastforce simp: cache_coherent_def)

lemma handles_trackedD:
  "handles_tracked content handle s \<Longrightarrow> handle (srv_os s) fd = Some (h, off) \<Longrightarrow>
     0 \<le> fd \<and> (\<exists>p c. fd_to_path s fd = Some p \<and> content (srv_os s) p = Some c \<and> content (srv_os s) h = Some c)"
  by (fastforce simp: handles_tracked_def)

lemma cache_coherentI:
  "(\<And>p q. path_cache_map s p = Some q \<Longrightarrow>
      \<exists>c. content (srv_os s) p = Some c \<and> content (srv_os s) q = Some c) \<Longrightarrow> cache_coherent content s"
  by (fastforce simp: cache_coherent_def)

lemma handles_trackedI:
  "(\<And>fd h off. handle (srv_os s) fd = Some (h, off) \<Longrightarrow>
      0 \<le> fd \<and> (\<exists>p c. fd_to_path s fd = Some p \<and> content (srv_os s) p = Some c \<and> content (srv_os s) h = Some c)) \<Longrightarrow>
   handles_tracked content handle s"
  by (fastforce simp: handles_tracked_def)

context posix_files
begin

lemma mover_copy_one_cases:
  obtains (copied) f os2 where
      "mover_copy_one ops nvmepath p s = s\<lparr>srv_os := os2, path_cache_map := (path_cache_map s)(p \<mapsto> f)\<rparr>"
      "content (srv_os s) p \<noteq> None" "content (srv_os s) f = None"
      "content os2 = (content (srv_os s))(f := content (srv_os s) p)" "handle os2 = handle (srv_os s)"
    | (failed) os2 where
      "mover_copy_one ops nvmepath p s = s\<lparr>srv_os := os2\<rparr>" "handle os2 = handle (srv_os s)"
      "\<forall>x. content (srv_os s) x \<noteq> None \<longrightarrow> content os2 x = content (srv_os s) x"
proof -
  obtain d os1 where m: "sys_mkdtemp ops (srv_os s) nvmepath = (d, os1)" by (metis surj_pair)
  let ?f = "(case d of None \<Rightarrow> nvmepath | Some d \<Rightarrow> d) @ ''/'' @ path_filename p"
  obtain ok os' where c: "sys_copy ops os1 p ?f = (ok, os')" by (metis surj_pair)
  from m have f: "content os1 = content (srv_os s)" "handle os1 = handle (srv_os s)"
    by (simp_all add: mkdtemp_frame)
  show thesis
  proof (cases ok)
    case True
    with copy_ok [of os1 p ?f os'] c f show thesis
      by (intro copied [of ?f os']) (simp_all add: mover_copy_one_def m)
  next
    case False
    with copy_error [of os1 p ?f os'] c f show thesis
      by (intro failed [of os']) (simp_all add: mover_copy_one_def m)
  qed
qed

lemma mover_copy_one_content:
  "content (srv_os s) x \<noteq> None \<Longrightarrow>
     content (srv_os (mover_copy_one ops nvmepath p s)) x = content (srv_os s) x"
  by (rule mover_copy_one_cases [of nvmepath p s]) auto

text \<open>What keeps the invariant: descriptors and existing files stay, new cache entries are copies.\<close>

lemma server_inv_frame:
  assumes "server_inv content handle s"
    and "\<And>x. content (srv_os s) x \<noteq> None \<Longrightarrow> content (srv_os t) x = content (srv_os s) x"
    and "\<And>fd h off. handle (srv_os t) fd = Some (h, off) \<Longrightarrow>
           \<exists>off'. handle (srv_os s) fd = Some (h, off') \<and> fd_to_path t fd = fd_to_path s fd"
    and "path_cache_map t = path_cache_map s"
  shows "server_inv content handle t"
proof -
  from assms(1) have c: "cache_coherent content s" and h: "handles_tracked content handle s"
    by (simp_all add: server_inv_def)
  have "cache_coherent content t"
    using assms(2,4) by (intro cache_coherentI) (fastforce dest!: cache_coherentD [OF c])
  moreover have "handles_tracked content handle t"
    using assms(2) by (intro handles_trackedI) (fastforce dest!: assms(3) dest: handles_trackedD [OF h])
  ultimately show ?thesis by (simp add: server_inv_def)
qed

lemma mover_copy_one_inv:
  assumes "server_inv content handle s"
  shows "server_inv content handle (mover_copy_one ops nvmepath p s)"
proof (rule mover_copy_one_cases [of nvmepath p s])
  fix f os2
  assume eq: "mover_copy_one ops nvmepath p s = s\<lparr>srv_os := os2, path_cache_map := (path_cache_map s)(p \<mapsto> f)\<rparr>"
    and p: "content (srv_os s) p \<noteq> None" and f: "content (srv_os s) f = None"
    and c: "content os2 = (content (srv_os s))(f := content (srv_os s) p)"
    and h: "handle os2 = handle (srv_os s)"
  from assms have cc: "cache_coherent content s" and ht: "handles_tracked content handle s"
    by (simp_all add: server_inv_def)
  have "cache_coherent content (mover_copy_one ops nvmepath p s)"
    using p f by (intro cache_coherentI) (auto simp: eq c split: if_splits dest!: cache_coherentD [OF cc])
  moreover have "handles_tracked content handle (mover_copy_one ops nvmepath p s)"
    using f by (intro handles_trackedI) (fastforce simp: eq c h dest!: handles_trackedD [OF ht])
  ultimately show ?thesis by (simp add: server_inv_def)
next
  fix os2
  assume "mover_copy_one ops nvmepath p s = s\<lparr>srv_os := os2\<rparr>" "handle os2 = handle (srv_os s)"
    "\<forall>x. content (srv_os s) x \<noteq> None \<longrightarrow> content os2 x = content (srv_os s) x"
  then show ?thesis by (intro server_inv_frame [OF assms]) auto
qed

lemma mover_step_content:
  "mover_step ops nvmepath s t \<Longrightarrow> content (srv_os s) x \<noteq> None \<Longrightarrow> content (srv_os t) x = content (srv_os s) x"
  by (induction rule: mover_step.induct)
    (auto simp: mover_wait_def mover_drain_eq mover_copy_turn_def mover_copy_one_content split: option.splits)

lemma server_inv_mover_fields [simp]:
  "server_inv content handle (s\<lparr>mover := m\<rparr>) = server_inv content handle s"
  "server_inv content handle (s\<lparr>local_list := l\<rparr>) = server_inv content handle s"
  "server_inv content handle (s\<lparr>data_queue := q\<rparr>) = server_inv content handle s"
  by (simp_all add: server_inv_def cache_coherent_def handles_tracked_def)

lemma mover_step_inv: "mover_step ops nvmepath s t \<Longrightarrow> server_inv content handle s \<Longrightarrow> server_inv content handle t"
  by (induction rule: mover_step.induct)
    (auto simp: mover_wait_def mover_drain_eq mover_copy_turn_def mover_copy_one_inv split: option.splits)

text \<open>The handlers: frames first, then the invariant.\<close>

lemma open_handler_frame:
  assumes "hvac_open_rpc_handler ops hg i s = Inr (out, t)"
  shows "content (srv_os t) = content (srv_os s)"
    and "open_ret_status out \<noteq> -1 \<Longrightarrow> 0 \<le> open_ret_status out \<and> open_ret_status out < 2 ^ 31 \<and>
           handle (srv_os t) = (handle (srv_os s))(open_ret_status out \<mapsto> (redirect_path s (open_path i), 0)) \<and>
           content (srv_os s) (redirect_path s (open_path i)) \<noteq> None"
    and "open_ret_status out = -1 \<Longrightarrow> handle (srv_os t) = handle (srv_os s)"
    and "fd_to_path t = (fd_to_path s)(open_ret_status out \<mapsto> open_path i)"
    and "path_cache_map t = path_cache_map s"
proof -
  obtain fd os' where o: "sys_open ops (srv_os s) (redirect_path s (open_path i)) O_RDONLY 0 = (fd, os')"
    by (metis surj_pair)
  with assms have out: "out = \<lparr>open_ret_status = fd\<rparr>"
    and t: "t = s\<lparr>srv_os := os', fd_to_path := (fd_to_path s)(fd \<mapsto> open_path i)\<rparr>"
    by (auto simp: hvac_open_rpc_handler_def assert_run_eq_Inr)
  note F = open_fd [OF o] open_error [where s = "srv_os s" and p = "redirect_path s (open_path i)" and m = 0 and s' = os']
  show "content (srv_os t) = content (srv_os s)"
    using F o by (cases "fd = -1") (auto simp: t)
  show "open_ret_status out \<noteq> -1 \<Longrightarrow> 0 \<le> open_ret_status out \<and> open_ret_status out < 2 ^ 31 \<and>
       handle (srv_os t) = (handle (srv_os s))(open_ret_status out \<mapsto> (redirect_path s (open_path i), 0)) \<and>
       content (srv_os s) (redirect_path s (open_path i)) \<noteq> None"
    using F(1) by (simp add: t out)
  show "open_ret_status out = -1 \<Longrightarrow> handle (srv_os t) = handle (srv_os s)"
    using F(2) o by (simp add: t out)
  show "fd_to_path t = (fd_to_path s)(open_ret_status out \<mapsto> open_path i)"
    and "path_cache_map t = path_cache_map s" by (simp_all add: t out)
qed

lemma redirect_content:
  assumes "cache_coherent content s" and "content (srv_os s) (redirect_path s p) \<noteq> None"
  shows "\<exists>c. content (srv_os s) p = Some c \<and> content (srv_os s) (redirect_path s p) = Some c"
  using assms by (auto simp: redirect_path_def split: option.splits dest: cache_coherentD)

lemma open_handler_inv:
  assumes inv: "server_inv content handle s" and step: "hvac_open_rpc_handler ops hg i s = Inr (out, t)"
  shows "server_inv content handle t"
proof -
  from inv have cc: "cache_coherent content s" and ht: "handles_tracked content handle s"
    by (simp_all add: server_inv_def)
  note fr = open_handler_frame [OF step]
  have "cache_coherent content t"
    by (intro cache_coherentI) (simp add: fr(1,5) cache_coherentD [OF cc])
  moreover have "handles_tracked content handle t"
  proof (intro handles_trackedI)
    fix fd h off assume h: "handle (srv_os t) fd = Some (h, off)"
    show "0 \<le> fd \<and> (\<exists>p c. fd_to_path t fd = Some p \<and> content (srv_os t) p = Some c \<and> content (srv_os t) h = Some c)"
    proof (cases "open_ret_status out \<noteq> -1 \<and> fd = open_ret_status out")
      case True
      with fr(2) h have "h = redirect_path s (open_path i)" "0 \<le> fd"
        "content (srv_os s) (redirect_path s (open_path i)) \<noteq> None" by auto
      with redirect_content [OF cc, of "open_path i"] True show ?thesis by (auto simp: fr(1,4))
    next
      case False
      with fr(2,3) h have "handle (srv_os s) fd = Some (h, off)" by (cases "open_ret_status out = -1") auto
      with handles_trackedD [OF ht this] False show ?thesis by (auto simp: fr(1,4))
    qed
  qed
  ultimately show ?thesis by (simp add: server_inv_def)
qed

lemma read_file_frame:
  assumes "handles_tracked content handle s" and "0 \<le> n"
    and "read_file ops i n (srv_os s) = ((r, d), os')"
  shows "content os' = content (srv_os s) \<and>
    (\<forall>fd h off. handle os' fd = Some (h, off) \<longrightarrow> (\<exists>off'. handle (srv_os s) fd = Some (h, off')))"
proof (cases "handle (srv_os s) (accessfd i)")
  case None
  then show ?thesis using assms(3) bad_fd [OF None] by (auto simp: read_file_def split: if_splits)
next
  case (Some x)
  then obtain h off where h: "handle (srv_os s) (accessfd i) = Some (h, off)" by (cases x) auto
  from handles_trackedD [OF assms(1) h] obtain c where c: "content (srv_os s) h = Some c" by auto
  show ?thesis
  proof (cases "rpc_offset i = -1")
    case True
    with read_ok [OF h c assms(2)] assms(3) h show ?thesis by (auto simp: read_file_def split: if_splits)
  next
    case False
    show ?thesis
    proof (cases "rpc_offset i < 0")
      case True
      with False assms(3) show ?thesis by (auto simp: read_file_def pread_negative)
    next
      case nonneg: False
      then have "0 \<le> rpc_offset i" by simp
      from pread_ok [OF h c assms(2) this] False assms(3) show ?thesis by (auto simp: read_file_def)
    qed
  qed
qed

lemma read_handler_split:
  assumes "hvac_rpc_handler ops hg i s = Inr (st, t)"
  obtains r d os' where "read_file ops i (uint64 (input_val i)) (srv_os s) = ((r, d), os')"
    and "t = s\<lparr>srv_os := os', fd_to_path := index_insert [] (fd_to_path s) (accessfd i)\<rparr>"
    and "rpc_size st = uint64 r"
    and "rpc_buffer st = d @ replicate (nat (uint64 (input_val i)) - length d) 0"
    and "hg_bulk_transfer hg (bulk_size i) (uint64 (input_val i)) (uint64 r) = 0"
proof -
  obtain r d os' where "read_file ops i (uint64 (input_val i)) (srv_os s) = ((r, d), os')"
    by (metis surj_pair)
  with assms that show thesis by (auto simp: hvac_rpc_handler_def Let_def assert_run_eq_Inr)
qed

lemma read_handler_inv:
  assumes inv: "server_inv content handle s" and step: "hvac_rpc_handler ops hg i s = Inr (st, t)"
  shows "server_inv content handle t \<and> content (srv_os t) = content (srv_os s)"
proof -
  from step obtain r d os' where r: "read_file ops i (uint64 (input_val i)) (srv_os s) = ((r, d), os')"
    and t: "t = s\<lparr>srv_os := os', fd_to_path := index_insert [] (fd_to_path s) (accessfd i)\<rparr>"
    by (rule read_handler_split)
  from inv have ht: "handles_tracked content handle s" by (simp add: server_inv_def)
  note fr = read_file_frame [OF ht uint64_bounds(1) r]
  have keep: "handle (srv_os s) fd = Some (h, off) \<Longrightarrow> fd_to_path t fd = fd_to_path s fd" for fd h off
    using handles_trackedD [OF ht] by (fastforce simp: t index_insert_def split: option.splits)
  have "server_inv content handle t"
    by (rule server_inv_frame [OF inv]) (use fr keep t in fastforce)+
  with fr t show ?thesis by simp
qed

lemma seek_handler_inv:
  assumes inv: "server_inv content handle s" and step: "hvac_seek_rpc_handler ops hg i s = Inr (out, t)"
  shows "server_inv content handle t \<and> content (srv_os t) = content (srv_os s)"
proof -
  obtain r os' where l: "sys_lseek ops (srv_os s) (seek_fd i) (seek_offset i) (seek_whence i) = (r, os')"
    by (metis surj_pair)
  with step have t: "t = s\<lparr>srv_os := os'\<rparr>" by (auto simp: hvac_seek_rpc_handler_def assert_run_eq_Inr)
  note fr = lseek_frame [OF l]
  have "\<exists>off'. handle (srv_os s) fd = Some (h, off')" if "handle os' fd = Some (h, off)" for fd h off
  proof -
    from fr(2) [of fd] that have "map_option fst (handle (srv_os s) fd) = Some h" by simp
    then show ?thesis by auto
  qed
  then have "server_inv content handle t"
    using fr by (intro server_inv_frame [OF inv]) (auto simp: t)
  with fr show ?thesis by (simp add: t)
qed

lemma close_handler_split:
  assumes "hvac_close_rpc_handler ops hg i s = Inr t"
  obtains h os' where "handle (srv_os s) (close_fd i) = Some h"
    and "handle os' = (handle (srv_os s))(close_fd i := None)" and "content os' = content (srv_os s)"
    and "srv_os t = os'" and "fd_to_path t = (fd_to_path s)(close_fd i := None)"
    and "path_cache_map t = path_cache_map s"
proof -
  obtain r os' where c: "sys_close ops (srv_os s) (close_fd i) = (r, os')" by (metis surj_pair)
  with assms have r: "r = 0" and t: "srv_os t = os'" "fd_to_path t = (fd_to_path s)(close_fd i := None)"
      "path_cache_map t = path_cache_map s"
    by (auto simp: hvac_close_rpc_handler_def Let_def assert_run_eq_Inr fun_upd_def
        split: if_splits)
  with c bad_fd [of "srv_os s" "close_fd i"] obtain h where h: "handle (srv_os s) (close_fd i) = Some h"
    by (cases "handle (srv_os s) (close_fd i)") auto
  from close_ok [OF h] c have "handle os' = (handle (srv_os s))(close_fd i := None) \<and> content os' = content (srv_os s)"
    by auto
  with that h t show thesis by blast
qed

lemma close_handler_inv:
  assumes inv: "server_inv content handle s" and step: "hvac_close_rpc_handler ops hg i s = Inr t"
  shows "server_inv content handle t \<and> content (srv_os t) = content (srv_os s)"
proof -
  from step obtain h os' where fr: "handle os' = (handle (srv_os s))(close_fd i := None)"
      "content os' = content (srv_os s)" "srv_os t = os'"
      "fd_to_path t = (fd_to_path s)(close_fd i := None)" "path_cache_map t = path_cache_map s"
    by (rule close_handler_split)
  then have "server_inv content handle t"
    by (intro server_inv_frame [OF inv]) (auto split: if_splits)
  with fr show ?thesis by simp
qed

lemma server_step_inv:
  assumes "server_step ops hg nvmepath s t" and "server_inv content handle s"
  shows "server_inv content handle t \<and>
    (\<forall>x. content (srv_os s) x \<noteq> None \<longrightarrow> content (srv_os t) x = content (srv_os s) x)"
  using assms
proof (induction rule: server_step.induct)
  case (on_open i s out t)
  then show ?case by (simp add: open_handler_inv open_handler_frame(1))
next
  case (on_read j s st t)
  then show ?case by (simp add: read_handler_inv)
next
  case (on_seek k s r t)
  then show ?case by (simp add: seek_handler_inv)
next
  case (on_close l s t)
  then show ?case by (simp add: close_handler_inv)
next
  case (on_mover s t)
  then show ?case by (auto simp: mover_step_inv mover_step_content)
qed

lemma server_steps_inv:
  assumes "(server_step ops hg nvmepath)\<^sup>*\<^sup>* s t" and "server_inv content handle s"
  shows "server_inv content handle t \<and>
    (\<forall>x. content (srv_os s) x \<noteq> None \<longrightarrow> content (srv_os t) x = content (srv_os s) x)"
  using assms(1)
proof (induction rule: rtranclp_induct)
  case base
  then show ?case using assms(2) by simp
next
  case (step u v)
  with server_step_inv [OF step.hyps(2)] show ?case by auto
qed

lemma server_init_inv: "handle os = Map.empty \<Longrightarrow> server_inv content handle (server_init os)"
  by (simp add: server_inv_def cache_coherent_def handles_tracked_def server_init_def)

lemma rpc_handler_serves:
  assumes ok: "mercury_ok hg" and h: "handle (srv_os s) (accessfd i) = Some (h, off)"
    and c: "content (srv_os s) h = Some c"
    and n: "0 \<le> input_val i" "input_val i < 2 ^ 31" "input_val i \<le> bulk_size i"
    and pos: "rpc_offset i = -1 \<or> 0 \<le> rpc_offset i"
  defines "from \<equiv> (if rpc_offset i = -1 then off else nat (rpc_offset i))"
  defines "data \<equiv> chunk c from (input_val i)"
  shows "\<exists>st t. hvac_rpc_handler ops hg i s = Inr (st, t) \<and>
    hvac_rpc_handler_bulk_cb hg st = Inr (\<lparr>rpc_ret = int (length data)\<rparr>, data) \<and>
    handle (srv_os t) = (handle (srv_os s))
      (accessfd i \<mapsto> (h, if rpc_offset i = -1 then off + length data else off)) \<and>
    content (srv_os t) = content (srv_os s)"
proof -
  from n have u: "uint64 (input_val i) = input_val i" by (simp add: uint64_id)
  have len: "int (length data) \<le> input_val i" unfolding data_def using n by (intro chunk_le_count) simp
  with n have u2: "uint64 (int (length data)) = int (length data)" by (simp add: uint64_id)
  have i2: "int32 (int (length data)) = int (length data)" using len n by (simp add: int32_id)
  obtain os' where rf: "read_file ops i (input_val i) (srv_os s) = ((int (length data), data), os')"
    and os': "handle os' = (handle (srv_os s))
      (accessfd i \<mapsto> (h, if rpc_offset i = -1 then off + length data else off))" "content os' = content (srv_os s)"
  proof (cases "rpc_offset i = -1")
    case True
    with read_ok [OF h c n(1)] that show thesis by (auto simp: read_file_def data_def from_def)
  next
    case False
    with pos have "0 \<le> rpc_offset i" by simp
    from pread_ok [OF h c n(1) this] that False h show thesis
      by (auto simp: read_file_def data_def from_def fun_upd_idem)
  qed
  show ?thesis
    using ok len n
    by (simp add: hvac_rpc_handler_def u rf u2 mercury_ok_def Let_def hvac_rpc_handler_bulk_cb_def i2 os' HG_SUCCESS_def)
qed

end

lemma failed_read_aborts:
  assumes "bulk_bounded hg" and "read_file ops i (uint64 (input_val i)) (srv_os s) = ((-1, d), os')"
    and "bulk_size i < 2 ^ 64 - 1"
  shows "hvac_rpc_handler ops hg i s = Inl Assertion_Failed"
proof -
  have "uint64 (-1) = 2 ^ 64 - 1" by (simp add: uint64_def take_bit_minus_one_eq_mask mask_eq_exp_minus_1)
  with assms have "hg_bulk_transfer hg (bulk_size i) (uint64 (input_val i)) (uint64 (-1)) \<noteq> 0"
    by (simp add: bulk_bounded_def)
  then show ?thesis using assms(2) by (simp add: hvac_rpc_handler_def Let_def assert_run_def)
qed

lemma close_handler_queues:
  assumes "hvac_close_rpc_handler ops hg i s = Inr t" and "fd_to_path s (close_fd i) = Some p"
    and "path_cache_map s p = None"
  shows "data_queue t = data_queue s @ [p] \<and> local_list t = local_list s \<and> path_cache_map t = path_cache_map s \<and>
    mover t = (if mover s = Mover_Waiting then Mover_Woken else mover s)"
  using assms
  by (auto simp: hvac_close_rpc_handler_def Let_def assert_run_eq_Inr queue_push_def data_cond_signal_def
      split: prod.splits)

section \<open>Properties\<close>

text \<open>
  C7: in every state a started server can reach, whatever requests arrive and however the mover
  interleaves with them, each entry of the cache map leads to a copy with the bytes of the original
  and each open descriptor reads the bytes of the path the client asked for; no file that existed
  when the server started has changed.
\<close>

theorem server_runs_coherent:
  assumes "posix_files ops content handle" and "handle os = Map.empty"
    and "(server_step ops hg nvmepath)\<^sup>*\<^sup>* (server_init os) t"
  shows "server_inv content handle t \<and> (\<forall>x d. content os x = Some d \<longrightarrow> content (srv_os t) x = Some d)"
  using posix_files.server_steps_inv [OF assms(1,3) posix_files.server_init_inv [OF assms(1,2)]]
  by (simp add: server_init_def)

text \<open>
  C9: a successful open answers with a descriptor that stands at the start of a file with exactly
  the bytes of the requested path, whether the server opened the path itself or its cached copy, and
  records the requested path under that descriptor.
\<close>

theorem open_serves_requested_file:
  assumes "posix_files ops content handle" and "server_inv content handle s"
    and "hvac_open_rpc_handler ops hg i s = Inr (out, t)" and "open_ret_status out \<noteq> -1"
  shows "\<exists>h d. handle (srv_os t) (open_ret_status out) = Some (h, 0) \<and> h = redirect_path s (open_path i) \<and>
    content (srv_os t) h = Some d \<and> content (srv_os s) (open_path i) = Some d \<and>
    fd_to_path t (open_ret_status out) = Some (open_path i) \<and> server_inv content handle t"
proof -
  note fr = posix_files.open_handler_frame [OF assms(1,3)]
  from assms(2) have "cache_coherent content s" by (simp add: server_inv_def)
  from posix_files.redirect_content [OF assms(1) this] fr(2) [OF assms(4)] obtain d where
    "content (srv_os s) (open_path i) = Some d" "content (srv_os s) (redirect_path s (open_path i)) = Some d"
    by blast
  with fr assms(4) posix_files.open_handler_inv [OF assms(1-3)] show ?thesis by simp
qed

text \<open>
  A read request on an open descriptor is answered with the number of bytes read and exactly
  these bytes: the next ones of the file when the request carries the offset -1, which then advances
  the descriptor, and otherwise the ones at the given offset, which leaves the descriptor where it
  is. The files do not change.
\<close>

theorem read_request_served:
  assumes "posix_files ops content handle" and "mercury_ok hg"
    and "handle (srv_os s) (accessfd i) = Some (h, off)" and "content (srv_os s) h = Some d"
    and "0 \<le> input_val i" and "input_val i < 2 ^ 31" and "input_val i \<le> bulk_size i"
    and "rpc_offset i = -1 \<or> 0 \<le> rpc_offset i"
    and "from = (if rpc_offset i = -1 then off else nat (rpc_offset i))"
    and "data = take (nat (min (input_val i) MAX_RW_COUNT)) (drop from d)"
  shows "\<exists>st t. hvac_rpc_handler ops hg i s = Inr (st, t) \<and>
    hvac_rpc_handler_bulk_cb hg st = Inr (\<lparr>rpc_ret = int (length data)\<rparr>, data) \<and>
    handle (srv_os t) = (handle (srv_os s))
      (accessfd i \<mapsto> (h, if rpc_offset i = -1 then off + length data else off)) \<and>
    content (srv_os t) = content (srv_os s)"
  using posix_files.rpc_handler_serves [OF assms(1-8)] unfolding assms(9,10) chunk_def .

text \<open>
  C10: closing the last use of an uncached file while the mover waits wakes it by the signal: the
  handler itself leaves the mover woken, with the path in the queue. When the mover can
  make its directory and the copy, a number of its own steps leads to exactly one state, in which
  the mover is back at its lock, the queue is empty and an open of the path
  is redirected to the copy, and the copy has the bytes the path had at the close.
\<close>

theorem close_then_cached:
  assumes "posix_files ops content handle" and "server_inv content handle s"
    and "mover s = Mover_Waiting" and "data_queue s = []" and "local_list s = []"
    and "fd_to_path s (close_fd i) = Some p" and "path_cache_map s p = None"
    and "hvac_close_rpc_handler ops hg i s = Inr t"
    and "sys_mkdtemp ops (srv_os t) nvmepath = (Some dir, os1)"
    and "sys_copy ops os1 p (dir @ ''/'' @ path_filename p) = (True, os2)"
  shows "mover t = Mover_Woken \<and> data_queue t = [p] \<and>
    (\<exists>n u. (\<forall>v. (mover_step ops nvmepath ^^ n) t v \<longleftrightarrow> v = u) \<and> mover u = Mover_Locking \<and> data_queue u = [] \<and>
       redirect_path u p = dir @ ''/'' @ path_filename p \<and> content (srv_os s) p \<noteq> None \<and>
       content (srv_os u) (redirect_path u p) = content (srv_os s) p \<and> server_inv content handle u)"
proof -
  let ?u = "mover_round ops nvmepath t"
  from close_handler_queues [OF assms(8,6,7)] assms(3-5)
  have t: "mover t = Mover_Woken" "data_queue t = [p]" "local_list t = []" by auto
  have steps: "(mover_step ops nvmepath)\<^sup>*\<^sup>* t ?u" by (rule round_steps [OF t(1)])
  have c: "content (srv_os t) = content (srv_os s)" and inv: "server_inv content handle t"
    using posix_files.close_handler_inv [OF assms(1,2,8)] by simp_all
  have "content os1 = content (srv_os t)" using posix_files.mkdtemp_frame [OF assms(1,9)] by simp
  with posix_files.copy_ok [OF assms(1,10)] have cp: "content (srv_os t) p \<noteq> None"
    "content os2 = (content (srv_os t))(dir @ ''/'' @ path_filename p := content (srv_os t) p)" by simp_all
  have u: "?u = t\<lparr>srv_os := os2, path_cache_map := (path_cache_map t)(p \<mapsto> dir @ ''/'' @ path_filename p),
      data_queue := [], local_list := [], mover := Mover_Locking\<rparr>"
    using assms(10) by (simp add: mover_round_def mover_drain_eq t mover_copy_one_def assms(9) Let_def)
  have "server_inv content handle ?u"
    using steps inv by (induction rule: rtranclp_induct) (auto dest: posix_files.mover_step_inv [OF assms(1)])
  moreover from mover_steps_number [OF steps] obtain n where "\<forall>v. (mover_step ops nvmepath ^^ n) t v \<longleftrightarrow> v = ?u" ..
  ultimately show ?thesis using cp c t by (intro conjI exI [of _ n] exI [of _ ?u]) (simp_all add: u redirect_path_def)
qed

text \<open>
  C29: a close that signals while the mover copies, or is on its way to its wait, is not
  remembered. The signal leaves the mover where it is, and the mover's own steps lead, in one way only, to
  a state in which it waits with the path in the queue: only a later close of an uncached
  file or a spurious wake-up lets it go on.
\<close>

theorem close_signal_lost:
  assumes "mover s = Mover_Locking \<or> mover s = Mover_Copying" and "fd_to_path s (close_fd i) = Some p"
    and "path_cache_map s p = None" and "hvac_close_rpc_handler ops hg i s = Inr t"
  shows "mover t = mover s \<and>
    (\<exists>n u. (\<forall>v. (mover_step ops nvmepath ^^ n) t v \<longleftrightarrow> v = u) \<and> mover u = Mover_Waiting \<and>
       data_queue u = data_queue s @ [p])"
proof -
  from close_handler_queues [OF assms(4,2,3)] assms(1) have t: "mover t = mover s" "data_queue t = data_queue s @ [p]" by auto
  have "\<exists>u. (mover_step ops nvmepath)\<^sup>*\<^sup>* t u \<and> mover u = Mover_Locking \<and> data_queue u = data_queue t"
    using assms(1)
  proof
    assume "mover s = Mover_Copying"
    with copy_loop_steps [of t "local_list t" ops nvmepath] t(1) show ?thesis
      by (intro exI [of _ "mover_copy_all ops nvmepath (local_list t) t\<lparr>local_list := [], mover := Mover_Locking\<rparr>"]) simp
  qed (use t(1) in auto)
  then obtain u where u: "(mover_step ops nvmepath)\<^sup>*\<^sup>* t u" "mover u = Mover_Locking" "data_queue u = data_queue t" by blast
  from u(1) mover_step.wait [OF u(2), of ops nvmepath] have "(mover_step ops nvmepath)\<^sup>*\<^sup>* t (mover_wait u)"
    by (rule rtranclp.rtrancl_into_rtrancl)
  from mover_steps_number [OF this] obtain n where "\<forall>v. (mover_step ops nvmepath ^^ n) t v \<longleftrightarrow> v = mover_wait u" ..
  with t u(3) show ?thesis by (intro conjI exI [of _ n] exI [of _ "mover_wait u"]) (simp_all add: mover_wait_def)
qed

text \<open>
  A read request that names a descriptor the server does not have open, or a negative offset
  other than -1, aborts the server: the failed read leaves the size \<open>2^64 - 1\<close>, Mercury refuses
  to transfer that much, and the assertion on its result fails.
\<close>

theorem invalid_read_aborts_server:
  assumes "posix_files ops content handle" and "bulk_bounded hg" and "bulk_size i < 2 ^ 64 - 1"
    and "handle (srv_os s) (accessfd i) = None \<or> rpc_offset i < -1"
  shows "hvac_rpc_handler ops hg i s = Inl Assertion_Failed"
proof -
  have "read_file ops i (uint64 (input_val i)) (srv_os s) = ((-1, []), srv_os s)"
    using assms(4) posix_files.bad_fd [OF assms(1)] posix_files.pread_negative [OF assms(1)]
    by (auto simp: read_file_def)
  with assms(2,3) show ?thesis by (intro failed_read_aborts)
qed

section \<open>Sample server\<close>

text \<open>Mercury without failures, refusing what does not fit; calloc fails beyond \<open>2^62\<close> bytes.\<close>

definition sample_mercury :: mercury where
  "sample_mercury = \<lparr>hg_get_input = 0, calloc_ok = (\<lambda>n. n < 2 ^ 62), hg_get_info = True, hg_bulk_create = (\<lambda>n. 0),
     hg_bulk_transfer = (\<lambda>a b n. if n \<le> a \<and> n \<le> b then 0 else 1), hg_bulk_info_ret = 0, hg_respond = 0,
     hg_gone = (\<lambda>a. Refused_Request 0), hg_aborts = (\<lambda>a. Silence)\<rparr>"

definition opened_server :: "mover_pc \<Rightarrow> linux server" where
  "opened_server m = \<lparr>fd_to_path = [3 \<mapsto> ''/data/a''], path_cache_map = Map.empty, data_queue = [], local_list = [],
     mover = m, srv_os = sample_os\<lparr>fdt := [3 \<mapsto> (''/data/a'', 0)]\<rparr>\<rparr>"

lemma sample_mercury_ok: "mercury_ok sample_mercury" "bulk_bounded sample_mercury"
  by (auto simp: mercury_ok_def bulk_bounded_def sample_mercury_def)

lemma sample_free_fd: "free_fd sample_os = Some 3"
  by (simp add: free_fd_def sample_os_def upt_rec)

lemma opened_server_inv: "server_inv files fdt (opened_server m)"
  by (auto simp: server_inv_def cache_coherent_def handles_tracked_def opened_server_def sample_os_def
      split: if_splits)

lemma sample_open:
  "hvac_open_rpc_handler linux_ops sample_mercury \<lparr>open_path = ''/data/a''\<rparr> (server_init sample_os) =
     Inr (\<lparr>open_ret_status = 3\<rparr>, opened_server Mover_Locking)"
  by (simp add: hvac_open_rpc_handler_def sample_mercury_def redirect_path_def server_init_def linux_ops_def
      linux_open_def sample_free_fd) (simp add: sample_os_def O_RDONLY_def opened_server_def)

lemma sample_close:
  "\<exists>t. hvac_close_rpc_handler linux_ops sample_mercury \<lparr>close_fd = 3\<rparr> (opened_server m) = Inr t \<and>
     srv_os t = sample_os"
  by (simp add: hvac_close_rpc_handler_def sample_mercury_def HG_SUCCESS_def opened_server_def linux_ops_def
      linux_close_def sample_os_def data_cond_signal_def Let_def)

theorem server_runs_coherent_witness:
  "(server_step linux_ops sample_mercury ''/bb/XXXXXX'')\<^sup>*\<^sup>* (server_init sample_os) (opened_server Mover_Locking) \<and>
   server_inv files fdt (opened_server Mover_Locking) \<and>
   files (srv_os (opened_server Mover_Locking)) ''/data/a'' = Some [10, 20, 30, 40, 50]"
proof -
  have steps: "(server_step linux_ops sample_mercury ''/bb/XXXXXX'')\<^sup>*\<^sup>* (server_init sample_os) (opened_server Mover_Locking)"
    using server_step.on_open [OF sample_open] by (rule r_into_rtranclp)
  have "fdt sample_os = Map.empty" "files sample_os ''/data/a'' = Some [10, 20, 30, 40, 50]"
    by (simp_all add: sample_os_def)
  with server_runs_coherent [OF lx.posix_files_axioms _ steps] steps show ?thesis by blast
qed

theorem open_serves_requested_file_witness:
  "\<exists>h d. fdt (srv_os (opened_server Mover_Locking)) 3 = Some (h, 0) \<and>
     files (srv_os (opened_server Mover_Locking)) h = Some d \<and> files sample_os ''/data/a'' = Some d"
  using open_serves_requested_file [OF lx.posix_files_axioms lx.server_init_inv sample_open]
  by (simp add: server_init_def sample_os_def)

theorem read_request_served_witness:
  "\<exists>st t. hvac_rpc_handler linux_ops sample_mercury
       \<lparr>input_val = 2, bulk_size = 2, accessfd = 3, rpc_offset = 1\<rparr> (opened_server Mover_Waiting) = Inr (st, t) \<and>
     hvac_rpc_handler_bulk_cb sample_mercury st = Inr (\<lparr>rpc_ret = 2\<rparr>, [20, 30]) \<and>
     fdt (srv_os t) = fdt (srv_os (opened_server Mover_Waiting))"
  using read_request_served [OF lx.posix_files_axioms sample_mercury_ok(1),
      of "opened_server Mover_Waiting" "\<lparr>input_val = 2, bulk_size = 2, accessfd = 3, rpc_offset = 1\<rparr>"
        "''/data/a''" 0 "[10, 20, 30, 40, 50]" 1 "[20, 30]"]
  by (simp add: opened_server_def sample_os_def MAX_RW_COUNT_def fun_upd_idem numeral_2_eq_2) blast

theorem close_then_cached_witness:
  "\<exists>t u. hvac_close_rpc_handler linux_ops sample_mercury \<lparr>close_fd = 3\<rparr> (opened_server Mover_Waiting) = Inr t \<and>
     mover t = Mover_Woken \<and> (\<exists>n. (mover_step linux_ops ''/bb/XXXXXX'' ^^ n) t u) \<and> redirect_path u ''/data/a'' = ''/bb/aaaaaa/a'' \<and>
     files (srv_os u) ''/bb/aaaaaa/a'' = Some [10, 20, 30, 40, 50]"
proof -
  from sample_close obtain t where
    c: "hvac_close_rpc_handler linux_ops sample_mercury \<lparr>close_fd = 3\<rparr> (opened_server Mover_Waiting) = Inr t"
    and t: "srv_os t = sample_os" by blast
  let ?os1 = "sample_os\<lparr>suffixes := [''bbbbbb''], dirs := ''/bb/aaaaaa'' # dirs sample_os\<rparr>"
  let ?os2 = "?os1\<lparr>files := (files sample_os)(''/bb/aaaaaa/a'' \<mapsto> [10, 20, 30, 40, 50]), free_bytes := 95\<rparr>"
  have m: "sys_mkdtemp linux_ops (srv_os t) ''/bb/XXXXXX'' = (Some ''/bb/aaaaaa'', ?os1)"
    by (simp add: t linux_ops_def linux_mkdtemp_def sample_os_def path_parent_def)
  have y: "sys_copy linux_ops ?os1 ''/data/a'' (''/bb/aaaaaa'' @ ''/'' @ path_filename ''/data/a'') = (True, ?os2)"
    by (simp add: linux_ops_def linux_copy_def sample_os_def path_parent_def path_filename_def)
  have "path_filename ''/data/a'' = ''a''" by (simp add: path_filename_def)
  with close_then_cached [OF lx.posix_files_axioms opened_server_inv _ _ _ _ _ c m y] obtain n u where
    w: "mover t = Mover_Woken" and n: "\<forall>v. (mover_step linux_ops ''/bb/XXXXXX'' ^^ n) t v \<longleftrightarrow> v = u"
    and u: "redirect_path u ''/data/a'' = ''/bb/aaaaaa/a''" "files (srv_os u) ''/bb/aaaaaa/a'' = Some [10, 20, 30, 40, 50]"
    by (auto simp: opened_server_def) (auto simp: sample_os_def)
  from n have "(mover_step linux_ops ''/bb/XXXXXX'' ^^ n) t u" by blast
  with c w u show ?thesis by blast
qed

theorem close_signal_lost_witness:
  "\<exists>t n u. hvac_close_rpc_handler linux_ops sample_mercury \<lparr>close_fd = 3\<rparr> (opened_server Mover_Copying) = Inr t \<and>
     (mover_step linux_ops ''/bb/XXXXXX'' ^^ n) t u \<and> mover u = Mover_Waiting \<and> data_queue u = [''/data/a'']"
proof -
  from sample_close obtain t where
    c: "hvac_close_rpc_handler linux_ops sample_mercury \<lparr>close_fd = 3\<rparr> (opened_server Mover_Copying) = Inr t" by blast
  with close_signal_lost [OF _ _ _ c, of "''/data/a''" "''/bb/XXXXXX''"] show ?thesis by (auto simp: opened_server_def)
qed

theorem invalid_read_aborts_server_witness:
  "hvac_rpc_handler linux_ops sample_mercury
     \<lparr>input_val = 4, bulk_size = 4, accessfd = 3, rpc_offset = -2\<rparr> (opened_server Mover_Waiting) = Inl Assertion_Failed"
  by (rule invalid_read_aborts_server [OF lx.posix_files_axioms sample_mercury_ok(2)]) simp_all

end
