(* ===== verification/HVAC_Fd_State.thy ===== *)
theory HVAC_Fd_State
  imports HVAC_Prelude
begin

text \<open>
  The descriptor state table of the client (\<open>mthvac_comm_client.cpp\<close>, lines 39 to 170). A status
  object is shared by the table and by the threads that wait on it (\<open>std::shared_ptr\<close>), so the
  objects live in a store of their own: replacing or erasing an entry of the table leaves the object
  a waiting thread holds alone. The reader-writer locks are modelled at the end, as a step relation
  over the threads that call the three functions which lock the table.
\<close>

section \<open>State\<close>

datatype hvac_fd_state = HVAC_FD_OPENING | HVAC_FD_READY | HVAC_FD_ERROR

record fd_table =
  fd_state_map :: "int \<rightharpoonup> nat"
  statuses :: "nat \<rightharpoonup> hvac_fd_state"
  next_status :: nat

definition empty_fd_table :: fd_table where
  "empty_fd_table = \<lparr>fd_state_map = Map.empty, statuses = Map.empty, next_status = 0\<rparr>"

section \<open>Operations\<close>

definition hvac_get_fd_status :: "fd_table \<Rightarrow> int \<Rightarrow> nat option" where
  "hvac_get_fd_status t fd = fd_state_map t fd"

definition hvac_set_fd_opening :: "int \<Rightarrow> fd_table \<Rightarrow> fd_table" where
  "hvac_set_fd_opening fd t =
     t\<lparr>statuses := (statuses t)(next_status t \<mapsto> HVAC_FD_OPENING),
       fd_state_map := (fd_state_map t)(fd \<mapsto> next_status t),
       next_status := Suc (next_status t)\<rparr>"

definition hvac_set_fd_ready :: "int \<Rightarrow> fd_table \<Rightarrow> fd_table" where
  "hvac_set_fd_ready fd t =
     (case hvac_get_fd_status t fd of
        None \<Rightarrow> t
      | Some a \<Rightarrow> t\<lparr>statuses := (statuses t)(a \<mapsto> HVAC_FD_READY)\<rparr>)"

definition hvac_set_fd_error :: "int \<Rightarrow> fd_table \<Rightarrow> fd_table" where
  "hvac_set_fd_error fd t =
     (case hvac_get_fd_status t fd of
        None \<Rightarrow> t
      | Some a \<Rightarrow> t\<lparr>statuses := (statuses t)(a \<mapsto> HVAC_FD_ERROR)\<rparr>)"

definition hvac_cleanup_fd_state :: "int \<Rightarrow> fd_table \<Rightarrow> fd_table" where
  "hvac_cleanup_fd_state fd t = t\<lparr>fd_state_map := (fd_state_map t)(fd := None)\<rparr>"

text \<open>
  The absolute deadline of the wait. \<open>tv_nsec\<close> and the two quotients are far from the limits of
  their types.
\<close>

record timespec =
  tv_sec :: int
  tv_nsec :: int

definition wait_deadline :: "timespec \<Rightarrow> int \<Rightarrow> timespec" where
  "wait_deadline now timeout_ms =
     (let sec = tv_sec now + timeout_ms div 1000;
          nsec = tv_nsec now + (timeout_ms mod 1000) * 1000000
      in if nsec \<ge> 1000000000 then \<lparr>tv_sec = sec + 1, tv_nsec = nsec - 1000000000\<rparr>
         else \<lparr>tv_sec = sec, tv_nsec = nsec\<rparr>)"

text \<open>
  The wait loop. A wake-up is the return code of \<open>pthread_cond_timedwait\<close> with the state other
  threads have stored in the object by then; the loop re-tests the state after every wake-up that
  is not a timeout. No further wake-up while the state is still OPENING is a wait without end.
\<close>

type_synonym wakeup = "int \<times> hvac_fd_state"

definition ETIMEDOUT :: int where "ETIMEDOUT = 110"

fun wait_loop :: "hvac_fd_state \<Rightarrow> wakeup list \<Rightarrow> (bool \<times> hvac_fd_state) run" where
  "wait_loop st [] =
     (if st = HVAC_FD_OPENING then Inl Blocked_Forever else Inr (st = HVAC_FD_READY, st))"
| "wait_loop st ((ret, st') # wk) =
     (if st = HVAC_FD_OPENING
      then if ret = ETIMEDOUT then Inr (False, st') else wait_loop st' wk
      else Inr (st = HVAC_FD_READY, st))"

definition hvac_wait_fd_ready :: "int \<Rightarrow> wakeup list \<Rightarrow> fd_table \<Rightarrow> (bool \<times> fd_table) run" where
  "hvac_wait_fd_ready fd wk t =
     (case hvac_get_fd_status t fd of
        None \<Rightarrow> Inr (False, t)
      | Some a \<Rightarrow>
          (case statuses t a of
             None \<Rightarrow> Inl Null_Dereference
           | Some st \<Rightarrow>
               bind_run (wait_loop st wk)
                 (\<lambda>(ready, st'). Inr (ready, t\<lparr>statuses := (statuses t)(a \<mapsto> st')\<rparr>))))"

section \<open>The contract of the table\<close>

definition fd_status_of :: "fd_table \<Rightarrow> int \<Rightarrow> hvac_fd_state option" where
  "fd_status_of t fd = Option.bind (fd_state_map t fd) (statuses t)"

definition fd_table_wf :: "fd_table \<Rightarrow> bool" where
  "fd_table_wf t \<longleftrightarrow>
     (\<forall>fd a. fd_state_map t fd = Some a \<longrightarrow> a < next_status t \<and> statuses t a \<noteq> None) \<and>
     inj_on (fd_state_map t) (dom (fd_state_map t))"

text \<open>The four changes of the table, over any implementation, and over a plain map.\<close>

datatype fd_event = Set_Opening int | Set_Ready int | Set_Error int | Cleanup int

fun table_event ::
    "(int \<Rightarrow> 't \<Rightarrow> 't) \<Rightarrow> (int \<Rightarrow> 't \<Rightarrow> 't) \<Rightarrow> (int \<Rightarrow> 't \<Rightarrow> 't) \<Rightarrow> (int \<Rightarrow> 't \<Rightarrow> 't) \<Rightarrow> fd_event \<Rightarrow> 't \<Rightarrow> 't" where
  "table_event opening ready error cleanup (Set_Opening fd) = opening fd"
| "table_event opening ready error cleanup (Set_Ready fd) = ready fd"
| "table_event opening ready error cleanup (Set_Error fd) = error fd"
| "table_event opening ready error cleanup (Cleanup fd) = cleanup fd"

fun spec_event :: "fd_event \<Rightarrow> (int \<rightharpoonup> hvac_fd_state) \<Rightarrow> (int \<rightharpoonup> hvac_fd_state)" where
  "spec_event (Set_Opening fd) m = m(fd \<mapsto> HVAC_FD_OPENING)"
| "spec_event (Set_Ready fd) m = (if m fd = None then m else m(fd \<mapsto> HVAC_FD_READY))"
| "spec_event (Set_Error fd) m = (if m fd = None then m else m(fd \<mapsto> HVAC_FD_ERROR))"
| "spec_event (Cleanup fd) m = m(fd := None)"

abbreviation fd_table_event :: "fd_event \<Rightarrow> fd_table \<Rightarrow> fd_table" where
  "fd_table_event \<equiv> table_event hvac_set_fd_opening hvac_set_fd_ready hvac_set_fd_error hvac_cleanup_fd_state"

locale fd_status_table =
  fixes status :: "'t \<Rightarrow> int \<Rightarrow> hvac_fd_state option"
    and set_opening set_ready set_error cleanup :: "int \<Rightarrow> 't \<Rightarrow> 't"
    and invar :: "'t \<Rightarrow> bool"
  assumes status_opening: "invar t \<Longrightarrow> status (set_opening fd t) = (status t)(fd \<mapsto> HVAC_FD_OPENING)"
    and status_ready: "invar t \<Longrightarrow>
      status (set_ready fd t) = (if status t fd = None then status t else (status t)(fd \<mapsto> HVAC_FD_READY))"
    and status_error: "invar t \<Longrightarrow>
      status (set_error fd t) = (if status t fd = None then status t else (status t)(fd \<mapsto> HVAC_FD_ERROR))"
    and status_cleanup: "invar t \<Longrightarrow> status (cleanup fd t) = (status t)(fd := None)"
    and invar_opening: "invar t \<Longrightarrow> invar (set_opening fd t)"
    and invar_ready: "invar t \<Longrightarrow> invar (set_ready fd t)"
    and invar_error: "invar t \<Longrightarrow> invar (set_error fd t)"
    and invar_cleanup: "invar t \<Longrightarrow> invar (cleanup fd t)"
begin

lemmas status_specs = status_opening status_ready status_error status_cleanup
  invar_opening invar_ready invar_error invar_cleanup

lemma event_refines:
  "invar t \<Longrightarrow> invar (table_event set_opening set_ready set_error cleanup e t) \<and>
     status (table_event set_opening set_ready set_error cleanup e t) = spec_event e (status t)"
  by (cases e) (simp_all add: status_specs)

lemma events_refine:
  "invar t \<Longrightarrow> invar (fold (table_event set_opening set_ready set_error cleanup) es t) \<and>
     status (fold (table_event set_opening set_ready set_error cleanup) es t) = fold spec_event es (status t)"
  by (induction es arbitrary: t) (simp_all add: event_refines)

lemma open_succeeds: "invar t \<Longrightarrow> status (set_ready fd (set_opening fd t)) = (status t)(fd \<mapsto> HVAC_FD_READY)"
  by (simp add: status_specs)

lemma open_fails: "invar t \<Longrightarrow> status (set_error fd (set_opening fd t)) = (status t)(fd \<mapsto> HVAC_FD_ERROR)"
  by (simp add: status_specs)

text \<open>A reply that arrives after the descriptor was closed revives nothing.\<close>

lemma late_reply: "invar t \<Longrightarrow> status (set_ready fd (cleanup fd t)) = status (cleanup fd t)"
  by (simp add: status_specs)

lemma session: "invar t \<Longrightarrow> status (cleanup fd (set_ready fd (set_opening fd t))) = (status t)(fd := None)"
  by (simp add: status_specs)

end

lemma fd_table_wfD:
  "fd_table_wf t \<Longrightarrow> fd_state_map t fd = Some a \<Longrightarrow> a < next_status t \<and> (\<exists>st. statuses t a = Some st)"
  by (fastforce simp: fd_table_wf_def)

lemma fd_table_wf_inj:
  "fd_table_wf t \<Longrightarrow> fd_state_map t fd = Some a \<Longrightarrow> fd_state_map t fd' = Some a \<Longrightarrow> fd' = fd"
  unfolding fd_table_wf_def by (metis domI inj_onD)

lemma fd_table_wfI:
  assumes "\<And>fd a. fd_state_map t fd = Some a \<Longrightarrow> a < next_status t \<and> statuses t a \<noteq> None"
    and "\<And>fd fd' a. fd_state_map t fd = Some a \<Longrightarrow> fd_state_map t fd' = Some a \<Longrightarrow> fd = fd'"
  shows "fd_table_wf t"
  using assms by (auto simp: fd_table_wf_def intro!: inj_onI)

lemma fd_status_of_store:
  assumes "fd_table_wf t" and "fd_state_map t fd = Some a"
  shows "fd_status_of (t\<lparr>statuses := (statuses t)(a \<mapsto> st)\<rparr>) = (fd_status_of t)(fd \<mapsto> st)"
proof
  fix x
  show "fd_status_of (t\<lparr>statuses := (statuses t)(a \<mapsto> st)\<rparr>) x = ((fd_status_of t)(fd \<mapsto> st)) x"
    using assms(2) fd_table_wf_inj [OF assms, of x]
    by (cases "fd_state_map t x") (auto simp: fd_status_of_def)
qed

lemma fd_table_wf_store:
  assumes "fd_table_wf t" and "fd_state_map t fd = Some a"
  shows "fd_table_wf (t\<lparr>statuses := (statuses t)(a \<mapsto> st)\<rparr>)"
proof (rule fd_table_wfI)
  show "b < next_status (t\<lparr>statuses := (statuses t)(a \<mapsto> st)\<rparr>) \<and>
      statuses (t\<lparr>statuses := (statuses t)(a \<mapsto> st)\<rparr>) b \<noteq> None"
    if "fd_state_map (t\<lparr>statuses := (statuses t)(a \<mapsto> st)\<rparr>) x = Some b" for x b
    using fd_table_wfD [OF assms(1), of x b] that by auto
  show "x = y" if "fd_state_map (t\<lparr>statuses := (statuses t)(a \<mapsto> st)\<rparr>) x = Some b"
      "fd_state_map (t\<lparr>statuses := (statuses t)(a \<mapsto> st)\<rparr>) y = Some b" for x y b
    using fd_table_wf_inj [OF assms(1), of y b x] that by simp
qed

lemma fd_table_wf_opening:
  assumes "fd_table_wf t"
  shows "fd_table_wf (hvac_set_fd_opening fd t)"
proof (rule fd_table_wfI)
  show "b < next_status (hvac_set_fd_opening fd t) \<and> statuses (hvac_set_fd_opening fd t) b \<noteq> None"
    if "fd_state_map (hvac_set_fd_opening fd t) x = Some b" for x b
    using fd_table_wfD [OF assms, of x b] that by (auto simp: hvac_set_fd_opening_def split: if_splits)
  show "x = y" if "fd_state_map (hvac_set_fd_opening fd t) x = Some b"
      "fd_state_map (hvac_set_fd_opening fd t) y = Some b" for x y b
    using fd_table_wf_inj [OF assms, of y b x] fd_table_wfD [OF assms, of x b] fd_table_wfD [OF assms, of y b] that
    by (auto simp: hvac_set_fd_opening_def split: if_splits)
qed

lemma fd_table_wf_cleanup:
  assumes "fd_table_wf t"
  shows "fd_table_wf (hvac_cleanup_fd_state fd t)"
proof (rule fd_table_wfI)
  show "b < next_status (hvac_cleanup_fd_state fd t) \<and> statuses (hvac_cleanup_fd_state fd t) b \<noteq> None"
    if "fd_state_map (hvac_cleanup_fd_state fd t) x = Some b" for x b
    using fd_table_wfD [OF assms, of x b] that by (auto simp: hvac_cleanup_fd_state_def split: if_splits)
  show "x = y" if "fd_state_map (hvac_cleanup_fd_state fd t) x = Some b"
      "fd_state_map (hvac_cleanup_fd_state fd t) y = Some b" for x y b
    using fd_table_wf_inj [OF assms, of y b x] that by (auto simp: hvac_cleanup_fd_state_def split: if_splits)
qed

lemma fd_status_of_opening:
  assumes "fd_table_wf t"
  shows "fd_status_of (hvac_set_fd_opening fd t) = (fd_status_of t)(fd \<mapsto> HVAC_FD_OPENING)"
proof
  fix x
  show "fd_status_of (hvac_set_fd_opening fd t) x = ((fd_status_of t)(fd \<mapsto> HVAC_FD_OPENING)) x"
    using fd_table_wfD [OF assms, of x]
    by (cases "fd_state_map t x") (auto simp: fd_status_of_def hvac_set_fd_opening_def)
qed

lemma fd_status_of_None: "fd_table_wf t \<Longrightarrow> fd_status_of t fd = None \<longleftrightarrow> fd_state_map t fd = None"
  by (auto simp: fd_status_of_def dest: fd_table_wfD split: bind_splits)

interpretation ft: fd_status_table fd_status_of hvac_set_fd_opening hvac_set_fd_ready hvac_set_fd_error
  hvac_cleanup_fd_state fd_table_wf
proof (unfold_locales, goal_cases)
  case (1 t fd)
  then show ?case by (rule fd_status_of_opening)
next
  case (2 t fd)
  then show ?case
    by (auto simp: hvac_set_fd_ready_def hvac_get_fd_status_def fd_status_of_None fd_status_of_store split: option.splits)
next
  case (3 t fd)
  then show ?case
    by (auto simp: hvac_set_fd_error_def hvac_get_fd_status_def fd_status_of_None fd_status_of_store split: option.splits)
next
  case (4 t fd)
  show ?case by (auto simp: hvac_cleanup_fd_state_def fd_status_of_def)
next
  case (5 t fd)
  then show ?case by (rule fd_table_wf_opening)
next
  case (6 t fd)
  then show ?case
    by (auto simp: hvac_set_fd_ready_def hvac_get_fd_status_def fd_table_wf_store split: option.splits)
next
  case (7 t fd)
  then show ?case
    by (auto simp: hvac_set_fd_error_def hvac_get_fd_status_def fd_table_wf_store split: option.splits)
next
  case (8 t fd)
  then show ?case by (rule fd_table_wf_cleanup)
qed

lemma fd_table_wf_empty: "fd_table_wf empty_fd_table"
  by (simp add: fd_table_wf_def empty_fd_table_def)

lemma fd_status_of_status:
  "fd_table_wf t \<Longrightarrow> fd_status_of t fd = Some st \<Longrightarrow> \<exists>a. fd_state_map t fd = Some a \<and> statuses t a = Some st"
  by (auto simp: fd_status_of_def split: bind_splits)

lemma wait_loop_settled: "st \<noteq> HVAC_FD_OPENING \<Longrightarrow> wait_loop st wk = Inr (st = HVAC_FD_READY, st)"
  by (cases wk) auto

lemma wait_loop_ready: "wait_loop st wk = Inr (True, st') \<Longrightarrow> st' = HVAC_FD_READY"
  by (induction st wk rule: wait_loop.induct) (auto split: if_splits)

text \<open>A wait whose wake-ups contain a timeout ends.\<close>

lemma wait_loop_ends: "\<exists>st'. (ETIMEDOUT, st') \<in> set wk \<Longrightarrow> \<exists>r. wait_loop st wk = Inr r"
  by (induction st wk rule: wait_loop.induct) auto

lemma hvac_wait_settled:
  assumes "fd_table_wf t" and "fd_status_of t fd = Some st" and "st \<noteq> HVAC_FD_OPENING"
  shows "hvac_wait_fd_ready fd wk t = Inr (st = HVAC_FD_READY, t)"
proof -
  from fd_status_of_status [OF assms(1,2)] obtain a where
    a: "fd_state_map t fd = Some a" "statuses t a = Some st" by auto
  then have "(statuses t)(a \<mapsto> st) = statuses t" by (simp add: fun_upd_idem)
  with a assms(3) show ?thesis
    by (simp add: hvac_wait_fd_ready_def hvac_get_fd_status_def wait_loop_settled)
qed

lemma hvac_wait_unknown:
  "fd_table_wf t \<Longrightarrow> fd_status_of t fd = None \<Longrightarrow> hvac_wait_fd_ready fd wk t = Inr (False, t)"
  by (simp add: hvac_wait_fd_ready_def hvac_get_fd_status_def fd_status_of_None)

section \<open>The sharded locks\<close>

text \<open>\<open>fd % FD_STATE_SHARDS\<close> with the sign of C.\<close>

definition FD_STATE_SHARDS :: int where "FD_STATE_SHARDS = 64"

definition get_fd_rwlock :: "int \<Rightarrow> int" where
  "get_fd_rwlock fd = sgn fd * (\<bar>fd\<bar> mod FD_STATE_SHARDS)"

lemma shard_in_range: "0 \<le> fd \<Longrightarrow> 0 \<le> get_fd_rwlock fd \<and> get_fd_rwlock fd < FD_STATE_SHARDS"
  by (cases "fd = 0") (simp_all add: get_fd_rwlock_def FD_STATE_SHARDS_def)

lemma get_fd_rwlock_nonneg: "0 \<le> fd \<Longrightarrow> get_fd_rwlock fd = fd mod 64"
  by (cases "fd = 0") (simp_all add: get_fd_rwlock_def FD_STATE_SHARDS_def)

text \<open>
  The three functions that access \<open>fd_state_map\<close>, with the lock operation each begins with, and
  what the section between this operation and the unlock does to the table.
\<close>

datatype lock_mode = Rdlock | Wrlock

datatype table_call = Get_Status_Call int | Set_Opening_Call int | Cleanup_Call int

fun call_fd :: "table_call \<Rightarrow> int" where
  "call_fd (Get_Status_Call fd) = fd"
| "call_fd (Set_Opening_Call fd) = fd"
| "call_fd (Cleanup_Call fd) = fd"

fun lock_of_call :: "table_call \<Rightarrow> lock_mode" where
  "lock_of_call (Get_Status_Call fd) = Rdlock"
| "lock_of_call (Set_Opening_Call fd) = Wrlock"
| "lock_of_call (Cleanup_Call fd) = Wrlock"

fun locked_section :: "table_call \<Rightarrow> fd_table \<Rightarrow> fd_table" where
  "locked_section (Get_Status_Call fd) t = t"
| "locked_section (Set_Opening_Call fd) t = hvac_set_fd_opening fd t"
| "locked_section (Cleanup_Call fd) t = hvac_cleanup_fd_state fd t"

text \<open>A \<open>pthread_rwlock_t\<close>: the number of its readers and whether it has a writer.\<close>

record rwlock =
  rw_readers :: nat
  rw_writer :: bool

fun rwlock_free :: "lock_mode \<Rightarrow> rwlock \<Rightarrow> bool" where
  "rwlock_free Rdlock l = (\<not> rw_writer l)"
| "rwlock_free Wrlock l = (\<not> rw_writer l \<and> rw_readers l = 0)"

fun rwlock_take :: "lock_mode \<Rightarrow> rwlock \<Rightarrow> rwlock" where
  "rwlock_take Rdlock l = l\<lparr>rw_readers := Suc (rw_readers l)\<rparr>"
| "rwlock_take Wrlock l = l\<lparr>rw_writer := True\<rparr>"

definition rwlock_unlock :: "rwlock \<Rightarrow> rwlock" where
  "rwlock_unlock l = (if rw_writer l then l\<lparr>rw_writer := False\<rparr> else l\<lparr>rw_readers := rw_readers l - 1\<rparr>)"

text \<open>
  Threads that use the table once the lock array is initialised. Where a thread is inside, its
  section is in progress; the locks are only taken and released.
\<close>

datatype user_pc = U_Idle | U_Lock table_call | U_Inside table_call | U_Unlock table_call

record table_users =
  rw_locks :: "int \<Rightarrow> rwlock"
  user_pc :: "nat \<Rightarrow> user_pc"
  shared_table :: fd_table

definition users_initial :: "fd_table \<Rightarrow> table_users" where
  "users_initial T = \<lparr>rw_locks = (\<lambda>i. \<lparr>rw_readers = 0, rw_writer = False\<rparr>), user_pc = (\<lambda>t. U_Idle), shared_table = T\<rparr>"

inductive lock_step :: "table_users \<Rightarrow> table_users \<Rightarrow> bool" where
  start_call: "user_pc s t = U_Idle \<Longrightarrow> lock_step s (s\<lparr>user_pc := (user_pc s)(t := U_Lock c)\<rparr>)"
| take_lock: "user_pc s t = U_Lock c \<Longrightarrow> i = get_fd_rwlock (call_fd c) \<Longrightarrow> rwlock_free (lock_of_call c) (rw_locks s i) \<Longrightarrow>
    lock_step s (s\<lparr>user_pc := (user_pc s)(t := U_Inside c), rw_locks := (rw_locks s)(i := rwlock_take (lock_of_call c) (rw_locks s i))\<rparr>)"
| run_section: "user_pc s t = U_Inside c \<Longrightarrow>
    lock_step s (s\<lparr>user_pc := (user_pc s)(t := U_Unlock c), shared_table := locked_section c (shared_table s)\<rparr>)"
| drop_lock: "user_pc s t = U_Unlock c \<Longrightarrow> i = get_fd_rwlock (call_fd c) \<Longrightarrow>
    lock_step s (s\<lparr>user_pc := (user_pc s)(t := U_Idle), rw_locks := (rw_locks s)(i := rwlock_unlock (rw_locks s i))\<rparr>)"

text \<open>The threads that hold a lock in a mode, and what they say about the state of the lock.\<close>

definition holders :: "lock_mode \<Rightarrow> int \<Rightarrow> (nat \<Rightarrow> user_pc) \<Rightarrow> nat set" where
  "holders m i pc = {t. \<exists>c. (pc t = U_Inside c \<or> pc t = U_Unlock c) \<and> lock_of_call c = m \<and> get_fd_rwlock (call_fd c) = i}"

definition rwlock_inv :: "rwlock \<Rightarrow> nat set \<Rightarrow> nat set \<Rightarrow> bool" where
  "rwlock_inv l R W \<longleftrightarrow> finite R \<and> rw_readers l = card R \<and> (if rw_writer l then (\<exists>t. W = {t}) \<and> R = {} else W = {})"

definition users_inv :: "table_users \<Rightarrow> bool" where
  "users_inv s \<longleftrightarrow> (\<forall>i. rwlock_inv (rw_locks s i) (holders Rdlock i (user_pc s)) (holders Wrlock i (user_pc s)))"

lemma holders_upd:
  "holders m i (pc(t := U_Idle)) = holders m i pc - {t}"
  "holders m i (pc(t := U_Lock c)) = holders m i pc - {t}"
  "holders m i (pc(t := U_Inside c)) =
     (if lock_of_call c = m \<and> get_fd_rwlock (call_fd c) = i then insert t (holders m i pc) else holders m i pc - {t})"
  "holders m i (pc(t := U_Unlock c)) =
     (if lock_of_call c = m \<and> get_fd_rwlock (call_fd c) = i then insert t (holders m i pc) else holders m i pc - {t})"
  by (auto simp: holders_def)

lemma holders_pc:
  "pc t = U_Idle \<Longrightarrow> t \<notin> holders m i pc"
  "pc t = U_Lock c \<Longrightarrow> t \<notin> holders m i pc"
  "pc t = U_Inside c \<Longrightarrow> t \<in> holders m i pc \<longleftrightarrow> lock_of_call c = m \<and> get_fd_rwlock (call_fd c) = i"
  "pc t = U_Unlock c \<Longrightarrow> t \<in> holders m i pc \<longleftrightarrow> lock_of_call c = m \<and> get_fd_rwlock (call_fd c) = i"
  by (auto simp: holders_def)

lemma rwlock_take_inv:
  assumes "rwlock_inv l R W" and "rwlock_free m l" and "t \<notin> R" and "t \<notin> W"
  shows "rwlock_inv (rwlock_take m l) (if m = Rdlock then insert t R else R) (if m = Wrlock then insert t W else W)"
  using assms by (cases m) (auto simp: rwlock_inv_def split: if_splits)

lemma rwlock_unlock_inv:
  assumes "rwlock_inv l R W" and "m = Rdlock \<longrightarrow> t \<in> R \<and> t \<notin> W" and "m = Wrlock \<longrightarrow> t \<in> W \<and> t \<notin> R"
  shows "rwlock_inv (rwlock_unlock l) (R - {t}) (W - {t})"
  using assms by (cases m) (auto simp: rwlock_inv_def rwlock_unlock_def split: if_splits)

lemma lock_step_inv: "lock_step s s' \<Longrightarrow> users_inv s \<Longrightarrow> users_inv s'"
proof (induction rule: lock_step.induct)
  case (start_call s t c)
  then show ?case by (simp add: users_inv_def holders_upd holders_pc(1))
next
  case (take_lock s t c i)
  then have "rwlock_inv (rw_locks s j) (holders Rdlock j (user_pc s)) (holders Wrlock j (user_pc s))" for j
    by (simp add: users_inv_def)
  with rwlock_take_inv [OF this take_lock(3), of t] take_lock(1,2) show ?case
    by (cases "lock_of_call c") (simp_all add: users_inv_def holders_upd holders_pc(2))
next
  case (run_section s t c)
  then have "holders m j ((user_pc s)(t := U_Unlock c)) = holders m j (user_pc s)" for m j
    using holders_pc(3) [of "user_pc s" t c m j] by (auto simp: holders_upd)
  with run_section show ?case by (simp add: users_inv_def)
next
  case (drop_lock s t c i)
  note h = holders_pc(4) [of "user_pc s" t c, OF drop_lock(1)]
  from drop_lock have l: "rwlock_inv (rw_locks s j) (holders Rdlock j (user_pc s)) (holders Wrlock j (user_pc s))" for j
    by (simp add: users_inv_def)
  have "rwlock_inv (rwlock_unlock (rw_locks s i)) (holders Rdlock i (user_pc s) - {t}) (holders Wrlock i (user_pc s) - {t})"
    by (rule rwlock_unlock_inv [OF l, where m = "lock_of_call c"]) (simp_all add: h drop_lock(2))
  moreover have "holders m j (user_pc s) - {t} = holders m j (user_pc s)" if "j \<noteq> i" for m j
    using that by (simp add: h drop_lock(2))
  ultimately show ?case using l by (simp add: users_inv_def holders_upd)
qed

lemma lock_steps_inv: "lock_step\<^sup>*\<^sup>* s s' \<Longrightarrow> users_inv s \<Longrightarrow> users_inv s'"
  by (induction rule: rtranclp_induct) (auto dest: lock_step_inv)

lemma users_initial_inv: "users_inv (users_initial T)"
  by (simp add: users_inv_def users_initial_def rwlock_inv_def holders_def)

lemma read_section: "lock_of_call c = Rdlock \<Longrightarrow> locked_section c x = x"
  by (cases c) simp_all

lemma readers_only:
  assumes "users_inv s" and "user_pc s t = U_Inside c" and "user_pc s u = U_Inside c'" and "t \<noteq> u"
    and "get_fd_rwlock (call_fd c) = get_fd_rwlock (call_fd c')"
  shows "lock_of_call c = Rdlock"
proof (rule ccontr)
  let ?i = "get_fd_rwlock (call_fd c)"
  assume "lock_of_call c \<noteq> Rdlock"
  then have t: "t \<in> holders Wrlock ?i (user_pc s)"
    using holders_pc(3) [of "user_pc s" t c] assms(2) by (cases "lock_of_call c") simp_all
  have u: "u \<in> holders (lock_of_call c') ?i (user_pc s)"
    using holders_pc(3) [of "user_pc s" u c'] assms(3,5) by simp
  from assms(1) have "rwlock_inv (rw_locks s ?i) (holders Rdlock ?i (user_pc s)) (holders Wrlock ?i (user_pc s))"
    by (simp add: users_inv_def)
  with t u assms(4) show False
    by (cases "lock_of_call c'") (auto simp: rwlock_inv_def split: if_splits)
qed

lemma hvac_wait_cases:
  assumes "fd_table_wf t" and "\<exists>st. (ETIMEDOUT, st) \<in> set wk"
  obtains (unknown) "fd_state_map t fd = None" "hvac_wait_fd_ready fd wk t = Inr (False, t)"
    | (known) a b st where "fd_state_map t fd = Some a" "b \<Longrightarrow> st = HVAC_FD_READY"
        "hvac_wait_fd_ready fd wk t = Inr (b, t\<lparr>statuses := (statuses t)(a \<mapsto> st)\<rparr>)"
proof (cases "fd_state_map t fd")
  case None
  then show thesis by (intro unknown) (simp_all add: hvac_wait_fd_ready_def hvac_get_fd_status_def)
next
  case (Some a)
  with fd_table_wfD [OF assms(1)] obtain st0 where st0: "statuses t a = Some st0" by blast
  from wait_loop_ends [OF assms(2), of st0] obtain b st where "wait_loop st0 wk = Inr (b, st)" by auto
  with Some st0 show thesis
    by (intro known [of a b st]) (auto simp: hvac_wait_fd_ready_def hvac_get_fd_status_def dest: wait_loop_ready)
qed

definition nanoseconds :: "timespec \<Rightarrow> int" where
  "nanoseconds ts = tv_sec ts * 1000000000 + tv_nsec ts"

section \<open>Properties\<close>

text \<open>
  C21: the table of shared status objects implements a plain map from descriptors to states. After
  any sequence of openings, ready and error marks and clean-ups the state found for every descriptor
  is the one the map would hold, and a mark for a descriptor without an entry changes nothing.
\<close>

theorem fd_table_implements_map:
  "fd_table_wf (fold fd_table_event es empty_fd_table) \<and>
   fd_status_of (fold fd_table_event es empty_fd_table) = fold spec_event es Map.empty"
proof -
  have "fd_status_of empty_fd_table = Map.empty" by (auto simp: fd_status_of_def empty_fd_table_def)
  with ft.events_refine [OF fd_table_wf_empty, of es] show ?thesis by simp
qed

text \<open>
  C25: a wait for a descriptor ends at the latest with its timeout, whatever the other wake-ups
  are. It answers true only if the descriptor is then marked ready, never for a descriptor without an
  entry, and leaves the states of the other descriptors and the form of the table alone.
\<close>

theorem wait_fd_ready_sound:
  assumes "fd_table_wf t" and "\<exists>st. (ETIMEDOUT, st) \<in> set wk"
  shows "\<exists>ready t'. hvac_wait_fd_ready fd wk t = Inr (ready, t') \<and> fd_table_wf t' \<and>
    (ready \<longrightarrow> fd_status_of t' fd = Some HVAC_FD_READY) \<and>
    (fd_status_of t fd = None \<longrightarrow> \<not> ready) \<and> (\<forall>x. x \<noteq> fd \<longrightarrow> fd_status_of t' x = fd_status_of t x)"
  using assms
proof (cases rule: hvac_wait_cases [where fd = fd])
  case unknown
  with assms(1) show ?thesis by auto
next
  case (known a b st)
  with fd_status_of_None [OF assms(1), of fd] show ?thesis
    by (intro exI [of _ b] exI [of _ "t\<lparr>statuses := (statuses t)(a \<mapsto> st)\<rparr>"])
      (auto simp: fd_table_wf_store [OF assms(1)] fd_status_of_store [OF assms(1)])
qed

theorem wait_fd_ready_sound_witness:
  "\<exists>ready t'. hvac_wait_fd_ready 7 [(0, HVAC_FD_OPENING), (ETIMEDOUT, HVAC_FD_OPENING)]
       (hvac_set_fd_opening 7 empty_fd_table) = Inr (ready, t') \<and> fd_table_wf t' \<and>
     (ready \<longrightarrow> fd_status_of t' 7 = Some HVAC_FD_READY)"
  using wait_fd_ready_sound [OF ft.invar_opening [OF fd_table_wf_empty], of
      "[(0, HVAC_FD_OPENING), (ETIMEDOUT, HVAC_FD_OPENING)]" 7 7] by auto

text \<open>
  The deadline handed to \<open>pthread_cond_timedwait\<close> is a normalised time exactly
  \<open>timeout_ms\<close> milliseconds after the reading of the clock.
\<close>

theorem wait_deadline_exact:
  assumes "0 \<le> tv_nsec now" and "tv_nsec now < 1000000000" and "0 \<le> timeout_ms"
  shows "0 \<le> tv_nsec (wait_deadline now timeout_ms) \<and> tv_nsec (wait_deadline now timeout_ms) < 1000000000 \<and>
    nanoseconds (wait_deadline now timeout_ms) = nanoseconds now + timeout_ms * 1000000"
proof -
  have "timeout_ms div 1000 * 1000000000 + timeout_ms mod 1000 * 1000000 = timeout_ms * 1000000"
    using div_mult_mod_eq [of timeout_ms 1000] by linarith
  moreover have "0 \<le> timeout_ms mod 1000" "timeout_ms mod 1000 < 1000" by simp_all
  ultimately show ?thesis using assms unfolding wait_deadline_def nanoseconds_def Let_def by auto
qed

theorem wait_deadline_exact_witness:
  "wait_deadline \<lparr>tv_sec = 10, tv_nsec = 700000000\<rparr> 5400 = \<lparr>tv_sec = 16, tv_nsec = 100000000\<rparr> \<and>
   nanoseconds (wait_deadline \<lparr>tv_sec = 10, tv_nsec = 700000000\<rparr> 5400) = 16100000000"
  using wait_deadline_exact [of "\<lparr>tv_sec = 10, tv_nsec = 700000000\<rparr>" 5400]
  by (simp add: wait_deadline_def nanoseconds_def)

text \<open>
  A thread that waits on the status object of an earlier use of a descriptor is never told
  about a later use: after the descriptor was closed and opened again, marking it ready changes the
  new object only.
\<close>

theorem reopen_leaves_old_waiter:
  assumes "fd_table_wf t" and "hvac_get_fd_status t fd = Some a"
  shows "statuses (hvac_set_fd_ready fd (hvac_set_fd_opening fd (hvac_cleanup_fd_state fd t))) a = statuses t a \<and>
    hvac_get_fd_status (hvac_set_fd_ready fd (hvac_set_fd_opening fd (hvac_cleanup_fd_state fd t))) fd \<noteq> Some a \<and>
    fd_status_of (hvac_set_fd_ready fd (hvac_set_fd_opening fd (hvac_cleanup_fd_state fd t))) fd = Some HVAC_FD_READY"
proof -
  from fd_table_wfD [OF assms(1)] assms(2) have "a < next_status t" by (simp add: hvac_get_fd_status_def)
  moreover have "fd_status_of (hvac_set_fd_ready fd (hvac_set_fd_opening fd (hvac_cleanup_fd_state fd t))) fd =
      Some HVAC_FD_READY"
    using ft.open_succeeds [OF ft.invar_cleanup [OF assms(1)]] by simp
  ultimately show ?thesis
    by (simp add: hvac_set_fd_ready_def hvac_set_fd_opening_def hvac_get_fd_status_def hvac_cleanup_fd_state_def)
qed

theorem reopen_leaves_old_waiter_witness:
  "statuses (hvac_set_fd_ready 7 (hvac_set_fd_opening 7 (hvac_cleanup_fd_state 7
     (hvac_set_fd_opening 7 empty_fd_table)))) 0 = Some HVAC_FD_OPENING"
  using reopen_leaves_old_waiter [OF ft.invar_opening [OF fd_table_wf_empty], of 7 7 0]
  by (simp add: hvac_get_fd_status_def hvac_set_fd_opening_def empty_fd_table_def)

text \<open>
  C30: the sharded locks exclude what they are meant to exclude, once the lock array is initialised:
  the lock of a descriptor exists, and when two threads are inside the locked sections of functions that use
  one lock, both are looking up: neither section changes the map.
\<close>

theorem shard_locks_exclude:
  assumes "lock_step\<^sup>*\<^sup>* (users_initial T) s" and "t \<noteq> u"
    and "user_pc s t = U_Inside c" and "user_pc s u = U_Inside c'"
    and "get_fd_rwlock (call_fd c) = get_fd_rwlock (call_fd c')" and "0 \<le> call_fd c"
  shows "0 \<le> get_fd_rwlock (call_fd c) \<and> get_fd_rwlock (call_fd c) < FD_STATE_SHARDS \<and>
    (\<forall>x. fd_state_map (locked_section c x) = fd_state_map x \<and> fd_state_map (locked_section c' x) = fd_state_map x)"
proof -
  have inv: "users_inv s" by (rule lock_steps_inv [OF assms(1) users_initial_inv])
  from readers_only [OF inv assms(3,4,2,5)] readers_only [OF inv assms(4,3) assms(2) [symmetric] assms(5) [symmetric]]
  have "lock_of_call c = Rdlock" "lock_of_call c' = Rdlock" .
  with shard_in_range [OF assms(6)] show ?thesis by (simp add: read_section)
qed

lemma two_inside:
  assumes "t \<noteq> u" and "get_fd_rwlock (call_fd c) = get_fd_rwlock (call_fd c') \<Longrightarrow> lock_of_call c = Rdlock \<and> lock_of_call c' = Rdlock"
  shows "\<exists>s. lock_step\<^sup>*\<^sup>* (users_initial T) s \<and> user_pc s t = U_Inside c \<and> user_pc s u = U_Inside c'"
proof -
  define free where "free = \<lparr>rw_readers = 0, rw_writer = False\<rparr>"
  define st where "st a b l = \<lparr>rw_locks = l, user_pc = (\<lambda>x. U_Idle)(t := a, u := b), shared_table = T\<rparr>" for a b l
  let ?i = "get_fd_rwlock (call_fd c)" and ?j = "get_fd_rwlock (call_fd c')"
  let ?l1 = "(\<lambda>x. free)(?i := rwlock_take (lock_of_call c) free)"
  let ?l2 = "?l1(?j := rwlock_take (lock_of_call c') (?l1 ?j))"
  have f: "rwlock_free m free" for m by (cases m) (simp_all add: free_def)
  have "users_initial T = st U_Idle U_Idle (\<lambda>x. free)" by (simp add: users_initial_def st_def free_def fun_upd_idem)
  also have "lock_step\<^sup>*\<^sup>* \<dots> (st (U_Lock c) U_Idle (\<lambda>x. free))"
    using start_call [of "st U_Idle U_Idle (\<lambda>x. free)" t c] assms(1) by (simp add: st_def fun_upd_twist)
  also have "lock_step \<dots> (st (U_Lock c) (U_Lock c') (\<lambda>x. free))"
    using start_call [of "st (U_Lock c) U_Idle (\<lambda>x. free)" u c'] by (simp add: st_def)
  also have "lock_step \<dots> (st (U_Inside c) (U_Lock c') ?l1)"
    using take_lock [of "st (U_Lock c) (U_Lock c') (\<lambda>x. free)" t c ?i] assms(1) f by (simp add: st_def fun_upd_twist)
  also have "lock_step \<dots> (st (U_Inside c) (U_Inside c') ?l2)"
  proof -
    have "rwlock_free (lock_of_call c') (?l1 ?j)" using assms(2) f by (cases "?i = ?j") (auto simp: free_def)
    with take_lock [of "st (U_Inside c) (U_Lock c') ?l1" u c' ?j] show ?thesis by (simp add: st_def)
  qed
  finally have "lock_step\<^sup>*\<^sup>* (users_initial T) (st (U_Inside c) (U_Inside c') ?l2)" .
  then show ?thesis using assms(1) by (intro exI [of _ "st (U_Inside c) (U_Inside c') ?l2"]) (simp add: st_def)
qed

theorem shard_locks_exclude_witness:
  "\<exists>s. lock_step\<^sup>*\<^sup>* (users_initial empty_fd_table) s \<and> user_pc s 1 = U_Inside (Get_Status_Call 3) \<and>
     user_pc s 2 = U_Inside (Get_Status_Call 67) \<and> get_fd_rwlock 3 < FD_STATE_SHARDS"
proof -
  obtain s where s: "lock_step\<^sup>*\<^sup>* (users_initial empty_fd_table) s" "user_pc s 1 = U_Inside (Get_Status_Call 3)"
    "user_pc s 2 = U_Inside (Get_Status_Call 67)"
    using two_inside [of 1 2 "Get_Status_Call 3" "Get_Status_Call 67" empty_fd_table] by auto
  have e: "get_fd_rwlock 3 = get_fd_rwlock 67" by (simp add: get_fd_rwlock_nonneg)
  with s shard_locks_exclude [OF s(1) _ s(2,3)] show ?thesis by auto
qed

text \<open>
  The locks do not protect the one map behind the shards: for descriptors of different shards
  two threads can be inside sections that both change \<open>fd_state_map\<close>.
\<close>

theorem shards_race_on_map:
  assumes "get_fd_rwlock x \<noteq> get_fd_rwlock y" and "t \<noteq> u"
  shows "\<exists>s. lock_step\<^sup>*\<^sup>* (users_initial empty_fd_table) s \<and> user_pc s t = U_Inside (Set_Opening_Call x) \<and>
    user_pc s u = U_Inside (Set_Opening_Call y) \<and>
    fd_state_map (locked_section (Set_Opening_Call x) (shared_table s)) \<noteq> fd_state_map (shared_table s)"
proof -
  from two_inside [OF assms(2), of "Set_Opening_Call x" "Set_Opening_Call y"] assms(1) obtain s where
    s: "lock_step\<^sup>*\<^sup>* (users_initial empty_fd_table) s" "user_pc s t = U_Inside (Set_Opening_Call x)"
      "user_pc s u = U_Inside (Set_Opening_Call y)" by auto
  have wf: "fd_table_wf (shared_table v)" if "lock_step\<^sup>*\<^sup>* (users_initial empty_fd_table) v" for v
    using that
  proof (induction rule: rtranclp_induct)
    case base
    then show ?case by (simp add: users_initial_def fd_table_wf_empty)
  next
    case (step v w)
    have "fd_table_wf (locked_section c T)" if "fd_table_wf T" for c T
      using that by (cases c) (simp_all add: fd_table_wf_opening fd_table_wf_cleanup)
    with step.hyps(2) step.IH show ?case by (cases rule: lock_step.cases) simp_all
  qed
  have "fd_state_map (hvac_set_fd_opening x (shared_table s)) x \<noteq> fd_state_map (shared_table s) x"
    using fd_table_wfD [OF wf [OF s(1)], of x "next_status (shared_table s)"] by (auto simp: hvac_set_fd_opening_def)
  with s show ?thesis by (intro exI [of _ s]) auto
qed

theorem shards_race_on_map_witness:
  "\<exists>s. lock_step\<^sup>*\<^sup>* (users_initial empty_fd_table) s \<and> user_pc s 1 = U_Inside (Set_Opening_Call 3) \<and>
     user_pc s 2 = U_Inside (Set_Opening_Call 4)"
  using shards_race_on_map [of 3 4 1 2] by (auto simp: get_fd_rwlock_nonneg)

end
