(* ===== verification/HVAC_Engine.thy ===== *)
theory HVAC_Engine
  imports HVAC_Prelude
begin

text \<open>
  The Mercury engine of both processes (\<open>mthvac_comm.cpp\<close>): initialisation, the progress loop
  and its shutdown flag, and the registration of the RPCs. Whether \<open>HG_Init\<close>,
  \<open>HG_Context_create\<close> and \<open>pthread_create\<close> succeed is given by the record \<open>engine_env\<close>;
  a failure of any of them is only logged by the code.
\<close>

section \<open>State\<close>

record engine =
  hg_class :: bool
  hg_context :: bool
  progress_shutdown :: bool
  hvac_server_rank :: int
  server_rank :: int
  progress_threads :: nat
  rpc_names :: "string list"
  no_response :: "string list"

definition engine_initial :: engine where
  "engine_initial = \<lparr>hg_class = False, hg_context = False, progress_shutdown = False,
     hvac_server_rank = -1, server_rank = -1, progress_threads = 0, rpc_names = [], no_response = []\<rparr>"

record engine_env =
  eng_getenv :: "string \<Rightarrow> string option"
  hg_init_ok :: bool
  hg_context_ok :: bool
  pthread_ok :: bool
  disable_response_ret :: int

section \<open>Initialisation and shutdown\<close>

text \<open>
  The rank is converted before it is tested for NULL, so the FATAL branch for a missing rank is
  never reached. \<open>HG_Init\<close> makes a new class: what was registered with an earlier one is not
  registered with it.
\<close>

definition hvac_init_comm :: "engine_env \<Rightarrow> bool \<Rightarrow> engine \<Rightarrow> engine run" where
  "hvac_init_comm env listen e =
     (case eng_getenv env ''SLURM_PROCID'' of
        None \<Rightarrow> Inl Null_Dereference
      | Some rank_str \<Rightarrow>
          Inr (e\<lparr>server_rank := atoi rank_str,
                 hg_class := hg_init_ok env,
                 hg_context := hg_context_ok env,
                 rpc_names := [],
                 no_response := [],
                 hvac_server_rank := (if listen then atoi rank_str else hvac_server_rank e),
                 progress_threads := (if pthread_ok env then Suc (progress_threads e) else progress_threads e)\<rparr>))"

definition hvac_shutdown_comm :: "engine \<Rightarrow> engine" where
  "hvac_shutdown_comm e = e\<lparr>progress_shutdown := True\<rparr>"

definition hvac_comm_get_class :: "engine \<Rightarrow> bool" where
  "hvac_comm_get_class e = hg_class e"

definition hvac_comm_get_context :: "engine \<Rightarrow> bool" where
  "hvac_comm_get_context e = hg_context e"

section \<open>The progress loop\<close>

text \<open>
  A tick is one call of \<open>HG_Trigger\<close>: its return code and count, and the value of the shutdown
  flag at the three places that read it afterwards: the condition of the inner loop, the \<open>if\<close>
  before \<open>HG_Progress\<close> and the condition of the outer loop. The list of ticks is what the
  environment does; a loop that is still running at its end has no result.
\<close>

record tick =
  t_ret :: int
  t_count :: nat
  f_inner :: bool
  f_if :: bool
  f_outer :: bool

datatype engine_call = HG_Trigger | HG_Progress

fun progress_loop :: "tick list \<Rightarrow> engine_call list option" where
  "progress_loop [] = None"
| "progress_loop (k # ks) =
     (if t_ret k = 0 \<and> t_count k \<noteq> 0 \<and> \<not> f_inner k
      then map_option (\<lambda>cs. HG_Trigger # cs) (progress_loop ks)
      else let calls = HG_Trigger # (if f_if k then [] else [HG_Progress])
           in if f_outer k then Some calls else map_option (\<lambda>cs. calls @ cs) (progress_loop ks))"

definition hvac_progress_fn :: "bool \<Rightarrow> tick list \<Rightarrow> engine_call list option" where
  "hvac_progress_fn flag ks = (if flag then Some [] else progress_loop ks)"

section \<open>Registration\<close>

text \<open>Without a class nothing is registered.\<close>

definition mercury_register :: "string \<Rightarrow> engine \<Rightarrow> engine" where
  "mercury_register name e = (if hg_class e then e\<lparr>rpc_names := rpc_names e @ [name]\<rparr> else e)"

definition hvac_rpc_register :: "engine \<Rightarrow> engine" where
  "hvac_rpc_register e = mercury_register ''hvac_base_rpc'' e"

definition hvac_open_rpc_register :: "engine \<Rightarrow> engine" where
  "hvac_open_rpc_register e = mercury_register ''hvac_open_rpc'' e"

definition hvac_close_rpc_register :: "engine_env \<Rightarrow> engine \<Rightarrow> engine run" where
  "hvac_close_rpc_register env e =
     (let e' = mercury_register ''hvac_close_rpc'' e
      in assert_run (disable_response_ret env = 0)
           (Inr (if hg_class e' then e'\<lparr>no_response := no_response e' @ [''hvac_close_rpc'']\<rparr> else e')))"

definition hvac_seek_rpc_register :: "engine \<Rightarrow> engine" where
  "hvac_seek_rpc_register e = mercury_register ''hvac_seek_rpc'' e"

definition hvac_trigger_srv_print_stats_rpc_register :: "engine \<Rightarrow> engine" where
  "hvac_trigger_srv_print_stats_rpc_register e = mercury_register ''hvac_rpc_trigger_srv_print_stats'' e"

text \<open>The order of \<open>hvac_client_comm_register_rpc\<close> (client) and \<open>hvac_start_comm_server\<close> (server).\<close>

definition hvac_client_comm_register_rpc :: "engine_env \<Rightarrow> engine \<Rightarrow> engine run" where
  "hvac_client_comm_register_rpc env e =
     bind_run (hvac_close_rpc_register env (hvac_rpc_register (hvac_open_rpc_register e)))
       (\<lambda>e'. Inr (hvac_trigger_srv_print_stats_rpc_register (hvac_seek_rpc_register e')))"

definition server_register_rpcs :: "engine_env \<Rightarrow> engine \<Rightarrow> engine run" where
  "server_register_rpcs env e =
     bind_run (hvac_close_rpc_register env (hvac_open_rpc_register (hvac_rpc_register e)))
       (\<lambda>e'. Inr (hvac_trigger_srv_print_stats_rpc_register (hvac_seek_rpc_register e')))"

section \<open>Lemmas\<close>

lemmas register_defs = hvac_rpc_register_def hvac_open_rpc_register_def hvac_seek_rpc_register_def
  hvac_trigger_srv_print_stats_rpc_register_def

lemma mercury_register_fields [simp]:
  "hg_class (mercury_register n e) = hg_class e" "hg_context (mercury_register n e) = hg_context e"
  "progress_threads (mercury_register n e) = progress_threads e" "no_response (mercury_register n e) = no_response e"
  "rpc_names (mercury_register n e) = (if hg_class e then rpc_names e @ [n] else rpc_names e)"
  by (simp_all add: mercury_register_def)

lemma close_register:
  assumes "hvac_close_rpc_register env e = Inr e'"
  shows "hg_class e' = hg_class e" and "hg_context e' = hg_context e" and "progress_threads e' = progress_threads e"
    and "rpc_names e' = (if hg_class e then rpc_names e @ [''hvac_close_rpc''] else rpc_names e)"
    and "no_response e' = (if hg_class e then no_response e @ [''hvac_close_rpc''] else no_response e)"
  using assms by (simp_all add: hvac_close_rpc_register_def assert_run_def Let_def split: if_splits) auto

lemma client_register_names:
  "hvac_client_comm_register_rpc env e = Inr e' \<Longrightarrow> hg_class e \<Longrightarrow>
     rpc_names e' = rpc_names e @ [''hvac_open_rpc'', ''hvac_base_rpc'', ''hvac_close_rpc'', ''hvac_seek_rpc'',
       ''hvac_rpc_trigger_srv_print_stats''] \<and>
     no_response e' = no_response e @ [''hvac_close_rpc'']"
  unfolding hvac_client_comm_register_rpc_def register_defs bind_run_eq_Inr
  by (elim exE conjE) (frule close_register(1), frule close_register(4), drule close_register(5), auto)

lemma server_register_names:
  "server_register_rpcs env e = Inr e' \<Longrightarrow> hg_class e \<Longrightarrow>
     rpc_names e' = rpc_names e @ [''hvac_base_rpc'', ''hvac_open_rpc'', ''hvac_close_rpc'', ''hvac_seek_rpc'',
       ''hvac_rpc_trigger_srv_print_stats''] \<and>
     no_response e' = no_response e @ [''hvac_close_rpc'']"
  unfolding server_register_rpcs_def register_defs bind_run_eq_Inr
  by (elim exE conjE) (frule close_register(1), frule close_register(4), drule close_register(5), auto)

text \<open>An engine that is up: Mercury is initialised, a thread makes progress, all requests are registered.\<close>

definition mercury_up :: "engine_env \<Rightarrow> bool" where
  "mercury_up env \<longleftrightarrow> hg_init_ok env \<and> hg_context_ok env \<and> pthread_ok env"

definition engine_up :: "engine \<Rightarrow> bool" where
  "engine_up e \<longleftrightarrow> hg_class e \<and> hg_context e \<and> progress_threads e = 1 \<and> distinct (rpc_names e) \<and>
     set (rpc_names e) = {''hvac_base_rpc'', ''hvac_open_rpc'', ''hvac_close_rpc'', ''hvac_seek_rpc'',
       ''hvac_rpc_trigger_srv_print_stats''} \<and> no_response e = [''hvac_close_rpc'']"

lemma client_register_rest:
  "hvac_client_comm_register_rpc env e = Inr e' \<Longrightarrow>
     hg_class e' = hg_class e \<and> hg_context e' = hg_context e \<and> progress_threads e' = progress_threads e"
  unfolding hvac_client_comm_register_rpc_def register_defs bind_run_eq_Inr
  by (elim exE conjE) (frule close_register(1), frule close_register(2), drule close_register(3), auto)

lemma server_register_rest:
  "server_register_rpcs env e = Inr e' \<Longrightarrow>
     hg_class e' = hg_class e \<and> hg_context e' = hg_context e \<and> progress_threads e' = progress_threads e"
  unfolding server_register_rpcs_def register_defs bind_run_eq_Inr
  by (elim exE conjE) (frule close_register(1), frule close_register(2), drule close_register(3), auto)

lemma init_comm_up:
  "hvac_init_comm env listen e = Inr e' \<Longrightarrow> mercury_up env \<Longrightarrow>
     hg_class e' \<and> hg_context e' \<and> progress_threads e' = Suc (progress_threads e) \<and> rpc_names e' = [] \<and> no_response e' = []"
  by (auto simp: hvac_init_comm_def mercury_up_def split: option.splits)

lemma client_engine_up:
  assumes "hvac_init_comm env False e = Inr e1" and "hvac_client_comm_register_rpc env e1 = Inr e2"
    and "mercury_up env" and "progress_threads e = 0"
  shows "engine_up e2"
  using init_comm_up [OF assms(1,3)] client_register_names [OF assms(2)] client_register_rest [OF assms(2)] assms(4)
  by (auto simp: engine_up_def)

lemma server_engine_up:
  assumes "hvac_init_comm env True e = Inr e1" and "server_register_rpcs env e1 = Inr e2"
    and "mercury_up env" and "progress_threads e = 0"
  shows "engine_up e2"
  using init_comm_up [OF assms(1,3)] server_register_names [OF assms(2)] server_register_rest [OF assms(2)] assms(4)
  by (auto simp: engine_up_def)

text \<open>Once the flag is set and seen, the loop returns and does not wait for the network again.\<close>

lemma progress_loop_stops:
  assumes "f_inner k" "f_if k" "f_outer k" and "\<forall>a \<in> set ks. \<not> f_outer a"
  shows "\<exists>cs. progress_loop (ks @ k # rest) = Some (cs @ [HG_Trigger]) \<and>
              length (filter (\<lambda>c. c = HG_Trigger) cs) = length ks"
  using assms(4)
proof (induction ks)
  case Nil
  then show ?case using assms by simp
next
  case (Cons a ks)
  then obtain cs where cs: "progress_loop (ks @ k # rest) = Some (cs @ [HG_Trigger])"
    "length (filter (\<lambda>c. c = HG_Trigger) cs) = length ks" by auto
  let ?pre = "if t_ret a = 0 \<and> t_count a \<noteq> 0 \<and> \<not> f_inner a then [HG_Trigger]
    else HG_Trigger # (if f_if a then [] else [HG_Progress])"
  have "progress_loop ((a # ks) @ k # rest) = Some ((?pre @ cs) @ [HG_Trigger])"
    using Cons.prems cs(1) by simp
  moreover have "length (filter (\<lambda>c. c = HG_Trigger) (?pre @ cs)) = length (a # ks)"
    using cs(2) by simp
  ultimately show ?case by blast
qed

section \<open>Properties\<close>

text \<open>
  The progress thread ends once it sees the shutdown flag. If the flag is seen at the three
  tests after some call of \<open>HG_Trigger\<close> and the loop had not stopped before, the loop returns, it
  has triggered exactly once per turn, and the last thing it did was a trigger: it does not wait for
  the network again.
\<close>

theorem progress_thread_stops:
  assumes "f_inner k" and "f_if k" and "f_outer k" and "\<forall>a \<in> set ks. \<not> f_outer a"
  shows "\<exists>cs. hvac_progress_fn False (ks @ k # rest) = Some (cs @ [HG_Trigger]) \<and>
    length (filter (\<lambda>c. c = HG_Trigger) cs) = length ks"
  using progress_loop_stops [OF assms] by (simp add: hvac_progress_fn_def)

theorem progress_thread_stops_witness:
  "\<exists>cs. hvac_progress_fn False
      [\<lparr>t_ret = 0, t_count = 1, f_inner = False, f_if = False, f_outer = False\<rparr>,
       \<lparr>t_ret = 0, t_count = 0, f_inner = False, f_if = False, f_outer = False\<rparr>,
       \<lparr>t_ret = 0, t_count = 1, f_inner = True, f_if = True, f_outer = True\<rparr>] = Some (cs @ [HG_Trigger])"
  using progress_thread_stops [of "\<lparr>t_ret = 0, t_count = 1, f_inner = True, f_if = True, f_outer = True\<rparr>"
      "[\<lparr>t_ret = 0, t_count = 1, f_inner = False, f_if = False, f_outer = False\<rparr>,
        \<lparr>t_ret = 0, t_count = 0, f_inner = False, f_if = False, f_outer = False\<rparr>]" "[]"] by auto

text \<open>
  Client and server agree on the RPCs although they register them in different orders: the
  same five names, none twice, and the same one, the close, without a response.
\<close>

theorem rpc_tables_agree:
  assumes "hvac_init_comm cenv False engine_initial = Inr c0" and "hvac_client_comm_register_rpc cenv c0 = Inr c"
    and "hvac_init_comm senv True engine_initial = Inr s0" and "server_register_rpcs senv s0 = Inr s"
    and "mercury_up cenv" and "mercury_up senv"
  shows "set (rpc_names c) = set (rpc_names s) \<and> distinct (rpc_names c) \<and> distinct (rpc_names s) \<and>
    length (rpc_names c) = 5 \<and> no_response c = no_response s \<and> set (no_response c) \<subseteq> set (rpc_names c)"
proof -
  have z: "progress_threads engine_initial = 0" by (simp add: engine_initial_def)
  from client_engine_up [OF assms(1,2,5) z] server_engine_up [OF assms(3,4,6) z]
    client_register_names [OF assms(2)] init_comm_up [OF assms(1,5)]
  show ?thesis by (auto simp: engine_up_def)
qed

definition sample_engine_env :: engine_env where
  "sample_engine_env = \<lparr>eng_getenv = [''SLURM_PROCID'' \<mapsto> ''1''], hg_init_ok = True, hg_context_ok = True,
     pthread_ok = True, disable_response_ret = 0\<rparr>"

theorem rpc_tables_agree_witness:
  "\<exists>c0 c s0 s. hvac_init_comm sample_engine_env False engine_initial = Inr c0 \<and>
     hvac_client_comm_register_rpc sample_engine_env c0 = Inr c \<and>
     hvac_init_comm sample_engine_env True engine_initial = Inr s0 \<and>
     server_register_rpcs sample_engine_env s0 = Inr s \<and> set (rpc_names c) = set (rpc_names s)"
proof -
  obtain c0 s0 where i: "hvac_init_comm sample_engine_env False engine_initial = Inr c0"
    "hvac_init_comm sample_engine_env True engine_initial = Inr s0"
    by (simp add: hvac_init_comm_def sample_engine_env_def)
  obtain c s where r: "hvac_client_comm_register_rpc sample_engine_env c0 = Inr c" "server_register_rpcs sample_engine_env s0 = Inr s"
    by (simp add: hvac_client_comm_register_rpc_def server_register_rpcs_def hvac_close_rpc_register_def Let_def sample_engine_env_def)
  have "mercury_up sample_engine_env" by (simp add: mercury_up_def sample_engine_env_def)
  from rpc_tables_agree [OF i(1) r(1) i(2) r(2) this this] i r show ?thesis by blast
qed

end
