(* ===== verification/HVAC_Address.thy ===== *)
theory HVAC_Address
  imports HVAC_Engine
begin

text \<open>
  The address file \<open>./.ports.cfg.<jobid>\<close>: every server appends its line
  (\<open>hvac_comm_list_addr\<close>, \<open>mthvac_comm.cpp\<close>) and a client reads it to find the address of a
  rank (\<open>hvac_client_comm_lookup_addr\<close>, \<open>mthvac_comm_client.cpp\<close>), once per rank: the found
  address is kept in \<open>address_cache\<close>. Text files are strings by name; an address is the string
  that \<open>HG_Addr_lookup2\<close> resolves, and no address (a null pointer) is \<open>None\<close>.
\<close>

section \<open>Writing\<close>

definition PATH_MAX :: nat where "PATH_MAX = 4096"

text \<open>\<open>sprintf\<close> of \<open>%s\<close> with a null pointer writes (null) in the C library of the target.\<close>

definition ports_filename :: "(string \<Rightarrow> string option) \<Rightarrow> string" where
  "ports_filename env =
     ''./.ports.cfg.'' @ (case env ''SLURM_JOBID'' of None \<Rightarrow> ''(null)'' | Some j \<Rightarrow> j)"

definition ports_line :: "int \<Rightarrow> string \<Rightarrow> string" where
  "ports_line rank addr = show_int rank @ '' '' @ addr @ [CHR 0x0A]"

text \<open>
  \<open>fopen_ok\<close> says whether the file can be opened for appending; the file is created when it does
  not exist.
\<close>

definition hvac_comm_list_addr ::
    "(string \<Rightarrow> string option) \<Rightarrow> bool \<Rightarrow> string \<Rightarrow> engine \<Rightarrow> (string \<rightharpoonup> string) \<Rightarrow> (string \<rightharpoonup> string) run" where
  "hvac_comm_list_addr env fopen_ok self_addr_string e fs =
     (let filename = ports_filename env in
      if length filename \<ge> PATH_MAX then Inl Buffer_Overflow
      else if \<not> fopen_ok then Inl (Exit 0)
      else Inr (fs(filename \<mapsto> index_value [] fs filename @ ports_line (hvac_server_rank e) self_addr_string)))"

section \<open>Reading\<close>

text \<open>
  One \<open>fscanf(na_config, "%d %s\n", ...)\<close>: a number, white space, a word, white space. \<open>None\<close>
  stands for a result other than 2.
\<close>

definition scan_entry :: "string \<Rightarrow> ((int \<times> string) \<times> string) option" where
  "scan_entry s =
     (case scan_int s of
        None \<Rightarrow> None
      | Some (rank, r) \<Rightarrow>
          (let r' = dropWhile is_space r;
               word = takeWhile (\<lambda>c. \<not> is_space c) r'
           in if word = [] then None
              else Some ((rank, word), dropWhile is_space (drop (length word) r'))))"

lemma scan_int_shorter: "scan_int s = Some (z, t) \<Longrightarrow> length t \<le> length s"
proof -
  assume a: "scan_int s = Some (z, t)"
  then obtain c r where c: "dropWhile is_space s = c # r" by (auto simp: scan_int_def split: list.splits)
  then have "length (c # r) \<le> length s" using length_dropWhile_le [of is_space s] by simp
  moreover have "length t \<le> length (c # r)"
    using a c by (auto simp: scan_int_def split: if_splits dest!: scan_nat_shorter)
  ultimately show ?thesis by simp
qed

lemma scan_entry_shorter: "scan_entry s = Some (x, t) \<Longrightarrow> length t < length s"
proof -
  assume a: "scan_entry s = Some (x, t)"
  then obtain z r where z: "scan_int s = Some (z, r)" by (auto simp: scan_entry_def split: option.splits)
  let ?r = "dropWhile is_space r" and ?w = "takeWhile (\<lambda>c. \<not> is_space c) (dropWhile is_space r)"
  from a z have w: "?w \<noteq> []" and t: "t = dropWhile is_space (drop (length ?w) ?r)"
    by (auto simp: scan_entry_def Let_def split: if_splits)
  have "length t \<le> length (drop (length ?w) ?r)" unfolding t by (rule length_dropWhile_le)
  also have "\<dots> < length ?r" using w by (cases ?r) auto
  also have "\<dots> \<le> length r" by (rule length_dropWhile_le)
  also have "\<dots> \<le> length s" using z by (rule scan_int_shorter)
  finally show ?thesis .
qed

text \<open>The read loop; a word that does not fit \<open>svr_str\<close> overflows it.\<close>

function find_rank :: "int \<Rightarrow> string \<Rightarrow> string option run" where
  "find_rank rank s =
     (case scan_entry s of
        None \<Rightarrow> Inr None
      | Some ((svr_rank, svr_str), rest) \<Rightarrow>
          if length svr_str \<ge> PATH_MAX then Inl Buffer_Overflow
          else if svr_rank = rank then Inr (Some svr_str) else find_rank rank rest)"
  by pat_completeness auto
termination
  by (relation "measure (\<lambda>(rank, s). length s)") (auto dest: scan_entry_shorter)

declare find_rank.simps [simp del]

definition hvac_client_comm_lookup_addr ::
    "(string \<Rightarrow> string option) \<Rightarrow> (string \<rightharpoonup> string) \<Rightarrow> int \<Rightarrow> (int \<rightharpoonup> string) \<Rightarrow>
     (string option \<times> (int \<rightharpoonup> string)) run" where
  "hvac_client_comm_lookup_addr env fs rank cache =
     (case cache rank of
        Some a \<Rightarrow> Inr (Some a, cache)
      | None \<Rightarrow>
          (let filename = ports_filename env in
           if length filename \<ge> PATH_MAX then Inl Buffer_Overflow
           else case fs filename of
                  None \<Rightarrow> Inl Null_Dereference
                | Some text \<Rightarrow>
                    bind_run (find_rank rank text)
                      (\<lambda>found. case found of
                         None \<Rightarrow> Inr (None, cache)
                       | Some svr_str \<Rightarrow> Inr (Some svr_str, cache(rank \<mapsto> svr_str)))))"

section \<open>Round trip\<close>

definition valid_entry :: "int \<times> string \<Rightarrow> bool" where
  "valid_entry e \<longleftrightarrow> - (2 ^ 31) \<le> fst e \<and> fst e < 2 ^ 31 \<and> snd e \<noteq> [] \<and>
     (\<forall>c \<in> set (snd e). \<not> is_space c) \<and> length (snd e) < PATH_MAX"

definition ports_text :: "(int \<times> string) list \<Rightarrow> string" where
  "ports_text es = concat (map (\<lambda>(r, a). ports_line r a) es)"

lemma space_chars: "is_space CHR '' ''" "is_space CHR 0x0A" "\<not> is_digit CHR '' ''"
  by (simp_all add: is_space_def is_digit_def digit_chars_def)

lemma show_int_head: "\<exists>c s. show_int z = c # s \<and> \<not> is_space c"
proof -
  obtain c s where c: "show_nat (nat \<bar>z\<bar>) = c # s"
    by (cases "show_nat (nat \<bar>z\<bar>)") (auto simp: show_nat_nonempty)
  then have "is_digit c" using show_nat_digits [of "nat \<bar>z\<bar>"] by simp
  then have "\<not> is_space c" using digit_not_space by blast
  with c show ?thesis by (cases "z < 0") (auto simp: show_int_def is_space_def)
qed

lemma ports_text_head: "dropWhile is_space (ports_text es) = ports_text es"
proof (cases es)
  case (Cons e es')
  obtain r a where e: "e = (r, a)" by (cases e)
  obtain c s where "show_int r = c # s" "\<not> is_space c" using show_int_head by blast
  then show ?thesis by (simp add: Cons e ports_text_def ports_line_def)
qed (simp add: ports_text_def)

lemma takeWhile_word:
  assumes "\<forall>c \<in> set a. \<not> is_space c" and "is_space x"
  shows "takeWhile (\<lambda>c. \<not> is_space c) (a @ x # t) = a"
  using assms by (induction a) auto

lemma scan_entry_line:
  assumes "valid_entry (r, a)" and "dropWhile is_space t = t"
  shows "scan_entry (ports_line r a @ t) = Some ((r, a), t)"
proof -
  from assms have v: "- (2 ^ 31) \<le> r" "r < 2 ^ 31" "a \<noteq> []" "\<forall>c \<in> set a. \<not> is_space c"
    by (auto simp: valid_entry_def)
  have "scan_int (ports_line r a @ t) = Some (r, CHR '' '' # a @ CHR 0x0A # t)"
    using scan_int_show_int [OF v(1,2), of "CHR '' '' # a @ CHR 0x0A # t"] space_chars
    by (simp add: ports_line_def)
  moreover have "dropWhile is_space (CHR '' '' # a @ CHR 0x0A # t) = a @ CHR 0x0A # t"
    using v(3,4) space_chars by (cases a) auto
  ultimately show ?thesis
    using takeWhile_word [OF v(4) space_chars(2), of t] v(3) assms(2) space_chars
    by (simp add: scan_entry_def)
qed

lemma find_rank_ports_text:
  assumes "\<forall>e \<in> set es. valid_entry e"
  shows "find_rank rank (ports_text es) = Inr (map_of es rank)"
  using assms
proof (induction es)
  case Nil
  show ?case by (subst find_rank.simps) (simp add: ports_text_def scan_entry_def scan_int_def)
next
  case (Cons e es)
  obtain r a where e: "e = (r, a)" by (cases e)
  from Cons.prems have v: "valid_entry (r, a)" and "\<forall>e \<in> set es. valid_entry e" by (auto simp: e)
  then have IH: "find_rank rank (ports_text es) = Inr (map_of es rank)" using Cons.IH by simp
  have "ports_text (e # es) = ports_line r a @ ports_text es" by (simp add: ports_text_def e)
  then have "scan_entry (ports_text (e # es)) = Some ((r, a), ports_text es)"
    using scan_entry_line [OF v ports_text_head] by simp
  moreover have "length a < PATH_MAX" using v by (simp add: valid_entry_def)
  ultimately show ?case by (subst find_rank.simps) (auto simp: IH e)
qed

lemma ports_text_append: "ports_text (es @ [(r, a)]) = ports_text es @ ports_line r a"
  by (simp add: ports_text_def)

section \<open>The address cache\<close>

lemma lookup_addr_cache:
  "hvac_client_comm_lookup_addr env fs rank cache = Inr (x, cache') \<Longrightarrow>
     cache' = (case x of None \<Rightarrow> cache | Some a \<Rightarrow> cache(rank \<mapsto> a))"
  by (auto simp: hvac_client_comm_lookup_addr_def Let_def bind_run_eq_Inr fun_upd_idem
      split: option.splits if_splits)

lemma lookup_addr_local:
  assumes "hvac_client_comm_lookup_addr env fs rank cache = Inr (x, cache1)" and "cache' rank = cache rank"
  shows "\<exists>cache2. hvac_client_comm_lookup_addr env fs rank cache' = Inr (x, cache2)"
proof (cases "cache rank")
  case None
  with assms obtain t where "\<not> length (ports_filename env) \<ge> PATH_MAX" "fs (ports_filename env) = Some t"
    "find_rank rank t = Inr x"
    by (auto simp: hvac_client_comm_lookup_addr_def Let_def bind_run_eq_Inr split: option.splits if_splits)
  with None assms(2) show ?thesis
    by (cases x) (simp_all add: hvac_client_comm_lookup_addr_def)
next
  case (Some a)
  with assms have "x = Some a" by (simp add: hvac_client_comm_lookup_addr_def)
  with Some assms(2) show ?thesis by (simp add: hvac_client_comm_lookup_addr_def)
qed

lemma lookup_addr_cached:
  "cache rank = Some a \<Longrightarrow> hvac_client_comm_lookup_addr env fs rank cache = Inr (Some a, cache)"
  by (simp add: hvac_client_comm_lookup_addr_def)

lemma lookup_addr_stable:
  assumes r: "hvac_client_comm_lookup_addr env fs r cache = Inr (x, cache1)"
    and q: "hvac_client_comm_lookup_addr env fs q cache = Inr (Some b, cache2)"
  shows "\<exists>cache3. hvac_client_comm_lookup_addr env fs q cache1 = Inr (Some b, cache3)"
proof (cases "q = r")
  case True
  with r q have "x = Some b" by simp
  with lookup_addr_cache [OF r] True have "cache1 q = Some b" by simp
  then show ?thesis by (simp add: lookup_addr_cached)
next
  case False
  with lookup_addr_cache [OF r] have "cache1 q = cache q" by (auto split: option.splits)
  then show ?thesis by (rule lookup_addr_local [OF q])
qed

section \<open>Properties\<close>

text \<open>
  C23: what a server posts is what a client finds. When the address file holds the lines of some
  servers and a server with a new rank appends its line, a client that has nothing cached gets
  exactly that address for this rank and for every other rank what the file gave before, and it
  caches what it found.
\<close>

theorem posted_address_found:
  assumes "fs (ports_filename env) = Some (ports_text es)" and "length (ports_filename env) < PATH_MAX"
    and "\<forall>e \<in> set es. valid_entry e" and "valid_entry (hvac_server_rank e, addr)"
    and "hvac_server_rank e \<notin> fst ` set es"
  shows "\<exists>fs'. hvac_comm_list_addr env True addr e fs = Inr fs' \<and>
    (\<forall>rank. hvac_client_comm_lookup_addr env fs' rank Map.empty =
       (let found = (map_of es)(hvac_server_rank e \<mapsto> addr)
        in Inr (found rank, (case found rank of None \<Rightarrow> Map.empty | Some a \<Rightarrow> [rank \<mapsto> a]))))"
proof -
  let ?es = "es @ [(hvac_server_rank e, addr)]"
  let ?fs = "fs(ports_filename env \<mapsto> ports_text ?es)"
  have "hvac_comm_list_addr env True addr e fs = Inr ?fs"
    using assms(1,2) by (simp add: hvac_comm_list_addr_def ports_text_append)
  moreover have "map_of ?es = (map_of es)(hvac_server_rank e \<mapsto> addr)"
    using assms(5) map_of_eq_None_iff [of es "hvac_server_rank e"]
    by (auto simp: map_add_def fun_eq_iff split: option.splits)
  moreover have "find_rank rank (ports_text ?es) = Inr (map_of ?es rank)" for rank
    by (rule find_rank_ports_text) (use assms(3,4) in auto)
  ultimately show ?thesis
    using assms(2) by (auto simp: hvac_client_comm_lookup_addr_def Let_def split: option.splits)
qed

definition job_env :: "string \<Rightarrow> string option" where
  "job_env = [''SLURM_JOBID'' \<mapsto> ''17'', ''SLURM_PROCID'' \<mapsto> ''1'']"

lemma job_env_filename: "ports_filename job_env = ''./.ports.cfg.17''"
  by (simp add: ports_filename_def job_env_def)

lemma sample_entries: "valid_entry (0, ''tcp:a'')" "valid_entry (1, ''tcp:b'')"
  by (simp_all add: valid_entry_def is_space_def PATH_MAX_def)

theorem posted_address_found_witness:
  "\<exists>fs'. hvac_comm_list_addr job_env True ''tcp:b'' (engine_initial\<lparr>hvac_server_rank := 1\<rparr>)
       [''./.ports.cfg.17'' \<mapsto> ports_text [(0, ''tcp:a'')]] = Inr fs' \<and>
     hvac_client_comm_lookup_addr job_env fs' 1 Map.empty = Inr (Some ''tcp:b'', [1 \<mapsto> ''tcp:b''])"
  using posted_address_found [of "[''./.ports.cfg.17'' \<mapsto> ports_text [(0, ''tcp:a'')]]" job_env "[(0, ''tcp:a'')]"
      "engine_initial\<lparr>hvac_server_rank := 1\<rparr>" "''tcp:b''"] sample_entries
  by (auto simp: job_env_filename PATH_MAX_def)

text \<open>
  A server that is started again under the same job and rank is not found. It appends a second
  line for its rank, and every client keeps getting the address of the first.
\<close>

theorem restarted_server_not_found:
  assumes "fs (ports_filename env) = Some (ports_text es)" and "length (ports_filename env) < PATH_MAX"
    and "\<forall>e \<in> set es. valid_entry e" and "valid_entry (hvac_server_rank e, addr)"
    and "map_of es (hvac_server_rank e) = Some old" and "cache (hvac_server_rank e) \<in> {None, Some old}"
  shows "\<exists>fs' cache'. hvac_comm_list_addr env True addr e fs = Inr fs' \<and>
    hvac_client_comm_lookup_addr env fs' (hvac_server_rank e) cache = Inr (Some old, cache')"
proof -
  let ?es = "es @ [(hvac_server_rank e, addr)]"
  let ?fs = "fs(ports_filename env \<mapsto> ports_text ?es)"
  have "hvac_comm_list_addr env True addr e fs = Inr ?fs"
    using assms(1,2) by (simp add: hvac_comm_list_addr_def ports_text_append)
  moreover have "find_rank (hvac_server_rank e) (ports_text ?es) = Inr (map_of ?es (hvac_server_rank e))"
    by (rule find_rank_ports_text) (use assms(3,4) in auto)
  moreover have "map_of ?es (hvac_server_rank e) = Some old" using assms(5) by simp
  ultimately show ?thesis
    using assms(2,6) by (auto simp: hvac_client_comm_lookup_addr_def)
qed

theorem restarted_server_not_found_witness:
  "\<exists>fs' cache'. hvac_comm_list_addr job_env True ''tcp:b'' (engine_initial\<lparr>hvac_server_rank := 0\<rparr>)
       [''./.ports.cfg.17'' \<mapsto> ports_text [(0, ''tcp:a'')]] = Inr fs' \<and>
     hvac_client_comm_lookup_addr job_env fs' 0 Map.empty = Inr (Some ''tcp:a'', cache')"
  using restarted_server_not_found [of "[''./.ports.cfg.17'' \<mapsto> ports_text [(0, ''tcp:a'')]]" job_env "[(0, ''tcp:a'')]"
      "engine_initial\<lparr>hvac_server_rank := 0\<rparr>" "''tcp:b''" "''tcp:a''" Map.empty] sample_entries
  by (simp add: job_env_filename PATH_MAX_def valid_entry_def is_space_def)

end
