(* ===== verification/HVAC_Comm_Client.thy ===== *)
theory HVAC_Comm_Client
  imports HVAC_Comm HVAC_Fd_State HVAC_Address
begin

text \<open>
  The client half of the communication layer (\<open>mthvac_comm_client.cpp\<close>): the RPC generators,
  their completion callbacks and the synchronisation context a generator waits on. The network and
  the server behind it are the parameters \<open>fwd_*\<close> of the record \<open>client_env\<close>: they say what
  becomes of one call of \<open>HG_Forward\<close>. A generator blocks until its callback has run, so the
  calling thread sees the effects of the callback before it continues.
\<close>

section \<open>Globals of the client\<close>

record client =
  fd_map :: "int \<rightharpoonup> string"
  fd_redir_map :: "int \<rightharpoonup> int"
  fds :: fd_table
  address_cache :: "int \<rightharpoonup> string"
  g_hvac_initialized :: bool
  g_mercury_init :: bool
  g_disable_redirect :: bool
  tl_disable_redirect :: bool
  g_hvac_server_count :: int
  hvac_data_dir :: "string option"
  cl_engine :: engine

section \<open>The environment\<close>

text \<open>
  \<open>Forward_Error\<close>: \<open>HG_Forward\<close> returns an error. \<open>Never_Completes\<close>: it returns success and
  the callback never runs. \<open>Completes\<close>: the callback runs with that \<open>info->ret\<close> and that output.
\<close>

datatype 'r delivery = Forward_Error int | Never_Completes | Completes int 'r

record 'n client_env =
  cl_getenv :: "string \<Rightarrow> string option"
  cl_files :: "string \<rightharpoonup> string"
  cl_engine_env :: engine_env
  std_hash :: "string \<Rightarrow> int"
  canonical :: "string \<Rightarrow> string option"
  current_path :: string
  hg_create :: "string option \<Rightarrow> int"
  hg_addr_free :: "string option \<Rightarrow> int"
  cl_get_info :: bool
  cl_bulk_create :: "int \<Rightarrow> int"
  cb_cleanup_ok :: bool
  fwd_open :: "'n \<Rightarrow> string option \<Rightarrow> hvac_open_in_t \<Rightarrow> hvac_open_out_t delivery \<times> 'n"
  fwd_read :: "'n \<Rightarrow> string option \<Rightarrow> hvac_rpc_in_t \<Rightarrow> (hvac_rpc_out_t \<times> byte list) delivery \<times> 'n"
  fwd_seek :: "'n \<Rightarrow> string option \<Rightarrow> hvac_seek_in_t \<Rightarrow> hvac_seek_out_t delivery \<times> 'n"
  fwd_close :: "'n \<Rightarrow> string option \<Rightarrow> hvac_close_in_t \<Rightarrow> int \<times> 'n"
  fwd_stats :: "'n \<Rightarrow> string option \<Rightarrow> hvac_rpc_trigger_srv_print_stats_in_t \<Rightarrow> int \<times> 'n"

section \<open>Waiting for a callback\<close>

record hvac_sync_context =
  sync_done :: bool
  sync_result :: int

definition new_sync_context :: hvac_sync_context where
  "new_sync_context = \<lparr>sync_done = False, sync_result = -1\<rparr>"

definition signal_sync :: "int \<Rightarrow> hvac_sync_context \<Rightarrow> hvac_sync_context" where
  "signal_sync r ctx = ctx\<lparr>sync_done := True, sync_result := r\<rparr>"

definition hvac_wait_for_operation :: "hvac_sync_context \<Rightarrow> int run" where
  "hvac_wait_for_operation ctx = (if sync_done ctx then Inr (sync_result ctx) else Inl Blocked_Forever)"

section \<open>Callbacks\<close>

definition hvac_seek_cb :: "hvac_seek_out_t \<Rightarrow> hvac_sync_context \<Rightarrow> hvac_sync_context" where
  "hvac_seek_cb out ctx = signal_sync (seek_ret out) ctx"

text \<open>\<open>local_fd\<close> of the callback argument is a \<open>uint32_t\<close>.\<close>

definition hvac_open_cb ::
    "int \<Rightarrow> hvac_open_out_t \<Rightarrow> int \<Rightarrow> hvac_sync_context \<Rightarrow> client \<Rightarrow> (hvac_sync_context \<times> client) run" where
  "hvac_open_cb info_ret out local_fd ctx c =
     assert_run (info_ret = HG_SUCCESS) (
     let fd = int32 local_fd;
         c' = (if open_ret_status out > 0
               then c\<lparr>fd_redir_map := (fd_redir_map c)(fd \<mapsto> open_ret_status out), fds := hvac_set_fd_ready fd (fds c)\<rparr>
               else c\<lparr>fds := hvac_set_fd_error fd (fds c)\<rparr>)
     in Inr (signal_sync (open_ret_status out) ctx, c'))"

definition hvac_read_cb ::
    "'n client_env \<Rightarrow> int \<Rightarrow> hvac_rpc_out_t \<Rightarrow> hvac_sync_context \<Rightarrow> hvac_sync_context run" where
  "hvac_read_cb E info_ret out ctx =
     assert_run (info_ret = HG_SUCCESS) (
     assert_run (cb_cleanup_ok E) (Inr (signal_sync (rpc_ret out) ctx)))"

text \<open>The callback of the statistics request stores a status if it was given a place for it.\<close>

definition hvac_client_srv_print_stats_cb ::
    "int \<Rightarrow> hvac_rpc_trigger_srv_print_stats_out_t \<Rightarrow> int option \<Rightarrow> int option" where
  "hvac_client_srv_print_stats_cb info_ret out flag =
     (let v = (if info_ret \<noteq> HG_SUCCESS then -2 else if stats_status out = 0 then 0 else -1)
      in map_option (\<lambda>_. v) flag)"

section \<open>RPC generators\<close>

definition lookup_server :: "'n client_env \<Rightarrow> int \<Rightarrow> client \<Rightarrow> (string option \<times> client) run" where
  "lookup_server E rank c =
     bind_run (hvac_client_comm_lookup_addr (cl_getenv E) (cl_files E) (int32 rank) (address_cache c))
       (\<lambda>(a, cache). Inr (a, c\<lparr>address_cache := cache\<rparr>))"

definition hvac_comm_create_handle :: "'n client_env \<Rightarrow> string option \<Rightarrow> 'b run \<Rightarrow> 'b run" where
  "hvac_comm_create_handle E addr k = assert_run (hg_create E addr = HG_SUCCESS) k"

definition hvac_comm_free_addr :: "'n client_env \<Rightarrow> string option \<Rightarrow> 'b run \<Rightarrow> 'b run" where
  "hvac_comm_free_addr E addr k = assert_run (hg_addr_free E addr = HG_SUCCESS) k"

definition hvac_client_comm_gen_open_rpc ::
    "'n client_env \<Rightarrow> int \<Rightarrow> string \<Rightarrow> int \<Rightarrow> 'n \<times> client \<Rightarrow> (int \<times> 'n \<times> client) run" where
  "hvac_client_comm_gen_open_rpc E svr_hash path fd = (\<lambda>(n, c).
     bind_run (lookup_server E svr_hash (c\<lparr>fds := hvac_set_fd_opening fd (fds c)\<rparr>)) (\<lambda>(addr, c1).
     hvac_comm_create_handle E addr (
     let (d, n') = fwd_open E n addr \<lparr>open_path = path\<rparr> in
     case d of
       Forward_Error r \<Rightarrow>
         hvac_comm_free_addr E addr (Inr (-1, n', c1\<lparr>fds := hvac_set_fd_error fd (fds c1)\<rparr>))
     | Never_Completes \<Rightarrow>
         hvac_comm_free_addr E addr (
         bind_run (hvac_wait_for_operation new_sync_context) (\<lambda>r. Inr (r, n', c1)))
     | Completes info out \<Rightarrow>
         hvac_comm_free_addr E addr (
         bind_run (hvac_open_cb info out (uint32 fd) new_sync_context c1) (\<lambda>(ctx, c2).
         bind_run (hvac_wait_for_operation ctx) (\<lambda>r. Inr (r, n', c2)))))))"

text \<open>
  \<open>buf_ok\<close>: the application's buffer is not a null pointer. The result carries the bytes the
  server pushed into the buffer. \<open>wk\<close> are the wake-ups of the wait for the descriptor.
\<close>

definition hvac_client_comm_gen_read_rpc ::
    "'n client_env \<Rightarrow> int \<Rightarrow> int \<Rightarrow> bool \<Rightarrow> int \<Rightarrow> int \<Rightarrow> wakeup list \<Rightarrow> 'n \<times> client \<Rightarrow>
     ((int \<times> byte list) \<times> 'n \<times> client) run" where
  "hvac_client_comm_gen_read_rpc E svr_hash localfd buf_ok count offset wk = (\<lambda>(n, c).
     bind_run (hvac_wait_fd_ready localfd wk (fds c)) (\<lambda>(ready, t).
     let c0 = c\<lparr>fds := t\<rparr> in
     if \<not> ready then Inr ((-1, []), n, c0)
     else case fd_redir_map c0 localfd of
       None \<Rightarrow> Inr ((-1, []), n, c0)
     | Some rfd \<Rightarrow>
       if rfd = 0 then Inr ((-1, []), n, c0)
       else
         bind_run (lookup_server E svr_hash c0) (\<lambda>(addr, c1).
         assert_run buf_ok (
         hvac_comm_create_handle E addr (
         assert_run (cl_get_info E) (
         assert_run (cl_bulk_create E (uint64 count) = HG_SUCCESS) (
         let (d, n') = fwd_read E n addr
               \<lparr>input_val = int32 count, bulk_size = uint64 count, accessfd = rfd, rpc_offset = offset\<rparr> in
         case d of
           Forward_Error r \<Rightarrow> hvac_comm_free_addr E addr (Inr ((-1, []), n', c1))
         | Never_Completes \<Rightarrow>
             hvac_comm_free_addr E addr (
             bind_run (hvac_wait_for_operation new_sync_context) (\<lambda>r. Inr ((r, []), n', c1)))
         | Completes info (out, bytes) \<Rightarrow>
             hvac_comm_free_addr E addr (
             bind_run (hvac_read_cb E info out new_sync_context) (\<lambda>ctx.
             bind_run (hvac_wait_for_operation ctx) (\<lambda>r. Inr ((r, bytes), n', c1)))))))))))"

text \<open>\<open>fd_redir_map[fd]\<close> inserts 0 for an unknown descriptor, and 0 is what the server is asked for.\<close>

definition hvac_client_comm_gen_seek_rpc ::
    "'n client_env \<Rightarrow> int \<Rightarrow> int \<Rightarrow> int \<Rightarrow> int \<Rightarrow> 'n \<times> client \<Rightarrow> (int \<times> 'n \<times> client) run" where
  "hvac_client_comm_gen_seek_rpc E svr_hash fd offset whence = (\<lambda>(n, c).
     bind_run (lookup_server E svr_hash c) (\<lambda>(addr, c1).
     hvac_comm_create_handle E addr (
     let rfd = index_value 0 (fd_redir_map c1) fd;
         c2 = c1\<lparr>fd_redir_map := index_insert 0 (fd_redir_map c1) fd\<rparr>;
         (d, n') = fwd_seek E n addr \<lparr>seek_fd = rfd, seek_offset = offset, seek_whence = whence\<rparr> in
     case d of
       Forward_Error r \<Rightarrow> Inl Assertion_Failed
     | Never_Completes \<Rightarrow>
         hvac_comm_free_addr E addr (
         bind_run (hvac_wait_for_operation new_sync_context) (\<lambda>r. Inr (r, n', c2)))
     | Completes info out \<Rightarrow>
         hvac_comm_free_addr E addr (
         bind_run (hvac_wait_for_operation (hvac_seek_cb out new_sync_context)) (\<lambda>r. Inr (r, n', c2))))))"

definition hvac_client_comm_gen_close_rpc ::
    "'n client_env \<Rightarrow> int \<Rightarrow> int \<Rightarrow> 'n \<times> client \<Rightarrow> ('n \<times> client) run" where
  "hvac_client_comm_gen_close_rpc E svr_hash fd = (\<lambda>(n, c).
     bind_run (lookup_server E svr_hash c) (\<lambda>(addr, c1).
     hvac_comm_create_handle E addr (
     let (n', c2) =
           (case fd_redir_map c1 fd of
              None \<Rightarrow> (n, c1)
            | Some rfd \<Rightarrow>
                if rfd = 0 then (n, c1)
                else (let (r, n') = fwd_close E n addr \<lparr>close_fd = rfd\<rparr>
                      in (n', c1\<lparr>fd_redir_map := (fd_redir_map c1)(fd := None)\<rparr>)));
         c3 = c2\<lparr>fds := hvac_cleanup_fd_state fd (fds c2)\<rparr>
     in hvac_comm_free_addr E addr (Inr (n', c3)))))"

text \<open>Asking a server to print its statistics: the codes of the four ways to fail or succeed.\<close>

definition hvac_client_request_server_to_print_stats ::
    "'n client_env \<Rightarrow> string option \<Rightarrow> 'n \<times> client \<Rightarrow> (int \<times> 'n \<times> client) run" where
  "hvac_client_request_server_to_print_stats E server_rank_identifier = (\<lambda>(n, c).
     case server_rank_identifier of
       None \<Rightarrow> Inr (-3, n, c)
     | Some ident \<Rightarrow>
         bind_run (lookup_server E (atoi ident) c) (\<lambda>(addr, c1).
         if addr = None then Inr (-4, n, c1)
         else
           hvac_comm_create_handle E addr (
           let (hg_status, n') = fwd_stats E n addr \<lparr>dummy_arg = 0\<rparr> in
           if hg_status \<noteq> HG_SUCCESS then hvac_comm_free_addr E addr (Inr (-5, n', c1))
           else hvac_comm_free_addr E addr (Inr (0, n', c1)))))"

text \<open>The three functions that are left of the old synchronisation abort.\<close>

definition hvac_client_block :: "unit run" where "hvac_client_block = Inl Assertion_Failed"
definition hvac_read_block :: "int run" where "hvac_read_block = Inl Assertion_Failed"
definition hvac_seek_block :: "int run" where "hvac_seek_block = Inl Assertion_Failed"

end
