(* ===== verification/HVAC_Timer.thy ===== *)
theory HVAC_Timer
  imports Complex_Main HVAC_Prelude
begin

text \<open>
  The timing statistics of both processes (\<open>mthvac_timer.h\<close>). All tables are protected by one
  mutex, so every operation is atomic. \<open>total_us\<close> is a real number here; the code keeps it in a
  \<open>double\<close>, which is exact for whole microseconds up to \<open>2^53\<close>. The iteration order of an
  \<open>unordered_map\<close> is unspecified: the functions that print take the keys in iteration order. The
  text of a number under \<open>std::fixed << std::setprecision(2)\<close> is the parameter \<open>fmt\<close>.
\<close>

section \<open>State\<close>

record Stat =
  total_us :: real
  calls :: int

record timer_state =
  stat_table :: "string \<rightharpoonup> Stat"
  call_history_table :: "string \<rightharpoonup> int list"
  detailed_tags :: "string set"

definition timer_initial :: timer_state where
  "timer_initial = \<lparr>stat_table = Map.empty, call_history_table = Map.empty, detailed_tags = {}\<rparr>"

definition zero_stat :: Stat where
  "zero_stat = \<lparr>total_us = 0, calls = 0\<rparr>"

section \<open>Recording\<close>

definition enable_detailed_call_logging_for_tag :: "string \<Rightarrow> timer_state \<Rightarrow> timer_state" where
  "enable_detailed_call_logging_for_tag tag t = t\<lparr>detailed_tags := insert tag (detailed_tags t)\<rparr>"

definition disable_detailed_call_logging_for_tag :: "string \<Rightarrow> timer_state \<Rightarrow> timer_state" where
  "disable_detailed_call_logging_for_tag tag t = t\<lparr>detailed_tags := detailed_tags t - {tag}\<rparr>"

text \<open>
  The loop around \<open>compare_exchange_weak\<close>, which may fail without reason a number of times and
  then reloads the expected value.
\<close>

fun cas_add :: "nat \<Rightarrow> real \<Rightarrow> real \<Rightarrow> real \<Rightarrow> real" where
  "cas_add 0 stored current us = (if stored = current then current + us else stored + us)"
| "cas_add (Suc k) stored current us = cas_add k stored stored us"

definition TimerGuard_end :: "nat \<Rightarrow> string \<Rightarrow> int \<Rightarrow> timer_state \<Rightarrow> timer_state" where
  "TimerGuard_end spurious tag us t =
     (let s = index_value zero_stat (stat_table t) tag;
          s' = \<lparr>total_us = cas_add spurious (total_us s) (total_us s) (real_of_int us), calls = uint64 (calls s + 1)\<rparr>;
          t' = t\<lparr>stat_table := (stat_table t)(tag \<mapsto> s')\<rparr>
      in if tag \<in> detailed_tags t'
         then t'\<lparr>call_history_table :=
                (call_history_table t')(tag \<mapsto> index_value [] (call_history_table t') tag @ [us])\<rparr>
         else t')"

definition reset_all_stats :: "timer_state \<Rightarrow> timer_state" where
  "reset_all_stats t =
     t\<lparr>stat_table := (\<lambda>k. map_option (\<lambda>_. zero_stat) (stat_table t k)),
       call_history_table := (\<lambda>k. if k \<in> detailed_tags t then map_option (\<lambda>_. []) (call_history_table t k)
                                  else call_history_table t k)\<rparr>"

section \<open>Reports\<close>

definition newline :: string where "newline = [CHR 0x0A]"

definition setw_left :: "nat \<Rightarrow> string \<Rightarrow> string" where
  "setw_left w s = s @ replicate (w - length s) CHR '' ''"

definition setw_right :: "nat \<Rightarrow> string \<Rightarrow> string" where
  "setw_right w s = replicate (w - length s) CHR '' '' @ s"

definition average_us :: "Stat \<Rightarrow> real" where
  "average_us s = (if calls s \<noteq> 0 then total_us s / real_of_int (calls s) else 0)"

definition stat_row :: "(real \<Rightarrow> string) \<Rightarrow> nat \<Rightarrow> nat \<Rightarrow> nat \<Rightarrow> nat \<Rightarrow> string \<Rightarrow> Stat \<Rightarrow> string" where
  "stat_row fmt w1 w2 w3 w4 k s =
     setw_left w1 k @ setw_right w2 (show_int (calls s)) @ setw_right w3 (fmt (total_us s)) @
     setw_right w4 (fmt (average_us s)) @ newline"

definition stat_rows :: "(real \<Rightarrow> string) \<Rightarrow> nat \<Rightarrow> nat \<Rightarrow> nat \<Rightarrow> nat \<Rightarrow> string list \<Rightarrow> timer_state \<Rightarrow> string" where
  "stat_rows fmt w1 w2 w3 w4 keys t =
     concat (map (\<lambda>k. case stat_table t k of None \<Rightarrow> [] | Some s \<Rightarrow> stat_row fmt w1 w2 w3 w4 k s) keys)"

definition stat_header :: "nat \<Rightarrow> nat \<Rightarrow> nat \<Rightarrow> nat \<Rightarrow> string" where
  "stat_header w1 w2 w3 w4 =
     setw_left w1 ''Section'' @ setw_right w2 ''Calls'' @ setw_right w3 ''Total(us)'' @ setw_right w4 ''Avg(us)'' @ newline"

definition print_all_stats :: "(real \<Rightarrow> string) \<Rightarrow> int \<Rightarrow> string list \<Rightarrow> timer_state \<Rightarrow> string" where
  "print_all_stats fmt epoch_num keys t =
     newline @ ''=== HVAC timing summary ('' @
     (if epoch_num \<ge> 0 then ''Epoch: '' @ show_int epoch_num else []) @ '') ==='' @ newline @
     stat_header 75 12 18 15 @ replicate (75 + 12 + 18 + 15) CHR ''-'' @ newline @
     stat_rows fmt 75 12 18 15 keys t @
     replicate (75 + 12 + 18 + 15) CHR ''='' @ newline"

text \<open>The rows of one tag, numbered from 1.\<close>

definition history_rows :: "int list \<Rightarrow> string" where
  "history_rows ds = concat (map (\<lambda>(i, d). show_nat i @ '','' @ show_int d @ newline) (zip [1..<Suc (length ds)] ds))"

definition quote :: string where "quote = [CHR 0x22]"

text \<open>
  The report is appended to the file. \<open>is_open\<close> says whether the file can be opened; an empty
  name or a file that cannot be opened changes nothing.
\<close>

definition history_report :: "string \<Rightarrow> int \<Rightarrow> timer_state \<Rightarrow> string" where
  "history_report tag epoch_num t =
     newline @ ''=== HVAC Detailed Call History for Tag: '' @ quote @ tag @ quote @ '' ('' @
     (if epoch_num \<ge> 0 then '', For Client Epoch: '' @ show_int epoch_num else []) @ '') ==='' @ newline @
     ''Call_Index,Duration_us'' @ newline @
     (case call_history_table t tag of
        Some ds \<Rightarrow>
          history_rows ds @
          (if ds = [] then ''(No calls recorded for this tag in this period/since last reset)'' @ newline else []) @
          ''--- End of detailed history for tag: '' @ quote @ tag @ quote @ '' (Exported '' @ show_nat (length ds) @ '' calls) ---''
      | None \<Rightarrow>
          ''(Tag '' @ quote @ tag @ quote @ '' not found in detailed history or not enabled for detailed logging)'' @ newline @
          ''--- End of detailed history for tag: '' @ quote @ tag @ quote @ '' (Exported 0 calls) ---'') @ newline @
     replicate 78 CHR ''='' @ newline"

definition export_tag_call_history_to_file ::
    "bool \<Rightarrow> string \<Rightarrow> string \<Rightarrow> int \<Rightarrow> timer_state \<Rightarrow> (string \<rightharpoonup> string) \<Rightarrow> (string \<rightharpoonup> string)" where
  "export_tag_call_history_to_file is_open tag filename epoch_num t fs =
     (if filename = [] \<or> \<not> is_open then fs
      else fs(filename \<mapsto> index_value [] fs filename @ history_report tag epoch_num t))"

text \<open>
  The file report, with the widths of the code: the header is as wide as that of the console
  report, the rows are not. Without a usable file the console report is printed instead; the first
  component is what goes to standard output (without the closing message).
\<close>

definition file_report :: "(real \<Rightarrow> string) \<Rightarrow> string list \<Rightarrow> timer_state \<Rightarrow> string" where
  "file_report fmt keys t =
     stat_header 75 12 18 15 @ replicate 83 CHR ''-'' @ newline @
     stat_rows fmt 45 12 15 15 keys t @ replicate 83 CHR ''='' @ newline"

definition export_all_stats_to_file ::
    "(real \<Rightarrow> string) \<Rightarrow> bool \<Rightarrow> string \<Rightarrow> int \<Rightarrow> string list \<Rightarrow> timer_state \<Rightarrow> (string \<rightharpoonup> string) \<Rightarrow>
     string \<times> (string \<rightharpoonup> string)" where
  "export_all_stats_to_file fmt is_open filename epoch_num keys t fs =
     (if filename = [] \<or> \<not> is_open then (print_all_stats fmt epoch_num keys t, fs)
      else ([], fs(filename \<mapsto> file_report fmt keys t)))"

section \<open>Lemmas\<close>

lemma cas_add_eq: "cas_add k stored stored us = stored + us"
  by (induction k) simp_all

text \<open>A sequence of timed sections: spurious failures of the exchange, tag, duration.\<close>

fun record_calls :: "(nat \<times> string \<times> int) list \<Rightarrow> timer_state \<Rightarrow> timer_state" where
  "record_calls [] t = t"
| "record_calls ((k, tag, us) # cs) t = record_calls cs (TimerGuard_end k tag us t)"

definition durations :: "string \<Rightarrow> (nat \<times> string \<times> int) list \<Rightarrow> int list" where
  "durations tag cs = map (\<lambda>(k, g, us). us) (filter (\<lambda>(k, g, us). g = tag) cs)"

lemma TimerGuard_end_stat:
  "stat_table (TimerGuard_end k tag us t) = (stat_table t)(tag \<mapsto>
     \<lparr>total_us = total_us (index_value zero_stat (stat_table t) tag) + real_of_int us,
      calls = uint64 (calls (index_value zero_stat (stat_table t) tag) + 1)\<rparr>)"
  by (simp add: TimerGuard_end_def Let_def cas_add_eq)

lemma TimerGuard_end_history:
  "call_history_table (TimerGuard_end k tag us t) =
     (if tag \<in> detailed_tags t
      then (call_history_table t)(tag \<mapsto> index_value [] (call_history_table t) tag @ [us])
      else call_history_table t)"
  "detailed_tags (TimerGuard_end k tag us t) = detailed_tags t"
  by (simp_all add: TimerGuard_end_def Let_def)

lemma record_calls_detailed [simp]: "detailed_tags (record_calls cs t) = detailed_tags t"
  by (induction cs t rule: record_calls.induct) (simp_all add: TimerGuard_end_history)

lemma record_calls_history:
  "tag \<in> detailed_tags t \<Longrightarrow>
     index_value [] (call_history_table (record_calls cs t)) tag = index_value [] (call_history_table t) tag @ durations tag cs"
  by (induction cs t rule: record_calls.induct)
    (auto simp: durations_def TimerGuard_end_history index_value_def split: option.splits)

lemma record_calls_untracked:
  "tag \<notin> detailed_tags t \<Longrightarrow> call_history_table (record_calls cs t) tag = call_history_table t tag"
  by (induction cs t rule: record_calls.induct) (auto simp: TimerGuard_end_history)

lemma record_calls_stat:
  assumes "0 \<le> calls (index_value zero_stat (stat_table t) tag)"
    and "calls (index_value zero_stat (stat_table t) tag) + int (length (durations tag cs)) < 2 ^ 64"
  shows "index_value zero_stat (stat_table (record_calls cs t)) tag =
    \<lparr>total_us = total_us (index_value zero_stat (stat_table t) tag) + (\<Sum>us\<leftarrow>durations tag cs. real_of_int us),
     calls = calls (index_value zero_stat (stat_table t) tag) + int (length (durations tag cs))\<rparr>"
  using assms
proof (induction cs t rule: record_calls.induct)
  case (1 t)
  then show ?case by (simp add: durations_def)
next
  case (2 k g us cs t)
  show ?case
  proof (cases "g = tag")
    case True
    then have d: "durations tag ((k, g, us) # cs) = us # durations tag cs" by (simp add: durations_def)
    let ?s = "index_value zero_stat (stat_table t) tag"
    from 2(2,3) d have "uint64 (calls ?s + 1) = calls ?s + 1" by (intro uint64_id) auto
    then have "index_value zero_stat (stat_table (TimerGuard_end k g us t)) tag =
        \<lparr>total_us = total_us ?s + real_of_int us, calls = calls ?s + 1\<rparr>"
      using True by (simp add: TimerGuard_end_stat)
    with 2 d show ?thesis by simp
  next
    case False
    then have "durations tag ((k, g, us) # cs) = durations tag cs" by (simp add: durations_def)
    moreover from False have "index_value zero_stat (stat_table (TimerGuard_end k g us t)) tag =
        index_value zero_stat (stat_table t) tag" by (simp add: TimerGuard_end_stat index_value_def)
    ultimately show ?thesis using 2 by simp
  qed
qed

lemma reset_index:
  "index_value zero_stat (stat_table (reset_all_stats t)) tag = zero_stat"
  "tag \<in> detailed_tags t \<Longrightarrow> index_value [] (call_history_table (reset_all_stats t)) tag = []"
  "detailed_tags (reset_all_stats t) = detailed_tags t"
  by (simp_all add: reset_all_stats_def index_value_def zero_stat_def split: option.splits)

section \<open>Properties\<close>

text \<open>
  The statistics of a section are exact, however often the exchange of the total fails: from
  any state, a sequence of timed sections adds to each tag the sum of its durations and the number of
  its calls, and the history of a tag grows by its durations in order if detailed logging is enabled
  for it and not at all otherwise.
\<close>

theorem timer_totals_exact:
  assumes "0 \<le> calls (index_value zero_stat (stat_table t) tag)"
    and "calls (index_value zero_stat (stat_table t) tag) + int (length (durations tag cs)) < 2 ^ 64"
  shows "total_us (index_value zero_stat (stat_table (record_calls cs t)) tag) =
      total_us (index_value zero_stat (stat_table t) tag) + (\<Sum>us\<leftarrow>durations tag cs. real_of_int us) \<and>
    calls (index_value zero_stat (stat_table (record_calls cs t)) tag) =
      calls (index_value zero_stat (stat_table t) tag) + int (length (durations tag cs)) \<and>
    index_value [] (call_history_table (record_calls cs t)) tag =
      index_value [] (call_history_table t) tag @ (if tag \<in> detailed_tags t then durations tag cs else [])"
  using record_calls_stat [OF assms] record_calls_history [of tag t cs] record_calls_untracked [of tag t cs]
  by (simp add: index_value_def)

theorem timer_totals_exact_witness:
  "total_us (index_value zero_stat (stat_table (record_calls [(2, ''read'', 5), (0, ''open'', 7), (1, ''read'', 6)] timer_initial)) ''read'') = 11"
  using timer_totals_exact [of timer_initial "''read''" "[(2, ''read'', 5), (0, ''open'', 7), (1, ''read'', 6)]"]
  by (simp add: timer_initial_def zero_stat_def durations_def)

text \<open>
  A reset separates epochs: what is reported for a tag after a reset and a sequence of timed
  sections is the sum, the number and, for tags with detailed logging, the history of exactly these
  sections, whatever had been recorded before.
\<close>

theorem reset_separates_epochs:
  assumes "int (length (durations tag cs)) < 2 ^ 64"
  shows "index_value zero_stat (stat_table (record_calls cs (reset_all_stats t))) tag =
      \<lparr>total_us = (\<Sum>us\<leftarrow>durations tag cs. real_of_int us), calls = int (length (durations tag cs))\<rparr> \<and>
    (tag \<in> detailed_tags t \<longrightarrow>
       index_value [] (call_history_table (record_calls cs (reset_all_stats t))) tag = durations tag cs)"
  using record_calls_stat [of "reset_all_stats t" tag cs] record_calls_history [of tag "reset_all_stats t" cs] assms
  by (simp add: reset_index) (simp add: zero_stat_def)

theorem reset_separates_epochs_witness:
  "index_value zero_stat (stat_table (record_calls [(0, ''read'', 6)]
     (reset_all_stats (record_calls [(2, ''read'', 5)] timer_initial)))) ''read'' = \<lparr>total_us = 6, calls = 1\<rparr>"
  using reset_separates_epochs [of "''read''" "[(0, ''read'', 6)]" "record_calls [(2, ''read'', 5)] timer_initial"]
  by (simp add: durations_def)

end
