(* ===== verification/HVAC_Logging.thy ===== *)
theory HVAC_Logging
  imports HVAC_Prelude
begin

text \<open>
  The logging set-up and the message preformatter (\<open>hvac_logging.c\<close>, \<open>hvac_logging.h\<close>).
  log4c is not part of the repository: the configuration handed to it is the result of
  \<open>hvac_init_logging\<close>, and writing one message is the parameter \<open>sink\<close>, which sees the
  thread-local switch \<open>tl_disable_redirect\<close>.
\<close>

section \<open>Configuration\<close>

definition LOG4C_PRIORITY_FATAL :: int where "LOG4C_PRIORITY_FATAL = 0"
definition LOG4C_PRIORITY_NOTICE :: int where "LOG4C_PRIORITY_NOTICE = 500"
definition LOG4C_PRIORITY_TRACE :: int where "LOG4C_PRIORITY_TRACE = 800"

datatype role = Client_Role | Server_Role

definition log_cat_name :: "role \<Rightarrow> string" where
  "log_cat_name r = (case r of Client_Role \<Rightarrow> ''HVAC_CLIENT'' | Server_Role \<Rightarrow> ''hvac_server'')"

definition log_dir_default :: "role \<Rightarrow> string" where
  "log_dir_default r = ''.''"

definition log_prefix_default :: "role \<Rightarrow> string" where
  "log_prefix_default r =
     (case r of Client_Role \<Rightarrow> ''hvac_intercept_log'' | Server_Role \<Rightarrow> ''hvac_server_log'')"

record log_config =
  log_priority :: int
  log_dir :: string
  log_prefix :: string
  max_file_size :: int
  max_num_files :: int
  log_layout :: string

definition log_level :: "(string \<Rightarrow> string option) \<Rightarrow> int" where
  "log_level env =
     (case env ''HVAC_LOG_LEVEL'' of
        None \<Rightarrow> LOG4C_PRIORITY_NOTICE
      | Some v \<Rightarrow>
          (let level = atoi v in
           if level < LOG4C_PRIORITY_FATAL then LOG4C_PRIORITY_FATAL
           else if level > LOG4C_PRIORITY_TRACE then LOG4C_PRIORITY_TRACE else level))"

text \<open>The name of the log file is printed into a buffer of \<open>strlen(prefix) + 7\<close> bytes.\<close>

definition prefix_and_pid :: "string \<Rightarrow> int \<Rightarrow> string run" where
  "prefix_and_pid param_log_prefix pid =
     (let s = param_log_prefix @ ''.'' @ show_int pid
      in if length s + 1 \<le> length param_log_prefix + 7 then Inr s else Inl Buffer_Overflow)"

text \<open>\<open>rc\<close> is the result of \<open>log4c_init\<close>; without log4c the process goes on without logging.\<close>

definition hvac_init_logging ::
    "(string \<Rightarrow> string option) \<Rightarrow> role \<Rightarrow> int \<Rightarrow> int \<Rightarrow> log_config option run" where
  "hvac_init_logging env role rc pid =
     (if rc \<noteq> 0 then Inr None
      else
        (let dir = (case env ''HVAC_LOG_DIR'' of None \<Rightarrow> log_dir_default role | Some d \<Rightarrow> d);
             prefix = (case env ''HVAC_LOG_PREFIX'' of None \<Rightarrow> log_prefix_default role | Some p \<Rightarrow> p)
         in bind_run (prefix_and_pid prefix pid) (\<lambda>name.
            Inr (Some \<lparr>log_priority = log_level env, log_dir = dir, log_prefix = name,
                       max_file_size = 100 * 1024 * 1024, max_num_files = 10, log_layout = ''dated''\<rparr>))))"

section \<open>Messages\<close>

definition MAX_STR_LEN :: nat where "MAX_STR_LEN = 1024"

definition basename :: "string \<Rightarrow> string" where
  "basename p = rev (takeWhile (\<lambda>c. c \<noteq> CHR ''/'') (rev p))"

definition log_text :: "string \<Rightarrow> int \<Rightarrow> string \<Rightarrow> string" where
  "log_text filename linenum msg =
     ''['' @ basename filename @ '':'' @ show_int linenum @ ''] '' @ take (MAX_STR_LEN - 1) msg"

text \<open>
  The switch is set while log4c writes and cleared afterwards. The first component of the state is
  the switch, the second whatever the sink works on.
\<close>

definition log_preformatter_internal ::
    "(bool \<Rightarrow> int \<Rightarrow> string \<Rightarrow> 'w \<Rightarrow> 'w) \<Rightarrow> int \<Rightarrow> string \<Rightarrow> int \<Rightarrow> string \<Rightarrow> bool \<times> 'w \<Rightarrow> bool \<times> 'w" where
  "log_preformatter_internal sink priority filename linenum msg =
     (\<lambda>(tl, w). (False, sink True priority (log_text filename linenum msg) w))"

text \<open>
  The macros of \<open>hvac_logging.h\<close>. \<open>__FILE__\<close> and \<open>__LINE__\<close> are arguments, and so is the text that
  \<open>strerror(errno)\<close> gives.
\<close>

datatype l4c_level =
  L4C_FATAL | L4C_ALERT | L4C_CRIT | L4C_ERR | L4C_WARN | L4C_NOTICE | L4C_INFO | L4C_DEBUG | L4C_TRACE

fun l4c_priority :: "l4c_level \<Rightarrow> int" where
  "l4c_priority L4C_FATAL = LOG4C_PRIORITY_FATAL"
| "l4c_priority L4C_ALERT = 100"
| "l4c_priority L4C_CRIT = 200"
| "l4c_priority L4C_ERR = 300"
| "l4c_priority L4C_WARN = 400"
| "l4c_priority L4C_NOTICE = LOG4C_PRIORITY_NOTICE"
| "l4c_priority L4C_INFO = 600"
| "l4c_priority L4C_DEBUG = 700"
| "l4c_priority L4C_TRACE = LOG4C_PRIORITY_TRACE"

definition L4C_LOG_AT_PRIORITY ::
    "(bool \<Rightarrow> int \<Rightarrow> string \<Rightarrow> 'w \<Rightarrow> 'w) \<Rightarrow> l4c_level \<Rightarrow> string \<Rightarrow> int \<Rightarrow> string \<Rightarrow> bool \<times> 'w \<Rightarrow> bool \<times> 'w" where
  "L4C_LOG_AT_PRIORITY sink level file line msg = log_preformatter_internal sink (l4c_priority level) file line msg"

definition L4C_PERROR ::
    "(bool \<Rightarrow> int \<Rightarrow> string \<Rightarrow> 'w \<Rightarrow> 'w) \<Rightarrow> string \<Rightarrow> int \<Rightarrow> string \<Rightarrow> string \<Rightarrow> bool \<times> 'w \<Rightarrow> bool \<times> 'w" where
  "L4C_PERROR sink file line msg strerror_errno = L4C_LOG_AT_PRIORITY sink L4C_ERR file line (msg @ '': '' @ strerror_errno)"

section \<open>Lemmas\<close>

text \<open>Every level can be selected by the configuration: its priority is in the range that \<open>log_level\<close> keeps.\<close>

lemma l4c_priority_range: "0 \<le> l4c_priority level \<and> l4c_priority level \<le> 800"
  by (cases level) (simp_all add: LOG4C_PRIORITY_FATAL_def LOG4C_PRIORITY_NOTICE_def LOG4C_PRIORITY_TRACE_def)

text \<open>Any sequence of messages reaches log4c with the redirection off, and leaves it on again.\<close>

lemma l4c_messages:
  "fold (\<lambda>(level, file, line, msg). L4C_LOG_AT_PRIORITY sink level file line msg) ms (False, w) =
     (False, fold (\<lambda>(level, file, line, msg). sink True (l4c_priority level) (log_text file line msg)) ms w)"
  by (induction ms arbitrary: w) (auto simp: L4C_LOG_AT_PRIORITY_def log_preformatter_internal_def)

lemma log_level_range: "0 \<le> log_level env \<and> log_level env \<le> 800"
  by (auto simp: log_level_def LOG4C_PRIORITY_FATAL_def LOG4C_PRIORITY_NOTICE_def LOG4C_PRIORITY_TRACE_def Let_def
      split: option.splits)

lemma show_nat_length: "n < 10 ^ k \<Longrightarrow> 0 < k \<Longrightarrow> length (show_nat n) \<le> k"
proof (induction n arbitrary: k rule: show_nat.induct)
  case (1 n)
  show ?case
  proof (cases "n < 10")
    case True
    with 1 show ?thesis by (subst show_nat.simps) simp
  next
    case False
    with 1(2) have k: "1 < k" by (cases k; cases "k - 1") auto
    then obtain j where j: "k = Suc j" "0 < j" by (cases k) auto
    with 1(2) have "n div 10 < 10 ^ j" by (simp add: less_mult_imp_div_less mult.commute)
    from 1(1) [OF False this j(2)] False j show ?thesis by (subst show_nat.simps) simp
  qed
qed

lemma show_nat_length_ge: "10 ^ k \<le> n \<Longrightarrow> k < length (show_nat n)"
proof (induction k arbitrary: n)
  case 0
  then show ?case using show_nat_nonempty by simp
next
  case (Suc k)
  then have "10 ^ k \<le> n div 10" by (simp add: less_eq_div_iff_mult_less_eq mult.commute)
  moreover have "\<not> n < 10"
  proof -
    have "(10::nat) \<le> 10 ^ Suc k" by simp
    with Suc.prems show ?thesis by linarith
  qed
  ultimately show ?case using Suc.IH by (subst show_nat.simps) simp
qed

lemma prefix_and_pid_fits:
  assumes "0 \<le> pid" and "pid < 100000"
  shows "prefix_and_pid pre pid = Inr (pre @ ''.'' @ show_int pid)"
proof -
  from assms have "length (show_nat (nat pid)) \<le> 5" by (intro show_nat_length) auto
  with assms show ?thesis by (simp add: prefix_and_pid_def show_int_def)
qed

lemma prefix_and_pid_overflows:
  assumes "100000 \<le> pid"
  shows "prefix_and_pid pre pid = Inl Buffer_Overflow"
proof -
  from assms have "5 < length (show_nat (nat pid))" by (intro show_nat_length_ge) auto
  with assms show ?thesis by (simp add: prefix_and_pid_def show_int_def)
qed

section \<open>Properties\<close>

text \<open>
  C32: setting up the log with log4c working never leaves the range of log4c priorities, and it
  succeeds exactly for process ids of at most five digits: the buffer for the file name has no room
  for more, so a larger process id is written past its end.
\<close>

theorem init_logging_pid_bound:
  assumes "0 \<le> pid"
  shows "(case hvac_init_logging env role 0 pid of
       Inl e \<Rightarrow> e = Buffer_Overflow \<and> 100000 \<le> pid
     | Inr cfg \<Rightarrow> pid < 100000 \<and>
         (\<exists>l. cfg = Some l \<and> 0 \<le> log_priority l \<and> log_priority l \<le> 800 \<and>
            (\<exists>prefix. log_prefix l = prefix @ ''.'' @ show_int pid)))"
proof (cases "pid < 100000")
  case True
  then show ?thesis
    using log_level_range [of env]
    by (simp add: hvac_init_logging_def prefix_and_pid_fits [OF assms] Let_def)
next
  case False
  then show ?thesis by (simp add: hvac_init_logging_def prefix_and_pid_overflows Let_def)
qed

theorem init_logging_pid_bound_witness:
  "(case hvac_init_logging Map.empty Server_Role 0 123456 of Inl e \<Rightarrow> e = Buffer_Overflow | Inr cfg \<Rightarrow> False)"
  using init_logging_pid_bound [of 123456 Map.empty Server_Role] by (auto split: sum.splits)

end
