(* ===== verification/HVAC_Client.thy ===== *)
theory HVAC_Client
  imports HVAC_Comm_Client HVAC_Timer HVAC_Logging
begin

text \<open>
  The client library proper (\<open>mthvac_client.cpp\<close>): start-up, the decision which files are
  tracked, and the remote counterparts of read, pread, lseek and close. \<open>std::hash\<close>,
  \<open>std::filesystem::canonical\<close> (\<open>None\<close> where it throws) and \<open>current_path\<close> are fields of
  \<open>client_env\<close>.
\<close>

section \<open>Start-up and shutdown\<close>

definition client_initial :: client where
  "client_initial = \<lparr>fd_map = Map.empty, fd_redir_map = Map.empty, fds = empty_fd_table,
     address_cache = Map.empty, g_hvac_initialized = False, g_mercury_init = False,
     g_disable_redirect = True, tl_disable_redirect = False, g_hvac_server_count = 0,
     hvac_data_dir = None, cl_engine = engine_initial\<rparr>"

text \<open>
  The constructor of the library. \<open>rc\<close> is the result of \<open>log4c_init\<close>, \<open>us\<close> the duration
  that \<open>Initialize_function\<close> records. The logging set-up comes first; a missing
  \<open>HVAC_SERVER_COUNT\<close> ends the process.
\<close>

definition hvac_setup_detailed_logging :: "timer_state \<Rightarrow> timer_state" where
  "hvac_setup_detailed_logging t = enable_detailed_call_logging_for_tag ''CLIENT_hvac_open_rpc_wait_data'' t"

definition Initialize_function :: "int \<Rightarrow> timer_state \<Rightarrow> timer_state" where
  "Initialize_function us t = TimerGuard_end 0 ''Initialize_timer'' us t"

definition hvac_client_init ::
    "'n client_env \<Rightarrow> int \<Rightarrow> int \<Rightarrow> int \<Rightarrow> client \<times> timer_state \<Rightarrow>
     (log_config option \<times> client \<times> timer_state) run" where
  "hvac_client_init E rc pid us = (\<lambda>(c, t).
     if g_hvac_initialized c then Inr (None, c, t)
     else
       bind_run (hvac_init_logging (cl_getenv E) Client_Role rc pid) (\<lambda>log.
       case cl_getenv E ''HVAC_SERVER_COUNT'' of
         None \<Rightarrow> Inl (Exit (-1))
       | Some cnt \<Rightarrow>
           Inr (log,
                c\<lparr>g_hvac_server_count := uint32 (atoi cnt),
                  hvac_data_dir := (case cl_getenv E ''HVAC_DATA_DIR'' of None \<Rightarrow> hvac_data_dir c | Some d \<Rightarrow> Some d),
                  g_hvac_initialized := True,
                  g_disable_redirect := False\<rparr>,
                Initialize_function us (hvac_setup_detailed_logging t))))"

definition hvac_client_shutdown :: "client \<Rightarrow> client" where
  "hvac_client_shutdown c = c\<lparr>cl_engine := hvac_shutdown_comm (cl_engine c)\<rparr>"

section \<open>Tracking\<close>

definition hvac_file_tracked :: "client \<Rightarrow> int \<Rightarrow> bool" where
  "hvac_file_tracked c fd = (fd_map c fd \<noteq> None)"

definition hvac_get_path :: "client \<Rightarrow> int \<Rightarrow> string option" where
  "hvac_get_path c fd = fd_map c fd"

text \<open>\<open>std::hash<std::string>{}(path) % g_hvac_server_count\<close>, stored in an \<open>int\<close>.\<close>

definition host_of :: "'n client_env \<Rightarrow> client \<Rightarrow> string \<Rightarrow> int run" where
  "host_of E c path =
     (if g_hvac_server_count c = 0 then Inl Division_By_Zero
      else Inr (int32 (std_hash E path mod g_hvac_server_count c)))"

text \<open>The path to track, if the file is one: the \<open>try\<close> block, an exception being no tracking.\<close>

definition track_path :: "'n client_env \<Rightarrow> client \<Rightarrow> string \<Rightarrow> string option" where
  "track_path E c path =
     (case canonical E path of
        None \<Rightarrow> None
      | Some p \<Rightarrow>
          (let ppath = path_parent p in
           case hvac_data_dir c of
             Some d \<Rightarrow>
               (case canonical E d of
                  None \<Rightarrow> None
                | Some test \<Rightarrow> if contains_str test ppath then Some p else None)
           | None \<Rightarrow> if ppath = current_path E then Some p else None))"

definition ensure_mercury :: "'n client_env \<Rightarrow> client \<Rightarrow> client run" where
  "ensure_mercury E c =
     (if g_mercury_init c then Inr c
      else bind_run (hvac_init_comm (cl_engine_env E) False (cl_engine c)) (\<lambda>e.
           bind_run (hvac_client_comm_register_rpc (cl_engine_env E) e) (\<lambda>e'.
           Inr (c\<lparr>cl_engine := e', g_mercury_init := True\<rparr>))))"

definition hvac_track_file ::
    "'n client_env \<Rightarrow> string \<Rightarrow> 32 word \<Rightarrow> int \<Rightarrow> 'n \<times> client \<Rightarrow> (bool \<times> 'n \<times> client) run" where
  "hvac_track_file E path flags fd = (\<lambda>(n, c).
     if contains_str ''.ports.cfg.'' path then Inr (False, n, c)
     else if and flags O_ACCMODE = O_WRONLY then Inr (False, n, c)
     else if and flags O_APPEND \<noteq> 0 then Inr (False, n, c)
     else case track_path E c path of
       None \<Rightarrow> Inr (False, n, c)
     | Some p \<Rightarrow>
         bind_run (ensure_mercury E (c\<lparr>fd_map := (fd_map c)(fd \<mapsto> p)\<rparr>)) (\<lambda>c1.
         bind_run (host_of E c1 p) (\<lambda>host.
         bind_run (hvac_client_comm_gen_open_rpc E host p fd (n, c1)) (\<lambda>(open_result, n', c2).
         Inr (\<not> open_result < 0, n', c2)))))"

section \<open>Remote operations\<close>

definition hvac_remote_read ::
    "'n client_env \<Rightarrow> int \<Rightarrow> bool \<Rightarrow> int \<Rightarrow> wakeup list \<Rightarrow> 'n \<times> client \<Rightarrow>
     ((int \<times> byte list) \<times> 'n \<times> client) run" where
  "hvac_remote_read E fd buf_ok count wk = (\<lambda>(n, c).
     case fd_map c fd of
       None \<Rightarrow> Inr ((-1, []), n, c)
     | Some p \<Rightarrow>
         bind_run (host_of E c p) (\<lambda>host.
         hvac_client_comm_gen_read_rpc E host fd buf_ok (int64 count) (-1) wk (n, c)))"

definition hvac_remote_pread ::
    "'n client_env \<Rightarrow> int \<Rightarrow> bool \<Rightarrow> int \<Rightarrow> int \<Rightarrow> wakeup list \<Rightarrow> 'n \<times> client \<Rightarrow>
     ((int \<times> byte list) \<times> 'n \<times> client) run" where
  "hvac_remote_pread E fd buf_ok count offset wk = (\<lambda>(n, c).
     case fd_map c fd of
       None \<Rightarrow> Inr ((-1, []), n, c)
     | Some p \<Rightarrow>
         (let c1 = c\<lparr>fd_redir_map := index_insert 0 (fd_redir_map c) fd\<rparr> in
          if index_value 0 (fd_redir_map c) fd = 0 then Inr ((-1, []), n, c1)
          else bind_run (host_of E c1 p) (\<lambda>host.
               hvac_client_comm_gen_read_rpc E host fd buf_ok (int64 count) offset wk (n, c1))))"

definition hvac_remote_lseek ::
    "'n client_env \<Rightarrow> int \<Rightarrow> int \<Rightarrow> int \<Rightarrow> 'n \<times> client \<Rightarrow> (int \<times> 'n \<times> client) run" where
  "hvac_remote_lseek E fd offset whence = (\<lambda>(n, c).
     case fd_map c fd of
       None \<Rightarrow> Inr (-1, n, c)
     | Some p \<Rightarrow>
         bind_run (host_of E c p) (\<lambda>host. hvac_client_comm_gen_seek_rpc E host fd offset whence (n, c)))"

definition hvac_remote_close :: "'n client_env \<Rightarrow> int \<Rightarrow> 'n \<times> client \<Rightarrow> ('n \<times> client) run" where
  "hvac_remote_close E fd = (\<lambda>(n, c).
     case fd_map c fd of
       None \<Rightarrow> Inr (n, c)
     | Some p \<Rightarrow> bind_run (host_of E c p) (\<lambda>host. hvac_client_comm_gen_close_rpc E host fd (n, c)))"

definition hvac_remove_fd :: "'n client_env \<Rightarrow> int \<Rightarrow> 'n \<times> client \<Rightarrow> (bool \<times> 'n \<times> client) run" where
  "hvac_remove_fd E fd nc =
     bind_run (hvac_remote_close E fd nc) (\<lambda>(n, c).
     Inr (fd_map c fd \<noteq> None, n, c\<lparr>fd_map := (fd_map c)(fd := None)\<rparr>))"

section \<open>The interface for scripts\<close>

text \<open>
  The functions a training script calls through the C interface. \<open>None\<close> stands for a null
  pointer; \<open>is_open\<close> says whether the export file can be opened.
\<close>

definition hvac_trigger_print_all_stats :: "(real \<Rightarrow> string) \<Rightarrow> string list \<Rightarrow> int \<Rightarrow> timer_state \<Rightarrow> string" where
  "hvac_trigger_print_all_stats fmt keys epoch_num t = print_all_stats fmt epoch_num keys t"

definition hvac_trigger_reset_all_stats :: "timer_state \<Rightarrow> timer_state" where
  "hvac_trigger_reset_all_stats t = reset_all_stats t"

definition hvac_client_export_tag_details ::
    "bool \<Rightarrow> string option \<Rightarrow> string option \<Rightarrow> int \<Rightarrow> timer_state \<Rightarrow> (string \<rightharpoonup> string) \<Rightarrow> (string \<rightharpoonup> string)" where
  "hvac_client_export_tag_details is_open tag_name output_filename epoch_num t fs =
     (case (tag_name, output_filename) of
        (Some tag, Some filename) \<Rightarrow> export_tag_call_history_to_file is_open tag filename epoch_num t fs
      | _ \<Rightarrow> fs)"

section \<open>The invariant of the client tables\<close>

text \<open>
  Between two calls: the status table is well formed, no open is in progress, a status belongs to
  a tracked descriptor, a descriptor that is ready has a positive remote descriptor, remote
  descriptors are never negative, and one other than 0 belongs to a tracked descriptor.
\<close>

definition client_inv :: "client \<Rightarrow> bool" where
  "client_inv c \<longleftrightarrow>
     fd_table_wf (fds c) \<and>
     (\<forall>fd. fd_status_of (fds c) fd \<noteq> Some HVAC_FD_OPENING) \<and>
     (\<forall>fd st. fd_status_of (fds c) fd = Some st \<longrightarrow> fd_map c fd \<noteq> None) \<and>
     (\<forall>fd. fd_status_of (fds c) fd = Some HVAC_FD_READY \<longrightarrow> (\<exists>r > 0. fd_redir_map c fd = Some r)) \<and>
     (\<forall>fd r. fd_redir_map c fd = Some r \<longrightarrow> 0 \<le> r) \<and>
     (\<forall>fd r. fd_redir_map c fd = Some r \<longrightarrow> r \<noteq> 0 \<longrightarrow> fd_map c fd \<noteq> None)"

text \<open>What the library needs from its environment to answer at all.\<close>

definition fd_in_range :: "int \<Rightarrow> bool" where
  "fd_in_range fd \<longleftrightarrow> 0 \<le> fd \<and> fd < 2 ^ 31"

section \<open>Lemmas\<close>

named_theorems client_ops "definitions of the client operations"

lemmas [client_ops] = hvac_comm_create_handle_def hvac_comm_free_addr_def hvac_wait_for_operation_def
  new_sync_context_def signal_sync_def hvac_open_cb_def hvac_read_cb_def hvac_seek_cb_def

lemma client_invI:
  assumes "fd_table_wf (fds c)"
    and "\<And>fd st. fd_status_of (fds c) fd = Some st \<Longrightarrow> st \<noteq> HVAC_FD_OPENING \<and> fd_map c fd \<noteq> None"
    and "\<And>fd. fd_status_of (fds c) fd = Some HVAC_FD_READY \<Longrightarrow> \<exists>r > 0. fd_redir_map c fd = Some r"
    and "\<And>fd r. fd_redir_map c fd = Some r \<Longrightarrow> 0 \<le> r \<and> (r = 0 \<or> fd_map c fd \<noteq> None)"
  shows "client_inv c"
  unfolding client_inv_def using assms by blast

lemma client_invD:
  assumes "client_inv c"
  shows "fd_table_wf (fds c)"
    and "fd_status_of (fds c) fd = Some st \<Longrightarrow> st \<noteq> HVAC_FD_OPENING \<and> fd_map c fd \<noteq> None"
    and "fd_status_of (fds c) fd = Some HVAC_FD_READY \<Longrightarrow> \<exists>r > 0. fd_redir_map c fd = Some r"
    and "fd_redir_map c fd = Some r \<Longrightarrow> 0 \<le> r \<and> (r = 0 \<or> fd_map c fd \<noteq> None)"
  using assms unfolding client_inv_def by blast+

lemma client_inv_fields:
  "fds c' = fds c \<Longrightarrow> fd_map c' = fd_map c \<Longrightarrow> fd_redir_map c' = fd_redir_map c \<Longrightarrow> client_inv c' = client_inv c"
  by (simp add: client_inv_def)

lemma lookup_server_frame:
  assumes "lookup_server E rank c = Inr (a, c')"
  shows "\<exists>cache. c' = c\<lparr>address_cache := cache\<rparr>"
  using assms by (auto simp: lookup_server_def bind_run_eq_Inr)

lemma fd_key: "fd_in_range fd \<Longrightarrow> int32 (uint32 fd) = fd"
  by (simp add: fd_in_range_def int32_id)

text \<open>What a finished open leaves in the tables.\<close>

lemma gen_open_result:
  assumes g: "hvac_client_comm_gen_open_rpc E h p fd (n, c) = Inr (r, n', c')" and fd: "fd_in_range fd"
  shows "\<exists>cache. c' = (if r > 0
      then c\<lparr>address_cache := cache, fd_redir_map := (fd_redir_map c)(fd \<mapsto> r),
             fds := hvac_set_fd_ready fd (hvac_set_fd_opening fd (fds c))\<rparr>
      else c\<lparr>address_cache := cache, fds := hvac_set_fd_error fd (hvac_set_fd_opening fd (fds c))\<rparr>)"
proof -
  let ?c0 = "c\<lparr>fds := hvac_set_fd_opening fd (fds c)\<rparr>"
  from g obtain a c1 where l: "lookup_server E h ?c0 = Inr (a, c1)"
    by (auto simp: hvac_client_comm_gen_open_rpc_def bind_run_eq_Inr)
  from lookup_server_frame [OF l] obtain cache where c1: "c1 = ?c0\<lparr>address_cache := cache\<rparr>" by blast
  obtain d n1 where d: "fwd_open E n a \<lparr>open_path = p\<rparr> = (d, n1)" by (metis surj_pair)
  show ?thesis
    using g fd_key [OF fd]
    by (cases d; intro exI [of _ cache])
      (auto simp: hvac_client_comm_gen_open_rpc_def l d c1 client_ops assert_run_eq_Inr Let_def
        split: if_splits)
qed

lemma ensure_mercury_frame:
  "ensure_mercury E c = Inr c' \<Longrightarrow> \<exists>e b. c' = c\<lparr>cl_engine := e, g_mercury_init := b\<rparr>"
  by (cases c) (auto simp: ensure_mercury_def bind_run_eq_Inr split: if_splits)

lemma track_file_tracked:
  assumes t: "hvac_track_file E path flags fd (n, c) = Inr (b, n', c')"
    and p: "track_path E c path = Some p"
    and "\<not> contains_str ''.ports.cfg.'' path" "and flags O_ACCMODE \<noteq> O_WRONLY" "and flags O_APPEND = 0"
  obtains host c1 r e m where
    "c1 = c\<lparr>fd_map := (fd_map c)(fd \<mapsto> p), cl_engine := e, g_mercury_init := m\<rparr>"
    and "host_of E c1 p = Inr host"
    and "hvac_client_comm_gen_open_rpc E host p fd (n, c1) = Inr (r, n', c')" and "b = (\<not> r < 0)"
proof -
  from assms obtain c1 host r where m: "ensure_mercury E (c\<lparr>fd_map := (fd_map c)(fd \<mapsto> p)\<rparr>) = Inr c1"
    and h: "host_of E c1 p = Inr host"
    and g: "hvac_client_comm_gen_open_rpc E host p fd (n, c1) = Inr (r, n', c')" and b: "b = (\<not> r < 0)"
    by (auto simp: hvac_track_file_def bind_run_eq_Inr)
  from ensure_mercury_frame [OF m] obtain e mi where
    "c1 = c\<lparr>fd_map := (fd_map c)(fd \<mapsto> p), cl_engine := e, g_mercury_init := mi\<rparr>" by auto
  with that h g b show thesis by blast
qed

lemma track_file_cases:
  assumes "hvac_track_file E path flags fd (n, c) = Inr (b, n', c')"
  obtains (skipped) "\<not> b" "n' = n" "c' = c"
    | (tracked) p where "track_path E c path = Some p" "\<not> contains_str ''.ports.cfg.'' path"
        "and flags O_ACCMODE \<noteq> O_WRONLY" "and flags O_APPEND = 0"
  using assms by (auto simp: hvac_track_file_def split: if_splits option.splits)

lemma client_inv_open_result:
  assumes inv: "client_inv c" and m: "fd_map c1 = (fd_map c)(fd \<mapsto> p)"
    "fd_redir_map c1 = fd_redir_map c" "fds c1 = fds c"
  shows "r > 0 \<Longrightarrow> client_inv (c1\<lparr>address_cache := cache, fd_redir_map := (fd_redir_map c1)(fd \<mapsto> r),
             fds := hvac_set_fd_ready fd (hvac_set_fd_opening fd (fds c1))\<rparr>)"
    and "client_inv (c1\<lparr>address_cache := cache, fds := hvac_set_fd_error fd (hvac_set_fd_opening fd (fds c1))\<rparr>)"
proof -
  note I = client_invD [OF inv]
  note S = ft.open_succeeds [OF I(1)] ft.open_fails [OF I(1)]
  have wf: "fd_table_wf (hvac_set_fd_ready fd (hvac_set_fd_opening fd (fds c)))"
    "fd_table_wf (hvac_set_fd_error fd (hvac_set_fd_opening fd (fds c)))"
    by (simp_all add: ft.invar_ready ft.invar_error ft.invar_opening I(1))
  show "client_inv (c1\<lparr>address_cache := cache, fd_redir_map := (fd_redir_map c1)(fd \<mapsto> r),
             fds := hvac_set_fd_ready fd (hvac_set_fd_opening fd (fds c1))\<rparr>)" if "r > 0"
    using that I(2-4) by (intro client_invI) (auto simp: m wf(1) S(1) split: if_splits)
  show "client_inv (c1\<lparr>address_cache := cache, fds := hvac_set_fd_error fd (hvac_set_fd_opening fd (fds c1))\<rparr>)"
    using I(2-4) by (intro client_invI) (auto simp: m wf(2) S(2) split: if_splits)
qed

lemma track_file_inv:
  assumes inv: "client_inv c" and t: "hvac_track_file E path flags fd (n, c) = Inr (b, n', c')"
    and fd: "fd_in_range fd"
  shows "client_inv c'"
  using t
proof (cases rule: track_file_cases)
  case skipped
  with inv show ?thesis by simp
next
  case (tracked p)
  with t obtain host c1 r e m where c1: "c1 = c\<lparr>fd_map := (fd_map c)(fd \<mapsto> p), cl_engine := e, g_mercury_init := m\<rparr>"
    and g: "hvac_client_comm_gen_open_rpc E host p fd (n, c1) = Inr (r, n', c')"
    using track_file_tracked [OF t] by metis
  from gen_open_result [OF g fd] show ?thesis
    using client_inv_open_result [OF inv, of c1 fd p] by (auto simp: c1 split: if_splits)
qed

text \<open>Reads: a descriptor that is not ready is refused, and the wait never blocks.\<close>

lemma wait_under_inv:
  assumes "client_inv c"
  shows "hvac_wait_fd_ready fd wk (fds c) = Inr (fd_status_of (fds c) fd = Some HVAC_FD_READY, fds c)"
proof (cases "fd_status_of (fds c) fd")
  case None
  with hvac_wait_unknown [OF client_invD(1) [OF assms] None] show ?thesis by simp
next
  case (Some st)
  with client_invD(2) [OF assms] have "st \<noteq> HVAC_FD_OPENING" by blast
  with hvac_wait_settled [OF client_invD(1) [OF assms] Some] Some show ?thesis by simp
qed

lemma gen_read_not_ready:
  assumes "client_inv c" and "fd_status_of (fds c) fd \<noteq> Some HVAC_FD_READY"
  shows "hvac_client_comm_gen_read_rpc E h fd buf_ok count off wk (n, c) = Inr ((-1, []), n, c)"
  using assms by (simp add: hvac_client_comm_gen_read_rpc_def wait_under_inv)

lemma gen_read_frame:
  assumes inv: "client_inv c"
    and g: "hvac_client_comm_gen_read_rpc E h fd buf_ok count off wk (n, c) = Inr (res, n', c')"
  shows "\<exists>cache. c' = c\<lparr>address_cache := cache\<rparr>"
proof (cases "fd_status_of (fds c) fd = Some HVAC_FD_READY")
  case False
  with inv g have "c' = c" by (simp add: gen_read_not_ready)
  then show ?thesis by (intro exI [of _ "address_cache c"]) simp
next
  case True
  with client_invD(3) [OF inv] obtain r where r: "fd_redir_map c fd = Some r" "r > 0" by blast
  with g inv True obtain a c1 where l: "lookup_server E h c = Inr (a, c1)"
    by (auto simp: hvac_client_comm_gen_read_rpc_def wait_under_inv bind_run_eq_Inr Let_def)
  obtain d n1 where d: "fwd_read E n a \<lparr>input_val = int32 count, bulk_size = uint64 count, accessfd = r,
      rpc_offset = off\<rparr> = (d, n1)" by (metis surj_pair)
  have "c' = c1"
    using g inv True r
    by (cases d) (auto simp: hvac_client_comm_gen_read_rpc_def wait_under_inv l d client_ops assert_run_eq_Inr)
  with lookup_server_frame [OF l] show ?thesis by simp
qed

lemma client_inv_address_cache [simp]: "client_inv (c\<lparr>address_cache := a\<rparr>) = client_inv c"
  by (simp add: client_inv_def)

lemma client_inv_index_insert:
  assumes "client_inv c"
  shows "client_inv (c\<lparr>fd_redir_map := index_insert 0 (fd_redir_map c) fd\<rparr>)"
  using client_invD [OF assms]
  by (intro client_invI) (fastforce simp: index_insert_def split: option.splits if_splits)+

lemma remote_read_inv:
  assumes "client_inv c" and "hvac_remote_read E fd buf_ok count wk (n, c) = Inr (res, n', c')"
  shows "client_inv c' \<and> fd_map c' = fd_map c"
  using assms
  by (auto simp: hvac_remote_read_def bind_run_eq_Inr split: option.splits dest!: gen_read_frame [OF assms(1)])

lemma remote_pread_inv:
  assumes "client_inv c" and "hvac_remote_pread E fd buf_ok count off wk (n, c) = Inr (res, n', c')"
  shows "client_inv c' \<and> fd_map c' = fd_map c"
proof -
  note inv = client_inv_index_insert [OF assms(1), of fd]
  show ?thesis
    using assms(2) inv assms(1)
    by (auto simp: hvac_remote_pread_def bind_run_eq_Inr Let_def split: option.splits if_splits
        dest!: gen_read_frame [OF inv] simp: client_inv_def)
qed

lemma gen_seek_frame:
  assumes "hvac_client_comm_gen_seek_rpc E h fd off w (n, c) = Inr (r, n', c')"
  shows "\<exists>cache. c' = c\<lparr>address_cache := cache, fd_redir_map := index_insert 0 (fd_redir_map c) fd\<rparr>"
proof -
  from assms obtain a c1 where l: "lookup_server E h c = Inr (a, c1)"
    by (auto simp: hvac_client_comm_gen_seek_rpc_def bind_run_eq_Inr)
  from lookup_server_frame [OF l] obtain cache where c1: "c1 = c\<lparr>address_cache := cache\<rparr>" by blast
  obtain d n1 where d: "fwd_seek E n a \<lparr>seek_fd = index_value 0 (fd_redir_map c) fd, seek_offset = off,
      seek_whence = w\<rparr> = (d, n1)" by (metis surj_pair)
  show ?thesis
    using assms
    by (cases d; intro exI [of _ cache])
      (auto simp: hvac_client_comm_gen_seek_rpc_def l d c1 client_ops assert_run_eq_Inr)
qed

lemma remote_lseek_inv:
  assumes "client_inv c" and "hvac_remote_lseek E fd off w (n, c) = Inr (r, n', c')"
  shows "client_inv c' \<and> fd_map c' = fd_map c"
  using assms client_inv_index_insert [OF assms(1), of fd]
  by (auto simp: hvac_remote_lseek_def bind_run_eq_Inr split: option.splits
      dest!: gen_seek_frame simp: client_inv_def)

lemma gen_close_frame:
  assumes "hvac_client_comm_gen_close_rpc E h fd (n, c) = Inr (n', c')"
  shows "\<exists>cache. c' = c\<lparr>address_cache := cache,
      fd_redir_map := (if fd_redir_map c fd = Some 0 then fd_redir_map c else (fd_redir_map c)(fd := None)),
      fds := hvac_cleanup_fd_state fd (fds c)\<rparr>"
proof -
  from assms obtain a c1 where l: "lookup_server E h c = Inr (a, c1)"
    by (auto simp: hvac_client_comm_gen_close_rpc_def bind_run_eq_Inr)
  from lookup_server_frame [OF l] obtain cache where c1: "c1 = c\<lparr>address_cache := cache\<rparr>" by blast
  show ?thesis
    using assms
    by (cases "fd_redir_map c fd"; intro exI [of _ cache])
      (auto simp: hvac_client_comm_gen_close_rpc_def l c1 client_ops assert_run_eq_Inr Let_def
        fun_upd_idem split: if_splits prod.splits)
qed

lemma remove_fd_result:
  assumes "hvac_remove_fd E fd (n, c) = Inr (b, n', c')" and "fd_map c fd \<noteq> None"
  shows "\<exists>cache. b \<and> c' = c\<lparr>fd_map := (fd_map c)(fd := None), address_cache := cache,
      fd_redir_map := (if fd_redir_map c fd = Some 0 then fd_redir_map c else (fd_redir_map c)(fd := None)),
      fds := hvac_cleanup_fd_state fd (fds c)\<rparr>"
proof -
  from assms obtain h c1 where g: "hvac_client_comm_gen_close_rpc E h fd (n, c) = Inr (n', c1)"
    and c': "c' = c1\<lparr>fd_map := (fd_map c1)(fd := None)\<rparr>" "b = (fd_map c1 fd \<noteq> None)"
    by (auto simp: hvac_remove_fd_def hvac_remote_close_def bind_run_eq_Inr split: option.splits)
  from gen_close_frame [OF g] obtain cache where c1: "c1 = c\<lparr>address_cache := cache,
      fd_redir_map := (if fd_redir_map c fd = Some 0 then fd_redir_map c else (fd_redir_map c)(fd := None)),
      fds := hvac_cleanup_fd_state fd (fds c)\<rparr>" by blast
  with c' assms(2) show ?thesis by (intro exI [of _ cache]) (simp add: c1)
qed

lemma remove_fd_inv:
  assumes inv: "client_inv c" and r: "hvac_remove_fd E fd (n, c) = Inr (b, n', c')"
  shows "client_inv c'"
proof (cases "fd_map c fd")
  case None
  with r have "c' = c\<lparr>fd_map := (fd_map c)(fd := None)\<rparr>"
    by (auto simp: hvac_remove_fd_def hvac_remote_close_def)
  with None inv show ?thesis by (simp add: fun_upd_idem)
next
  case (Some p)
  with remove_fd_result [OF r] obtain cache where c': "c' = c\<lparr>fd_map := (fd_map c)(fd := None), address_cache := cache,
      fd_redir_map := (if fd_redir_map c fd = Some 0 then fd_redir_map c else (fd_redir_map c)(fd := None)),
      fds := hvac_cleanup_fd_state fd (fds c)\<rparr>" by auto
  note I = client_invD [OF inv]
  show ?thesis
    unfolding c' using I(2-4)
    by (intro client_invI) (auto simp: ft.status_cleanup I(1) ft.invar_cleanup split: if_splits)
qed

section \<open>Runs of the client library\<close>

text \<open>
  One call of the library by the application, or a change of the network and the servers that the
  client does not cause.
\<close>

inductive client_step :: "'n client_env \<Rightarrow> 'n \<times> client \<Rightarrow> 'n \<times> client \<Rightarrow> bool" for E where
  do_init: "hvac_client_init E rc pid us (c, t) = Inr (lg, c', t') \<Longrightarrow> client_step E (n, c) (n, c')"
| do_track: "hvac_track_file E path flags fd (n, c) = Inr (b, n', c') \<Longrightarrow> fd_in_range fd \<Longrightarrow>
    client_step E (n, c) (n', c')"
| do_read: "hvac_remote_read E fd buf_ok count wk (n, c) = Inr (r, n', c') \<Longrightarrow> client_step E (n, c) (n', c')"
| do_pread: "hvac_remote_pread E fd buf_ok count off wk (n, c) = Inr (r, n', c') \<Longrightarrow> client_step E (n, c) (n', c')"
| do_lseek: "hvac_remote_lseek E fd loff whence (n, c) = Inr (pos, n', c') \<Longrightarrow> client_step E (n, c) (n', c')"
| do_remove: "hvac_remove_fd E fd (n, c) = Inr (b, n', c') \<Longrightarrow> client_step E (n, c) (n', c')"
| network: "client_step E (n, c) (n', c)"

lemma client_init_inv:
  assumes "client_inv c" and "hvac_client_init E rc pid us (c, t) = Inr (lg, c', t')"
  shows "client_inv c'"
  using assms by (auto simp: hvac_client_init_def bind_run_eq_Inr client_inv_def split: if_splits option.splits)

lemma client_step_inv: "client_step E x y \<Longrightarrow> client_inv (snd x) \<Longrightarrow> client_inv (snd y)"
  by (induction rule: client_step.induct)
    (auto dest: client_init_inv track_file_inv remote_read_inv remote_pread_inv remote_lseek_inv remove_fd_inv)

lemma client_initial_inv: "client_inv client_initial"
  by (simp add: client_inv_def client_initial_def fd_table_wf_def fd_status_of_def empty_fd_table_def)

lemma track_file_skip:
  assumes "contains_str ''.ports.cfg.'' path \<or> and flags O_ACCMODE = O_WRONLY \<or> and flags O_APPEND \<noteq> 0 \<or>
    track_path E c path = None"
  shows "hvac_track_file E path flags fd (n, c) = Inr (False, n, c)"
  using assms by (auto simp: hvac_track_file_def)

lemma track_path_iff:
  assumes "hvac_data_dir c = Some d" and "canonical E d = Some dir"
  shows "track_path E c path \<noteq> None \<longleftrightarrow>
    (\<exists>p before after. canonical E path = Some p \<and> path_parent p = before @ dir @ after)"
proof (cases "canonical E path")
  case None
  then show ?thesis by (simp add: track_path_def)
next
  case (Some p)
  with assms have "track_path E c path \<noteq> None \<longleftrightarrow> contains_str dir (path_parent p)" by (simp add: track_path_def)
  then show ?thesis using Some by (simp add: contains_str_iff)
qed

lemma track_file_map:
  assumes t: "hvac_track_file E path flags fd (n, c) = Inr (b, n', c')" and p: "track_path E c path = Some p"
    and g: "\<not> contains_str ''.ports.cfg.'' path" "and flags O_ACCMODE \<noteq> O_WRONLY" "and flags O_APPEND = 0"
    and fd: "fd_in_range fd" and inv: "client_inv c"
  obtains "b" "fd_map c' fd = Some p"
    | "\<not> b" "fd_map c' fd = Some p" "fd_status_of (fds c') fd = Some HVAC_FD_ERROR" "g_hvac_server_count c' \<noteq> 0"
proof -
  from track_file_tracked [OF t p g] obtain host c1 r e m where
    c1: "c1 = c\<lparr>fd_map := (fd_map c)(fd \<mapsto> p), cl_engine := e, g_mercury_init := m\<rparr>"
    and h: "host_of E c1 p = Inr host"
    and o: "hvac_client_comm_gen_open_rpc E host p fd (n, c1) = Inr (r, n', c')" and b: "b = (\<not> r < 0)" by metis
  have wf: "fd_table_wf (fds c1)" using client_invD(1) [OF inv] by (simp add: c1)
  from gen_open_result [OF o fd] have "fd_map c' fd = Some p" "g_hvac_server_count c' \<noteq> 0"
    using h by (auto simp: c1 host_of_def split: if_splits)
  moreover have "fd_status_of (fds c') fd = Some HVAC_FD_ERROR" if "r < 0"
    using gen_open_result [OF o fd] that ft.open_fails [OF wf, of fd] by auto
  ultimately show thesis using that b by (cases "r < 0") auto
qed

section \<open>Properties\<close>

text \<open>
  C11: the tables of the client stay consistent through any sequence of calls, from the moment the
  library is loaded and whatever the network answers: between two calls no descriptor is left
  opening, only tracked descriptors have a state, a ready descriptor has a positive remote descriptor,
  and remote descriptors other than 0 belong to tracked descriptors.
\<close>

theorem client_tables_consistent:
  assumes "(client_step E)\<^sup>*\<^sup>* (n, client_initial) (n', c)"
  shows "client_inv c"
proof -
  have "client_inv (snd (n', c))"
    using assms by (induction rule: rtranclp_induct) (auto simp: client_initial_inv dest: client_step_inv)
  then show ?thesis by simp
qed

text \<open>
  Between calls the wait inside a remote read never blocks: its result does not depend on any
  wake-up, and a descriptor that is not ready is refused at once, without a word to the network.
\<close>

theorem remote_read_never_waits:
  assumes "client_inv c"
  shows "hvac_remote_read E fd buf_ok count wk (n, c) = hvac_remote_read E fd buf_ok count [] (n, c) \<and>
    hvac_remote_pread E fd buf_ok count off wk (n, c) = hvac_remote_pread E fd buf_ok count off [] (n, c) \<and>
    (fd_status_of (fds c) fd \<noteq> Some HVAC_FD_READY \<longrightarrow>
       hvac_remote_read E fd buf_ok count wk (n, c) \<in> {Inr ((-1, []), n, c), Inl Division_By_Zero})"
  using wait_under_inv [OF assms] wait_under_inv [OF client_inv_index_insert [OF assms]]
  by (auto simp: hvac_remote_read_def hvac_remote_pread_def hvac_client_comm_gen_read_rpc_def host_of_def Let_def
      split: option.splits)

text \<open>
  C24: removing a descriptor reports whether it was tracked and leaves no trace of it: no path, no
  state, no remote descriptor (other than the harmless 0), while every other descriptor keeps its own.
\<close>

theorem remove_fd_forgets:
  assumes "client_inv c" and "hvac_remove_fd E fd (n, c) = Inr (b, n', c')"
  shows "b = hvac_file_tracked c fd \<and> \<not> hvac_file_tracked c' fd \<and> fd_status_of (fds c') fd = None \<and>
    fd_redir_map c' fd \<in> {None, Some 0} \<and>
    (\<forall>x. x \<noteq> fd \<longrightarrow> fd_map c' x = fd_map c x \<and> fd_status_of (fds c') x = fd_status_of (fds c) x \<and>
       fd_redir_map c' x = fd_redir_map c x)"
proof (cases "fd_map c fd")
  case None
  with assms(2) have c': "c' = c\<lparr>fd_map := (fd_map c)(fd := None)\<rparr>" "\<not> b"
    by (auto simp: hvac_remove_fd_def hvac_remote_close_def)
  moreover have "fd_status_of (fds c) fd = None"
    using client_invD(2) [OF assms(1), of fd] None by (cases "fd_status_of (fds c) fd") auto
  moreover have "fd_redir_map c fd \<in> {None, Some 0}"
    using client_invD(4) [OF assms(1), of fd] None by (cases "fd_redir_map c fd") auto
  ultimately show ?thesis using None by (simp add: hvac_file_tracked_def)
next
  case (Some p)
  with remove_fd_result [OF assms(2)] obtain cache where "b" and
    "c' = c\<lparr>fd_map := (fd_map c)(fd := None), address_cache := cache,
      fd_redir_map := (if fd_redir_map c fd = Some 0 then fd_redir_map c else (fd_redir_map c)(fd := None)),
      fds := hvac_cleanup_fd_state fd (fds c)\<rparr>" by auto
  with Some show ?thesis
    by (auto simp: hvac_file_tracked_def ft.status_cleanup [OF client_invD(1) [OF assms(1)]])
qed

text \<open>
  C39: when the remote open fails, \<open>hvac_track_file\<close> answers false and yet the descriptor stays
  tracked, in the error state; every later read of it is refused by the remote side without a request.
\<close>

theorem failed_open_stays_tracked:
  assumes "client_inv c" and "fd_in_range fd" and "hvac_track_file E path flags fd (n, c) = Inr (False, n', c')"
    and "track_path E c path = Some p" and "\<not> contains_str ''.ports.cfg.'' path"
    and "and flags O_ACCMODE \<noteq> O_WRONLY" and "and flags O_APPEND = 0"
  shows "hvac_file_tracked c' fd \<and> fd_status_of (fds c') fd = Some HVAC_FD_ERROR \<and>
    hvac_remote_read E fd buf_ok count wk (n', c') = Inr ((-1, []), n', c')"
  using assms(3-7,2,1)
proof (cases rule: track_file_map)
  case 1
  then show ?thesis by simp
next
  case 2
  from track_file_inv [OF assms(1,3,2)] have "client_inv c'" .
  with 2 show ?thesis
    by (simp add: hvac_file_tracked_def hvac_remote_read_def host_of_def gen_read_not_ready)
qed

text \<open>
  C26: which files are tracked. With a data directory set, a descriptor becomes tracked exactly if
  the path is not that of an address file, the flags are neither write-only nor append, and the
  canonical name of the data directory occurs somewhere in the canonical name of the file's directory.
\<close>

theorem tracked_iff_directory_occurs:
  assumes "hvac_track_file E path flags fd (n, c) = Inr (b, n', c')" and "\<not> hvac_file_tracked c fd"
    and "hvac_data_dir c = Some d" and "canonical E d = Some dir" and "client_inv c" and "fd_in_range fd"
  shows "hvac_file_tracked c' fd \<longleftrightarrow>
    \<not> contains_str ''.ports.cfg.'' path \<and> and flags O_ACCMODE \<noteq> O_WRONLY \<and> and flags O_APPEND = 0 \<and>
    (\<exists>p before after. canonical E path = Some p \<and> path_parent p = before @ dir @ after)"
proof -
  let ?skip = "contains_str ''.ports.cfg.'' path \<or> and flags O_ACCMODE = O_WRONLY \<or> and flags O_APPEND \<noteq> 0"
  note iff = track_path_iff [OF assms(3,4), of path]
  show ?thesis
  proof (cases "?skip \<or> track_path E c path = None")
    case True
    with track_file_skip [of path flags E c fd n] assms(1) have "c' = c" by auto
    with True assms(2) iff show ?thesis by auto
  next
    case False
    then obtain p where p: "track_path E c path = Some p" by auto
    have "hvac_file_tracked c' fd"
      by (rule track_file_map [OF assms(1) p _ _ _ assms(6,5)]) (use False in \<open>auto simp: hvac_file_tracked_def\<close>)
    with False iff show ?thesis by auto
  qed
qed

text \<open>
  The hash spreads paths over the servers: the rank a path is sent to is one of
  \<open>0 .. HVAC_SERVER_COUNT - 1\<close>, the same for every call with that path; with a count of 0 the
  process divides by zero.
\<close>

theorem host_in_range:
  assumes "0 \<le> g_hvac_server_count c" and "g_hvac_server_count c \<le> 2 ^ 31"
  shows "(case host_of E c path of
       Inl e \<Rightarrow> e = Division_By_Zero \<and> g_hvac_server_count c = 0
     | Inr host \<Rightarrow> 0 \<le> host \<and> host < g_hvac_server_count c \<and> host = std_hash E path mod g_hvac_server_count c)"
proof (cases "g_hvac_server_count c = 0")
  case True
  then show ?thesis by (simp add: host_of_def)
next
  case False
  with assms have "0 \<le> std_hash E path mod g_hvac_server_count c"
    "std_hash E path mod g_hvac_server_count c < g_hvac_server_count c" by simp_all
  with assms False show ?thesis by (simp add: host_of_def int32_id)
qed

text \<open>
  Loading the library. With \<open>HVAC_SERVER_COUNT\<close> set to the decimal text of a count and a
  process id the log can carry, the constructor takes over exactly that count and the data directory
  of the environment, enables redirection and records its own test timing; a second run of it changes
  nothing. Without the variable the process exits with -1, and no state is produced.
\<close>

theorem client_init_outcome:
  assumes "\<not> g_hvac_initialized c" and "rc = 0" and "0 \<le> pid" and "pid < 100000"
    and "cl_getenv E ''HVAC_DATA_DIR'' = Some dir"
    and "cl_getenv E ''HVAC_SERVER_COUNT'' = map_option show_int count"
    and "\<And>k. count = Some k \<Longrightarrow> 0 \<le> k \<and> k < 2 ^ 31"
  shows "(case hvac_client_init E rc pid us (c, t) of
       Inl e \<Rightarrow> count = None \<and> e = Exit (-1)
     | Inr (lg, c', t') \<Rightarrow> count = Some (g_hvac_server_count c') \<and> hvac_data_dir c' = Some dir \<and>
         \<not> g_disable_redirect c' \<and> lg \<noteq> None \<and> stat_table t' ''Initialize_timer'' \<noteq> None \<and>
         hvac_client_init E rc pid us (c', t') = Inr (None, c', t'))"
proof (cases count)
  case None
  then show ?thesis
    using assms(1-6) by (simp add: hvac_client_init_def hvac_init_logging_def prefix_and_pid_fits Let_def)
next
  case (Some k)
  with assms(7) have "uint32 (atoi (show_int k)) = k" by (simp add: atoi_show_int uint32_id)
  then show ?thesis
    using assms(1-6) Some
    by (simp add: hvac_client_init_def hvac_init_logging_def prefix_and_pid_fits Let_def Initialize_function_def
        TimerGuard_end_stat)
qed

section \<open>Sample client\<close>

text \<open>One server, its address posted, and a network that answers every open with \<open>status\<close>.\<close>

definition sample_getenv :: "string \<Rightarrow> string option" where
  "sample_getenv = [''SLURM_JOBID'' \<mapsto> ''17'', ''SLURM_PROCID'' \<mapsto> ''1'', ''HVAC_SERVER_COUNT'' \<mapsto> ''1'',
     ''HVAC_DATA_DIR'' \<mapsto> ''/data'']"

definition sample_env :: "int \<Rightarrow> 'n client_env" where
  "sample_env status =
     \<lparr>cl_getenv = sample_getenv, cl_files = [''./.ports.cfg.17'' \<mapsto> ports_text [(0, ''tcp:a'')]],
      cl_engine_env = \<lparr>eng_getenv = sample_getenv, hg_init_ok = True, hg_context_ok = True, pthread_ok = True,
        disable_response_ret = 0\<rparr>,
      std_hash = (\<lambda>p. 42), canonical = Some, current_path = ''/home'',
      hg_create = (\<lambda>a. 0), hg_addr_free = (\<lambda>a. 0), cl_get_info = True, cl_bulk_create = (\<lambda>n. 0), cb_cleanup_ok = True,
      fwd_open = (\<lambda>n a i. (Completes 0 \<lparr>open_ret_status = status\<rparr>, n)),
      fwd_read = (\<lambda>n a i. (Forward_Error 1, n)), fwd_seek = (\<lambda>n a i. (Forward_Error 1, n)),
      fwd_close = (\<lambda>n a i. (0, n)), fwd_stats = (\<lambda>n a i. (0, n))\<rparr>"

definition sample_client :: client where
  "sample_client = client_initial\<lparr>g_hvac_server_count := 1, hvac_data_dir := Some ''/data'',
     g_hvac_initialized := True, g_disable_redirect := False\<rparr>"

lemma sample_client_inv: "client_inv sample_client"
  using client_initial_inv by (simp add: sample_client_def client_inv_def)

lemma sample_find_rank: "find_rank 0 (ports_text [(0, ''tcp:a'')]) = Inr (Some ''tcp:a'')"
  using find_rank_ports_text [of "[(0, ''tcp:a'')]" 0] sample_entries(1) by simp

lemma sample_lookup:
  "address_cache c = Map.empty \<Longrightarrow>
     lookup_server (sample_env status) 0 c = Inr (Some ''tcp:a'', c\<lparr>address_cache := [0 \<mapsto> ''tcp:a'']\<rparr>)"
  by (simp add: lookup_server_def sample_env_def hvac_client_comm_lookup_addr_def ports_filename_def sample_getenv_def
      PATH_MAX_def sample_find_rank int32_id)

text \<open>The state before the open request and after it: what the callback does with \<open>status\<close>.\<close>

definition sample_opening :: "string \<Rightarrow> client" where
  "sample_opening p = sample_client\<lparr>fd_map := [5 \<mapsto> p], g_mercury_init := True,
     cl_engine := projr (bind_run (hvac_init_comm (cl_engine_env (sample_env 0 :: unit client_env)) False engine_initial)
       (hvac_client_comm_register_rpc (cl_engine_env (sample_env 0 :: unit client_env))))\<rparr>"

definition sample_tracked :: "string \<Rightarrow> int \<Rightarrow> client" where
  "sample_tracked p status =
     (if status > 0
      then (sample_opening p)\<lparr>address_cache := [0 \<mapsto> ''tcp:a''], fd_redir_map := [5 \<mapsto> status],
             fds := hvac_set_fd_ready 5 (hvac_set_fd_opening 5 empty_fd_table)\<rparr>
      else (sample_opening p)\<lparr>address_cache := [0 \<mapsto> ''tcp:a''],
             fds := hvac_set_fd_error 5 (hvac_set_fd_opening 5 empty_fd_table)\<rparr>)"

lemma sample_ensure:
  "ensure_mercury (sample_env status) (sample_client\<lparr>fd_map := [5 \<mapsto> p]\<rparr>) = Inr (sample_opening p)"
  by (simp add: ensure_mercury_def sample_client_def client_initial_def hvac_init_comm_def sample_env_def
      sample_getenv_def hvac_client_comm_register_rpc_def hvac_close_rpc_register_def Let_def sample_opening_def)

lemma sample_host: "host_of (sample_env status) (sample_opening p) q = Inr 0"
  by (simp add: host_of_def sample_opening_def sample_client_def sample_env_def int32_id)

lemma sample_opening_fields [simp]:
  "fds (sample_opening p) = empty_fd_table" "fd_redir_map (sample_opening p) = Map.empty"
  "address_cache (sample_opening p) = Map.empty" "fd_map (sample_opening p) = [5 \<mapsto> p]"
  "g_hvac_server_count (sample_opening p) = 1"
  by (simp_all add: sample_opening_def sample_client_def client_initial_def)

lemma sample_env_fields [simp]:
  "hg_create (sample_env status) a = 0" "hg_addr_free (sample_env status) a = 0"
  "fwd_open (sample_env status) n a i = (Completes 0 \<lparr>open_ret_status = status\<rparr>, n)"
  "canonical (sample_env status) = Some"
  by (simp_all add: sample_env_def)

lemma sample_gen_open:
  "hvac_client_comm_gen_open_rpc (sample_env status) 0 p 5 (n, sample_opening p) = Inr (status, n, sample_tracked p status)"
  by (simp add: hvac_client_comm_gen_open_rpc_def sample_lookup client_ops HG_SUCCESS_def int32_id Let_def
      sample_tracked_def)

lemma sample_track_path:
  "contains_str ''/data'' (path_parent p) \<Longrightarrow> track_path (sample_env status) sample_client p = Some p"
  by (simp add: track_path_def sample_client_def)

lemma sample_flags: "and O_RDONLY O_ACCMODE \<noteq> O_WRONLY" "and O_RDONLY O_APPEND = 0"
  by (simp_all add: O_RDONLY_def O_WRONLY_def)

lemma sample_track:
  assumes "contains_str ''/data'' (path_parent p)" and "\<not> contains_str ''.ports.cfg.'' p"
  shows "hvac_track_file (sample_env status) p O_RDONLY 5 (n, sample_client) =
    Inr (\<not> status < 0, n, sample_tracked p status)"
proof -
  have "fd_map sample_client = Map.empty" by (simp add: sample_client_def client_initial_def)
  then show ?thesis
    using assms sample_flags
    by (simp add: hvac_track_file_def sample_track_path sample_ensure sample_host sample_gen_open)
qed

lemma sample_path: "path_parent ''/data/a'' = ''/data''" "path_parent ''/other/data/x'' = ''/other/data''"
  by (simp_all add: path_parent_def)

lemma sample_track_data:
  "hvac_track_file (sample_env status) ''/data/a'' O_RDONLY 5 (n, sample_client) =
     Inr (\<not> status < 0, n, sample_tracked ''/data/a'' status)"
  by (rule sample_track) (simp_all add: sample_path)

lemma sample_init:
  "\<exists>lg t'. hvac_client_init (sample_env status) 0 77 12 (client_initial, timer_initial) = Inr (lg, sample_client, t')"
proof -
  have "atoi ''1'' = 1" by code_simp
  then show ?thesis
    by (simp add: hvac_client_init_def hvac_init_logging_def prefix_and_pid_fits Let_def sample_client_def
        client_initial_def sample_env_def sample_getenv_def uint32_id)
qed

lemma sample_steps:
  fixes n :: 'n
  shows "(client_step (sample_env status))\<^sup>*\<^sup>* (n, client_initial) (n, sample_tracked ''/data/a'' status)"
proof -
  from sample_init obtain lg t' where
    "hvac_client_init (sample_env status :: 'n client_env) 0 77 12 (client_initial, timer_initial) = Inr (lg, sample_client, t')" by blast
  then have "client_step (sample_env status) (n, client_initial) (n, sample_client)" by (rule client_step.do_init)
  moreover have "client_step (sample_env status) (n, sample_client) (n, sample_tracked ''/data/a'' status)"
    by (rule client_step.do_track [OF sample_track_data]) (simp add: fd_in_range_def)
  ultimately show ?thesis by simp
qed

theorem client_tables_consistent_witness: "client_inv (sample_tracked ''/data/a'' 9)"
  using client_tables_consistent [OF sample_steps] .

theorem remote_read_never_waits_witness:
  "hvac_remote_read (sample_env 0) 5 True 10 [(0, HVAC_FD_OPENING)] ((), sample_client) =
   hvac_remote_read (sample_env 0) 5 True 10 [] ((), sample_client)"
  using remote_read_never_waits [OF sample_client_inv, of "sample_env 0" 5 True 10 "[(0, HVAC_FD_OPENING)]" "()"] by blast

theorem remove_fd_forgets_witness:
  "\<exists>n' c'. hvac_remove_fd (sample_env 9) 5 ((), sample_tracked ''/data/a'' 9) = Inr (True, n', c') \<and>
     \<not> hvac_file_tracked c' 5"
proof -
  have inv: "client_inv (sample_tracked ''/data/a'' 9)"
    using track_file_inv [OF sample_client_inv sample_track_data] by (simp add: fd_in_range_def)
  have "host_of (sample_env 9 :: unit client_env) (sample_tracked ''/data/a'' 9) ''/data/a'' = Inr 0"
    by (simp add: host_of_def sample_tracked_def sample_env_def int32_id)
  then have "\<exists>b n' c'. hvac_remove_fd (sample_env 9) 5 ((), sample_tracked ''/data/a'' 9) = Inr (b, n', c')"
    by (simp add: hvac_remove_fd_def hvac_remote_close_def hvac_client_comm_gen_close_rpc_def lookup_server_def
        hvac_client_comm_lookup_addr_def client_ops HG_SUCCESS_def int32_id sample_tracked_def Let_def split: prod.splits) blast
  then obtain b n' c' where r: "hvac_remove_fd (sample_env 9) 5 ((), sample_tracked ''/data/a'' 9) = Inr (b, n', c')"
    by blast
  have "hvac_file_tracked (sample_tracked ''/data/a'' 9) 5" by (simp add: hvac_file_tracked_def sample_tracked_def)
  with remove_fd_forgets [OF inv r] r show ?thesis by auto
qed

theorem failed_open_stays_tracked_witness:
  "hvac_track_file (sample_env (-1)) ''/data/a'' O_RDONLY 5 ((), sample_client) =
     Inr (False, (), sample_tracked ''/data/a'' (-1)) \<and>
   hvac_file_tracked (sample_tracked ''/data/a'' (-1)) 5 \<and>
   fd_status_of (fds (sample_tracked ''/data/a'' (-1))) 5 = Some HVAC_FD_ERROR"
proof -
  have t: "hvac_track_file (sample_env (-1)) ''/data/a'' O_RDONLY 5 ((), sample_client) =
      Inr (False, (), sample_tracked ''/data/a'' (-1))"
    using sample_track_data [of "-1" "()"] by simp
  have p: "track_path (sample_env (-1) :: unit client_env) sample_client ''/data/a'' = Some ''/data/a''"
    by (rule sample_track_path) (simp add: sample_path)
  show ?thesis
    using failed_open_stays_tracked [OF sample_client_inv _ t p _ sample_flags] t by (simp add: fd_in_range_def)
qed

text \<open>The file \<open>/other/data/x\<close> lies outside of \<open>/data\<close> and is tracked all the same.\<close>

theorem tracked_iff_directory_occurs_witness:
  "\<exists>c'. hvac_track_file (sample_env 9) ''/other/data/x'' O_RDONLY 5 ((), sample_client) = Inr (True, (), c') \<and>
     hvac_data_dir sample_client = Some ''/data'' \<and> hvac_file_tracked c' 5"
proof -
  have "contains_str ''/data'' (path_parent ''/other/data/x'')" by (simp add: sample_path)
  from sample_track [OF this, of 9 "()"] have
    t: "hvac_track_file (sample_env 9) ''/other/data/x'' O_RDONLY 5 ((), sample_client) =
      Inr (True, (), sample_tracked ''/other/data/x'' 9)" by simp
  have d: "hvac_data_dir sample_client = Some ''/data''" "canonical (sample_env 9 :: unit client_env) ''/data'' = Some ''/data''"
      "\<not> hvac_file_tracked sample_client 5"
    by (simp_all add: sample_client_def hvac_file_tracked_def client_initial_def)
  have "path_parent ''/other/data/x'' = ''/other'' @ ''/data'' @ []" by (simp add: sample_path)
  then have "\<exists>p before after. canonical (sample_env 9 :: unit client_env) ''/other/data/x'' = Some p \<and>
      path_parent p = before @ ''/data'' @ after" unfolding sample_env_fields by blast
  with tracked_iff_directory_occurs [OF t d(3,1,2) sample_client_inv] t d(1) sample_flags show ?thesis
    by (simp add: fd_in_range_def)
qed

theorem host_in_range_witness:
  "(case host_of (sample_env 0 :: unit client_env) sample_client ''/data/a'' of Inl e \<Rightarrow> False | Inr host \<Rightarrow> host = 0)"
  using host_in_range [of sample_client "sample_env 0 :: unit client_env" "''/data/a''"]
  by (auto simp: sample_client_def split: sum.splits)

theorem client_init_outcome_witness:
  "(case hvac_client_init (sample_env 0 :: unit client_env) 0 77 12 (client_initial, timer_initial) of
      Inl e \<Rightarrow> False | Inr (lg, c', t') \<Rightarrow> g_hvac_server_count c' = 1 \<and> hvac_data_dir c' = Some ''/data'')"
proof -
  have "show_int 1 = ''1''" by code_simp
  with client_init_outcome [of client_initial 0 77 "sample_env 0 :: unit client_env" "''/data''" "Some 1" 12 timer_initial]
  show ?thesis by (simp add: client_initial_def sample_env_def sample_getenv_def split: sum.splits prod.splits)
qed

end
