(* ===== verification/HVAC_Wrappers.thy ===== *)
theory HVAC_Wrappers
  imports Complex_Main HVAC_Client
begin

text \<open>
  The intercepted calls (\<open>wrappers.c\<close>): open, close, read and pread, each with its call
  statistics, and the export of the statistics. The real calls found by \<open>dlsym\<close> are the fields
  \<open>sys_*\<close> of \<open>posix_ops\<close> over the state of the application's operating system. Each wrapper
  is given the two readings of the monotonic clock it takes; the \<open>double\<close> durations are real
  numbers here, without the rounding of floating point.
\<close>

section \<open>State\<close>

record Stats =
  stat_count :: int
  stat_time :: real

record wrapper_stats =
  open_stats :: Stats
  open_data_stats :: Stats
  open_system_stats :: Stats
  fopen_stats :: Stats
  close_stats :: Stats
  read_stats :: Stats
  pread_stats :: Stats

record ('n, 'o) world =
  w_net :: 'n
  w_client :: client
  w_os :: 'o
  w_stats :: wrapper_stats

definition no_stats :: wrapper_stats where
  "no_stats = (let z = \<lparr>stat_count = 0, stat_time = 0\<rparr> in
     \<lparr>open_stats = z, open_data_stats = z, open_system_stats = z, fopen_stats = z, close_stats = z, read_stats = z, pread_stats = z\<rparr>)"

section \<open>Timing\<close>

text \<open>The difference of two clock readings, computed in two branches.\<close>

definition elapsed :: "timespec \<Rightarrow> timespec \<Rightarrow> real" where
  "elapsed start end =
     (if tv_nsec end > tv_nsec start
      then real_of_int (tv_sec end - tv_sec start) + real_of_int (tv_nsec end - tv_nsec start) / 1000000000
      else real_of_int (tv_sec end - tv_sec start - 1) +
           real_of_int (tv_nsec end - tv_nsec start + 1000000000) / 1000000000)"

definition add_stat :: "real \<Rightarrow> Stats \<Rightarrow> Stats" where
  "add_stat delta s = s\<lparr>stat_count := uint64 (stat_count s + 1), stat_time := stat_time s + delta\<rparr>"

section \<open>The wrappers\<close>

text \<open>\<open>MAP_OR_FAIL\<close>: the process exits when the symbol cannot be found.\<close>

definition map_or_fail :: "(string \<Rightarrow> bool) \<Rightarrow> string \<Rightarrow> 'a run \<Rightarrow> 'a run" where
  "map_or_fail dlsym func k = (if dlsym func then k else Inl (Exit 1))"

definition redirect_off :: "client \<Rightarrow> bool" where
  "redirect_off c \<longleftrightarrow> g_disable_redirect c \<or> tl_disable_redirect c"

definition data_set_path :: string where
  "data_set_path = ''/lustre/orion/gen008/proj-shared/ghu4/data/cosmoUniverse''"

definition wrap_open ::
    "'n client_env \<Rightarrow> 'o posix_ops \<Rightarrow> (string \<Rightarrow> bool) \<Rightarrow> timespec \<Rightarrow> timespec \<Rightarrow> string \<Rightarrow> 32 word \<Rightarrow> int \<Rightarrow>
     ('n, 'o) world \<Rightarrow> (int \<times> ('n, 'o) world) run" where
  "wrap_open E ops dlsym start end pathname flags va w =
     (let mode = (if and flags O_CREAT \<noteq> 0 then va else 0) in
      map_or_fail dlsym ''open'' (
      let (ret, os') = sys_open ops (w_os w) pathname flags mode; w1 = w\<lparr>w_os := os'\<rparr> in
      if redirect_off (w_client w) then Inr (ret, w1)
      else if ret = -1 then Inr (ret, w1)
      else
        bind_run (hvac_track_file E pathname flags ret (w_net w1, w_client w1)) (\<lambda>(tracked, n, c).
        let delta = elapsed start end; st = w_stats w1;
            st' = (if tracked then st\<lparr>open_stats := add_stat delta (open_stats st)\<rparr>
                   else if contains_str data_set_path pathname
                   then st\<lparr>open_data_stats := add_stat delta (open_data_stats st)\<rparr>
                   else st\<lparr>open_system_stats := add_stat delta (open_system_stats st)\<rparr>)
        in Inr (ret, w1\<lparr>w_net := n, w_client := c, w_stats := st'\<rparr>))))"

definition wrap_close ::
    "'n client_env \<Rightarrow> 'o posix_ops \<Rightarrow> (string \<Rightarrow> bool) \<Rightarrow> timespec \<Rightarrow> timespec \<Rightarrow> int \<Rightarrow>
     ('n, 'o) world \<Rightarrow> (int \<times> ('n, 'o) world) run" where
  "wrap_close E ops dlsym start end fd w =
     map_or_fail dlsym ''close'' (
     if redirect_off (w_client w) then
       (let (ret, os') = sys_close ops (w_os w) fd in Inr (ret, w\<lparr>w_os := os'\<rparr>))
     else
       bind_run (case hvac_get_path (w_client w) fd of
                   None \<Rightarrow> Inr (w_net w, w_client w)
                 | Some path \<Rightarrow>
                     bind_run (hvac_remove_fd E fd (w_net w, w_client w)) (\<lambda>(b, n, c). Inr (n, c))) (\<lambda>(n, c).
       let (ret, os') = sys_close ops (w_os w) fd;
           w1 = w\<lparr>w_net := n, w_client := c, w_os := os'\<rparr> in
       if ret \<noteq> 0 then Inr (ret, w1)
       else Inr (ret, w1\<lparr>w_stats := (w_stats w1)\<lparr>close_stats := add_stat (elapsed start end) (close_stats (w_stats w1))\<rparr>\<rparr>)))"

text \<open>\<open>ret\<close> of the read wrapper is an \<open>int\<close>: both results are converted to it.\<close>

definition wrap_read ::
    "'n client_env \<Rightarrow> 'o posix_ops \<Rightarrow> (string \<Rightarrow> bool) \<Rightarrow> timespec \<Rightarrow> timespec \<Rightarrow> wakeup list \<Rightarrow> int \<Rightarrow> bool \<Rightarrow> int \<Rightarrow>
     ('n, 'o) world \<Rightarrow> ((int \<times> byte list) \<times> ('n, 'o) world) run" where
  "wrap_read E ops dlsym start end wk fd buf_ok count w =
     map_or_fail dlsym ''read'' (
     bind_run (hvac_remote_read E fd buf_ok count wk (w_net w, w_client w)) (\<lambda>((r, bytes), n, c).
     let w1 = w\<lparr>w_net := n, w_client := c\<rparr>;
         ret = int32 r;
         ((ret', bytes'), os') =
           (if ret = -1 then (let ((r', b'), os') = sys_read ops (w_os w1) fd count in ((int32 r', b'), os'))
            else ((ret, bytes), w_os w1))
     in Inr ((ret', bytes'), w1\<lparr>w_os := os',
          w_stats := (w_stats w1)\<lparr>read_stats := add_stat (elapsed start end) (read_stats (w_stats w1))\<rparr>\<rparr>)))"

definition wrap_pread ::
    "'n client_env \<Rightarrow> 'o posix_ops \<Rightarrow> (string \<Rightarrow> bool) \<Rightarrow> timespec \<Rightarrow> timespec \<Rightarrow> wakeup list \<Rightarrow> int \<Rightarrow> bool \<Rightarrow> int \<Rightarrow> int \<Rightarrow>
     ('n, 'o) world \<Rightarrow> ((int \<times> byte list) \<times> ('n, 'o) world) run" where
  "wrap_pread E ops dlsym start end wk fd buf_ok count offset w =
     map_or_fail dlsym ''pread'' (
     case hvac_get_path (w_client w) fd of
       None \<Rightarrow> (let (res, os') = sys_pread ops (w_os w) fd count offset in Inr (res, w\<lparr>w_os := os'\<rparr>))
     | Some path \<Rightarrow>
         bind_run (hvac_remote_pread E fd buf_ok count offset wk (w_net w, w_client w)) (\<lambda>((r, bytes), n, c).
         let w1 = w\<lparr>w_net := n, w_client := c\<rparr>;
             (res, os') = (if r = -1 then sys_pread ops (w_os w1) fd count offset else ((r, bytes), w_os w1))
         in Inr (res, w1\<lparr>w_os := os',
              w_stats := (w_stats w1)\<lparr>pread_stats := add_stat (elapsed start end) (pread_stats (w_stats w1))\<rparr>\<rparr>)))"

section \<open>The report of the wrappers\<close>

text \<open>
  \<open>fmt\<close> prints a time under \<open>%.6f\<close>. The file is replaced; one that cannot be opened is left
  alone.
\<close>

definition stats_line :: "(real \<Rightarrow> string) \<Rightarrow> string \<Rightarrow> Stats \<Rightarrow> string" where
  "stats_line fmt name s =
     name @ '' Stats: count='' @ show_int (stat_count s) @ '', total_time='' @ fmt (stat_time s) @ newline"

definition export_stats_to_file ::
    "(real \<Rightarrow> string) \<Rightarrow> bool \<Rightarrow> string \<Rightarrow> wrapper_stats \<Rightarrow> (string \<rightharpoonup> string) \<Rightarrow> (string \<rightharpoonup> string)" where
  "export_stats_to_file fmt fopen_ok filename st fs =
     (if \<not> fopen_ok then fs
      else fs(filename \<mapsto>
        stats_line fmt ''Open'' (open_stats st) @
        stats_line fmt ''Open Data'' (open_data_stats st) @
        stats_line fmt ''Open System'' (open_system_stats st) @
        ''Open total_time='' @ fmt (stat_time (open_data_stats st) + stat_time (open_system_stats st)) @ newline @
        stats_line fmt ''Close'' (close_stats st) @
        stats_line fmt ''Read'' (read_stats st) @
        stats_line fmt ''Pread'' (pread_stats st)))"

section \<open>Lemmas\<close>

lemma elapsed_eq:
  "elapsed start end =
     (real_of_int (tv_sec end) + real_of_int (tv_nsec end) / 1000000000) -
     (real_of_int (tv_sec start) + real_of_int (tv_nsec start) / 1000000000)"
  by (simp add: elapsed_def field_simps)

lemma untracked_remote_read:
  "fd_map c fd = None \<Longrightarrow> hvac_remote_read E fd buf_ok count wk (n, c) = Inr ((-1, []), n, c)"
  by (simp add: hvac_remote_read_def)

text \<open>A remote read that did not happen or failed leaves the tables as they are, up to the address cache.\<close>

lemma wrap_read_cases:
  assumes "wrap_read E ops dlsym start end wk fd buf_ok count w = Inr ((ret, bytes), w')"
  obtains r b n c where
    "hvac_remote_read E fd buf_ok count wk (w_net w, w_client w) = Inr ((r, b), n, c)"
    and "w_net w' = n" "w_client w' = c"
    and "int32 r = -1 \<Longrightarrow> \<exists>r'. sys_read ops (w_os w) fd count = ((r', bytes), w_os w') \<and> ret = int32 r'"
    and "int32 r \<noteq> -1 \<Longrightarrow> ret = int32 r \<and> bytes = b \<and> w_os w' = w_os w"
proof -
  from assms obtain r b n c where
    h: "hvac_remote_read E fd buf_ok count wk (w_net w, w_client w) = Inr ((r, b), n, c)"
    by (auto simp: wrap_read_def map_or_fail_def bind_run_eq_Inr split: if_splits)
  show thesis
    by (rule that [OF h])
      (use assms h in \<open>auto simp: wrap_read_def map_or_fail_def Let_def split: if_splits prod.splits\<close>)
qed

text \<open>A sequence of intercepted reads of one descriptor, each with its two clock readings.\<close>

fun wrap_reads ::
    "'n client_env \<Rightarrow> 'o posix_ops \<Rightarrow> (string \<Rightarrow> bool) \<Rightarrow> wakeup list \<Rightarrow> int \<Rightarrow> (timespec \<times> timespec \<times> int) list \<Rightarrow>
     ('n, 'o) world \<Rightarrow> ((int \<times> byte list) list \<times> ('n, 'o) world) run" where
  "wrap_reads E ops dlsym wk fd [] w = Inr ([], w)"
| "wrap_reads E ops dlsym wk fd ((start, end, count) # ks) w =
     bind_run (wrap_read E ops dlsym start end wk fd True count w) (\<lambda>(r, w1).
     bind_run (wrap_reads E ops dlsym wk fd ks w1) (\<lambda>(rs, w2). Inr (r # rs, w2)))"

definition seconds :: "timespec \<Rightarrow> real" where
  "seconds ts = real_of_int (tv_sec ts) + real_of_int (tv_nsec ts) / 1000000000"

lemma wrap_read_stats:
  assumes "wrap_read E ops dlsym start end wk fd buf_ok count w = Inr (r, w')"
  shows "w_stats w' = (w_stats w)\<lparr>read_stats := add_stat (seconds end - seconds start) (read_stats (w_stats w))\<rparr>"
  using assms
  by (auto simp: wrap_read_def map_or_fail_def bind_run_eq_Inr Let_def elapsed_eq seconds_def
      split: if_splits prod.splits)

lemma wrap_read_remote:
  assumes "dlsym ''read''" and "hvac_remote_read E fd buf_ok count wk (w_net w, w_client w) = Inr ((r, b), n, c)"
    and "- 1 < r" and "r < 2 ^ 31"
  shows "\<exists>st. wrap_read E ops dlsym start end wk fd buf_ok count w =
    Inr ((r, b), w\<lparr>w_net := n, w_client := c, w_stats := st\<rparr>)"
  using assms
  by (intro exI [of _ "(w_stats w)\<lparr>read_stats := add_stat (elapsed start end) (read_stats (w_stats w))\<rparr>"])
    (simp add: wrap_read_def map_or_fail_def int32_id)

lemma wrap_read_local:
  assumes "dlsym ''read''" and "hvac_remote_read E fd buf_ok count wk (w_net w, w_client w) = Inr ((-1, b0), n, c)"
    and "sys_read ops (w_os w) fd count = ((r, b), os')" and "- (2 ^ 31) \<le> r" and "r < 2 ^ 31"
  shows "\<exists>st. wrap_read E ops dlsym start end wk fd buf_ok count w =
    Inr ((r, b), w\<lparr>w_net := n, w_client := c, w_os := os', w_stats := st\<rparr>)"
  using assms
  by (intro exI [of _ "(w_stats w)\<lparr>read_stats := add_stat (elapsed start end) (read_stats (w_stats w))\<rparr>"])
    (simp add: wrap_read_def map_or_fail_def int32_id)

section \<open>Properties\<close>

text \<open>
  For a descriptor the library does not track, the intercepted read, pread and close are the
  real calls: same result, same bytes, same effect on the operating system, and nothing is sent to a
  server or changed in the client.
\<close>

theorem untracked_calls_transparent:
  assumes "\<not> hvac_file_tracked (w_client w) fd" and "\<forall>f. dlsym f"
    and "sys_read ops (w_os w) fd count = ((r, b), os1)" and "- (2 ^ 31) \<le> r" and "r < 2 ^ 31"
    and "sys_pread ops (w_os w) fd count off = (res, os2)" and "sys_close ops (w_os w) fd = (k, os3)"
  shows "(\<exists>st. wrap_read E ops dlsym start end wk fd buf_ok count w = Inr ((r, b), w\<lparr>w_os := os1, w_stats := st\<rparr>)) \<and>
    wrap_pread E ops dlsym start end wk fd buf_ok count off w = Inr (res, w\<lparr>w_os := os2\<rparr>) \<and>
    (\<exists>st. wrap_close E ops dlsym start end fd w = Inr (k, w\<lparr>w_os := os3, w_stats := st\<rparr>))"
proof (intro conjI)
  from assms(1) have m: "fd_map (w_client w) fd = None" by (simp add: hvac_file_tracked_def)
  have "w\<lparr>w_net := w_net w, w_client := w_client w\<rparr> = w" by simp
  with wrap_read_local [of dlsym E fd buf_ok count wk w "[]" "w_net w" "w_client w" ops r b os1 start "end"] m assms(2-5)
  show "\<exists>st. wrap_read E ops dlsym start end wk fd buf_ok count w = Inr ((r, b), w\<lparr>w_os := os1, w_stats := st\<rparr>)"
    by (simp add: untracked_remote_read)
  show "wrap_pread E ops dlsym start end wk fd buf_ok count off w = Inr (res, w\<lparr>w_os := os2\<rparr>)"
    using assms(2,6) by (simp add: wrap_pread_def map_or_fail_def hvac_get_path_def m)
  show "\<exists>st. wrap_close E ops dlsym start end fd w = Inr (k, w\<lparr>w_os := os3, w_stats := st\<rparr>)"
    using assms(2,7)
    by (intro exI [of _ "if redirect_off (w_client w) \<or> k \<noteq> 0 then w_stats w
          else (w_stats w)\<lparr>close_stats := add_stat (elapsed start end) (close_stats (w_stats w))\<rparr>"])
      (simp add: wrap_close_def map_or_fail_def hvac_get_path_def m)
qed

text \<open>
  A tracked descriptor whose remote open did not succeed is read locally: the intercepted read
  gives exactly what the real read gives, nothing is sent to a server, and the client is unchanged.
\<close>

theorem not_ready_read_is_local:
  assumes "client_inv (w_client w)" and "fd_status_of (fds (w_client w)) fd \<noteq> Some HVAC_FD_READY"
    and "g_hvac_server_count (w_client w) \<noteq> 0" and "dlsym ''read''"
    and "sys_read ops (w_os w) fd count = ((r, b), os')" and "- (2 ^ 31) \<le> r" and "r < 2 ^ 31"
  shows "\<exists>st. wrap_read E ops dlsym start end wk fd buf_ok count w = Inr ((r, b), w\<lparr>w_os := os', w_stats := st\<rparr>)"
proof -
  have "hvac_remote_read E fd buf_ok count wk (w_net w, w_client w) = Inr ((-1, []), w_net w, w_client w)"
    using assms(1-3) by (simp add: hvac_remote_read_def host_of_def gen_read_not_ready split: option.splits)
  moreover have "w\<lparr>w_net := w_net w, w_client := w_client w\<rparr> = w" by simp
  ultimately show ?thesis
    using wrap_read_local [of dlsym E fd buf_ok count wk w "[]" "w_net w" "w_client w" ops r b os' start "end"] assms(4-7)
    by simp
qed

text \<open>
  The read statistics count every intercepted read once and add up exactly the time each took
  by the monotonic clock, in whichever of its two branches the duration was computed; no other counter
  is touched.
\<close>

theorem read_statistics_exact:
  assumes "wrap_reads E ops dlsym wk fd ks w = Inr (rs, w')"
    and "0 \<le> stat_count (read_stats (w_stats w))"
    and "stat_count (read_stats (w_stats w)) + int (length ks) < 2 ^ 64"
  shows "w_stats w' = (w_stats w)\<lparr>read_stats :=
      \<lparr>stat_count = stat_count (read_stats (w_stats w)) + int (length ks),
       stat_time = stat_time (read_stats (w_stats w)) + (\<Sum>(start, end, n)\<leftarrow>ks. seconds end - seconds start)\<rparr>\<rparr>
    \<and> length rs = length ks"
  using assms
proof (induction ks arbitrary: w rs)
  case Nil
  then show ?case by simp
next
  case (Cons k ks)
  obtain start "end" n where k: "k = (start, end, n)" by (cases k)
  from Cons.prems(1) obtain r w1 rs' where r: "wrap_read E ops dlsym start end wk fd True n w = Inr (r, w1)"
    and rs: "wrap_reads E ops dlsym wk fd ks w1 = Inr (rs', w')" "rs = r # rs'"
    by (auto simp: k bind_run_eq_Inr)
  from Cons.prems(2,3) have "uint64 (stat_count (read_stats (w_stats w)) + 1) = stat_count (read_stats (w_stats w)) + 1"
    by (intro uint64_id) auto
  then have w1: "w_stats w1 = (w_stats w)\<lparr>read_stats := \<lparr>stat_count = stat_count (read_stats (w_stats w)) + 1,
      stat_time = stat_time (read_stats (w_stats w)) + (seconds end - seconds start)\<rparr>\<rparr>"
    unfolding wrap_read_stats [OF r] add_stat_def by (cases "read_stats (w_stats w)") simp
  from Cons.IH [OF rs(1)] Cons.prems(2,3) show ?case by (simp add: w1 rs(2) k)
qed

section \<open>Sample application\<close>

definition sample_world :: "client \<Rightarrow> (unit, linux) world" where
  "sample_world c = \<lparr>w_net = (), w_client = c, w_os = sample_os\<lparr>fdt := [5 \<mapsto> (''/data/a'', 1)]\<rparr>, w_stats = no_stats\<rparr>"

lemma sample_world_read:
  "sys_read linux_ops (w_os (sample_world c)) 5 2 =
     ((2, [20, 30]), sample_os\<lparr>fdt := [5 \<mapsto> (''/data/a'', 3)]\<rparr>)"
  by (simp add: sample_world_def sample_os_def linux_ops_def linux_read_def chunk_def MAX_RW_COUNT_def numeral_2_eq_2 numeral_3_eq_3)

theorem untracked_calls_transparent_witness:
  "\<exists>st. wrap_read (sample_env 9) linux_ops (\<lambda>f. True) \<lparr>tv_sec = 1, tv_nsec = 0\<rparr> \<lparr>tv_sec = 1, tv_nsec = 5\<rparr> [] 5 True 2
     (sample_world sample_client) =
   Inr ((2, [20, 30]), (sample_world sample_client)\<lparr>w_os := sample_os\<lparr>fdt := [5 \<mapsto> (''/data/a'', 3)]\<rparr>, w_stats := st\<rparr>)"
proof -
  obtain res os2 k os3 where "sys_pread linux_ops (w_os (sample_world sample_client)) 5 2 0 = (res, os2)"
    and "sys_close linux_ops (w_os (sample_world sample_client)) 5 = (k, os3)" by (metis surj_pair)
  moreover have "\<not> hvac_file_tracked (w_client (sample_world sample_client)) 5"
    by (simp add: sample_world_def sample_client_def client_initial_def hvac_file_tracked_def)
  ultimately show ?thesis
    using untracked_calls_transparent [of "sample_world sample_client" 5 "\<lambda>f. True" linux_ops 2, OF _ _ sample_world_read]
    by auto
qed

theorem not_ready_read_is_local_witness:
  "\<exists>st. wrap_read (sample_env 9) linux_ops (\<lambda>f. True) \<lparr>tv_sec = 1, tv_nsec = 0\<rparr> \<lparr>tv_sec = 1, tv_nsec = 5\<rparr> [] 5 True 2
     (sample_world (sample_tracked ''/data/a'' (-1))) =
   Inr ((2, [20, 30]), (sample_world (sample_tracked ''/data/a'' (-1)))
     \<lparr>w_os := sample_os\<lparr>fdt := [5 \<mapsto> (''/data/a'', 3)]\<rparr>, w_stats := st\<rparr>)"
proof -
  have "client_inv (sample_tracked ''/data/a'' (-1))"
    using track_file_inv [OF sample_client_inv sample_track_data] by (simp add: fd_in_range_def)
  moreover have "fd_status_of (fds (sample_tracked ''/data/a'' (-1))) 5 = Some HVAC_FD_ERROR"
    using ft.open_fails [OF fd_table_wf_empty, of 5] by (simp add: sample_tracked_def)
  ultimately show ?thesis
    using not_ready_read_is_local [OF _ _ _ _ sample_world_read, of "sample_tracked ''/data/a'' (-1)" "\<lambda>f. True"]
    by (simp add: sample_world_def sample_tracked_def)
qed

theorem read_statistics_exact_witness:
  "\<exists>rs w'. wrap_reads (sample_env 9) linux_ops (\<lambda>f. True) [] 5
      [(\<lparr>tv_sec = 1, tv_nsec = 900000000\<rparr>, \<lparr>tv_sec = 2, tv_nsec = 400000000\<rparr>, 2)] (sample_world sample_client) =
      Inr (rs, w') \<and>
    stat_count (read_stats (w_stats w')) = 1 \<and> stat_time (read_stats (w_stats w')) = 1 / 2"
proof -
  have "\<exists>rs w'. wrap_reads (sample_env 9) linux_ops (\<lambda>f. True) [] 5
      [(\<lparr>tv_sec = 1, tv_nsec = 900000000\<rparr>, \<lparr>tv_sec = 2, tv_nsec = 400000000\<rparr>, 2)] (sample_world sample_client) = Inr (rs, w')"
    by (simp add: wrap_read_def map_or_fail_def untracked_remote_read sample_world_def sample_client_def
        client_initial_def Let_def split: prod.splits)
  then obtain rs w' where r: "wrap_reads (sample_env 9) linux_ops (\<lambda>f. True) [] 5
      [(\<lparr>tv_sec = 1, tv_nsec = 900000000\<rparr>, \<lparr>tv_sec = 2, tv_nsec = 400000000\<rparr>, 2)] (sample_world sample_client) = Inr (rs, w')"
    by blast
  with read_statistics_exact [OF r] show ?thesis
    by (simp add: sample_world_def no_stats_def seconds_def Let_def)
qed

end
