(* ===== verification/HVAC_System.thy ===== *)
theory HVAC_System
  imports HVAC_Wrappers
begin

text \<open>
  Client and servers together. A cluster is the set of running servers by address. \<open>connect\<close>
  replaces the network parameters of a client environment by the request handlers of
  \<open>mthvac_comm.cpp\<close>: a request reaches the server with that address, its handler runs, and the
  reply completes the call; a handler that aborts takes its server out of the cluster. What Mercury
  makes of a request whose server is gone, or goes while it has the request, is not in the source: the
  parameters \<open>hg_gone\<close> and \<open>hg_aborts\<close> choose between a request that cannot be sent, an error passed
  to the callback and silence. The relation \<open>linked\<close> ties a local descriptor to the file its server reads.
\<close>

section \<open>Composition\<close>

type_synonym 'o cluster = "string \<rightharpoonup> 'o server"

fun lost_reply :: "reply_loss \<Rightarrow> 'r delivery" where
  "lost_reply (Error_Reply e) = Completes (int e + 1) undefined"
| "lost_reply Silence = Never_Completes"

fun lost_request :: "request_loss \<Rightarrow> 'r delivery" where
  "lost_request (Refused_Request e) = Forward_Error (int e + 1)"
| "lost_request (Accepted l) = lost_reply l"

definition deliver ::
    "mercury \<Rightarrow> 'o cluster \<Rightarrow> string option \<Rightarrow> ('o server \<Rightarrow> ('r \<times> 'o server) run) \<Rightarrow> 'r delivery \<times> 'o cluster" where
  "deliver hg n addr f =
     (case addr of
        None \<Rightarrow> (lost_request (hg_gone hg None), n)
      | Some a \<Rightarrow>
          (case n a of
             None \<Rightarrow> (lost_request (hg_gone hg (Some a)), n)
           | Some s \<Rightarrow>
               (case f s of
                  Inl e \<Rightarrow> (lost_reply (hg_aborts hg a), n(a := None))
                | Inr (r, s') \<Rightarrow> (Completes 0 r, n(a \<mapsto> s')))))"

lemma lost_reply_cases: "lost_reply l = Never_Completes \<or> (\<exists>e. 0 < e \<and> lost_reply l = Completes e undefined)"
  by (cases l) auto

lemma lost_request_cases:
  "(\<exists>e. lost_request l = Forward_Error e) \<or> lost_request l = Never_Completes \<or>
     (\<exists>e. 0 < e \<and> lost_request l = Completes e undefined)"
  using lost_reply_cases by (cases l) auto

lemma deliver_result:
  assumes "deliver hg n x f = (d, n')"
  shows "(\<exists>r. d = Forward_Error r \<and> n' = n) \<or> d = Never_Completes \<or>
    (\<exists>e r. d = Completes e r \<and> e \<noteq> 0 \<and>
       (n' = n \<or> (\<exists>a s err. x = Some a \<and> n a = Some s \<and> f s = Inl err \<and> n' = n(a := None)))) \<or>
    (\<exists>a s s' r. d = Completes 0 r \<and> x = Some a \<and> n a = Some s \<and> f s = Inr (r, s') \<and> n' = n(a \<mapsto> s'))"
proof (cases "\<exists>a s. x = Some a \<and> n a = Some s")
  case False
  then have "d = lost_request (hg_gone hg x) \<and> n' = n" using assms by (auto simp: deliver_def split: option.splits)
  with lost_request_cases [where 'a = 'a, of "hg_gone hg x"] show ?thesis by auto
next
  case True
  then obtain a s where x: "x = Some a" "n a = Some s" by blast
  show ?thesis
  proof (cases "f s")
    case (Inl err)
    with assms x have "d = lost_reply (hg_aborts hg a)" "n' = n(a := None)" by (simp_all add: deliver_def)
    with lost_reply_cases [where 'a = 'a, of "hg_aborts hg a"] x Inl show ?thesis by auto
  next
    case (Inr y)
    with assms x show ?thesis by (cases y) (simp add: deliver_def)
  qed
qed

definition serve_read ::
    "'o posix_ops \<Rightarrow> mercury \<Rightarrow> hvac_rpc_in_t \<Rightarrow> 'o server \<Rightarrow> ((hvac_rpc_out_t \<times> byte list) \<times> 'o server) run" where
  "serve_read ops hg i s =
     bind_run (hvac_rpc_handler ops hg i s) (\<lambda>(st, s').
     bind_run (hvac_rpc_handler_bulk_cb hg st) (\<lambda>r. Inr (r, s')))"

definition oneway :: "'r delivery \<times> 'o cluster \<Rightarrow> int \<times> 'o cluster" where
  "oneway = (\<lambda>(d, n). ((case d of Forward_Error r \<Rightarrow> r | _ \<Rightarrow> 0), n))"

definition connect :: "'o posix_ops \<Rightarrow> mercury \<Rightarrow> 'o cluster client_env \<Rightarrow> 'o cluster client_env" where
  "connect ops hg E =
     E\<lparr>fwd_open := (\<lambda>n a i. deliver hg n a (hvac_open_rpc_handler ops hg i)),
       fwd_read := (\<lambda>n a i. deliver hg n a (serve_read ops hg i)),
       fwd_seek := (\<lambda>n a i. deliver hg n a (hvac_seek_rpc_handler ops hg i)),
       fwd_close := (\<lambda>n a i. oneway (deliver hg n a (\<lambda>s. bind_run (hvac_close_rpc_handler ops hg i s) (\<lambda>s'. Inr ((), s'))))),
       fwd_stats := (\<lambda>n a i. oneway (deliver hg n a (\<lambda>s. Inr (hvac_trigger_srv_print_stats_handler hg, s))))\<rparr>"

text \<open>How a read or pread ends whose request has been accepted and is not answered.\<close>

fun stopped_by :: "reply_loss \<Rightarrow> fault" where
  "stopped_by (Error_Reply e) = Assertion_Failed"
| "stopped_by Silence = Blocked_Forever"

lemma stopped_by_eq: "stopped_by l = (if l = Silence then Blocked_Forever else Assertion_Failed)"
  by (cases l) simp_all

text \<open>The client side of Mercury working.\<close>

definition client_ok :: "'n client_env \<Rightarrow> bool" where
  "client_ok E \<longleftrightarrow> (\<forall>a. hg_create E a = 0) \<and> (\<forall>a. hg_addr_free E a = 0) \<and> cl_get_info E \<and>
     (\<forall>k. cl_bulk_create E k = 0) \<and> cb_cleanup_ok E"

text \<open>The server a path is sent to: the hash picks the rank and the rank the address.\<close>

definition resolves :: "'n client_env \<Rightarrow> client \<Rightarrow> string \<Rightarrow> string \<Rightarrow> bool" where
  "resolves E c p a \<longleftrightarrow>
     (\<exists>host c'. host_of E c p = Inr host \<and> lookup_server E host c = Inr (Some a, c'))"

definition linked ::
    "('o \<Rightarrow> string \<rightharpoonup> byte list) \<Rightarrow> ('o \<Rightarrow> int \<rightharpoonup> (string \<times> nat)) \<Rightarrow> 'n client_env \<Rightarrow>
     'o cluster \<Rightarrow> client \<Rightarrow> int \<Rightarrow> string \<Rightarrow> nat \<Rightarrow> byte list \<Rightarrow> bool" where
  "linked content handle E n c fd p off d \<longleftrightarrow>
     fd_map c fd = Some p \<and> fd_status_of (fds c) fd = Some HVAC_FD_READY \<and>
     (\<exists>a s rfd h. resolves E c p a \<and> n a = Some s \<and> fd_redir_map c fd = Some rfd \<and> rfd \<noteq> 0 \<and>
        handle (srv_os s) rfd = Some (h, off) \<and> content (srv_os s) h = Some d \<and> content (srv_os s) p = Some d)"

definition cluster_inv ::
    "('o \<Rightarrow> string \<rightharpoonup> byte list) \<Rightarrow> ('o \<Rightarrow> int \<rightharpoonup> (string \<times> nat)) \<Rightarrow> 'o cluster \<Rightarrow> bool" where
  "cluster_inv content handle n \<longleftrightarrow> (\<forall>a s. n a = Some s \<longrightarrow> server_inv content handle s)"

lemma connect_fields [simp]:
  "cl_getenv (connect ops hg E) = cl_getenv E" "cl_files (connect ops hg E) = cl_files E"
  "cl_engine_env (connect ops hg E) = cl_engine_env E" "std_hash (connect ops hg E) = std_hash E"
  "canonical (connect ops hg E) = canonical E" "current_path (connect ops hg E) = current_path E"
  "hg_create (connect ops hg E) = hg_create E" "hg_addr_free (connect ops hg E) = hg_addr_free E"
  "cl_get_info (connect ops hg E) = cl_get_info E"
  "cl_bulk_create (connect ops hg E) = cl_bulk_create E" "cb_cleanup_ok (connect ops hg E) = cb_cleanup_ok E"
  "fwd_open (connect ops hg E) n a i = deliver hg n a (hvac_open_rpc_handler ops hg i)"
  "fwd_read (connect ops hg E) n a j = deliver hg n a (serve_read ops hg j)"
  "fwd_seek (connect ops hg E) n a k = deliver hg n a (hvac_seek_rpc_handler ops hg k)"
  "fwd_close (connect ops hg E) n a l =
     oneway (deliver hg n a (\<lambda>s. bind_run (hvac_close_rpc_handler ops hg l s) (\<lambda>s'. Inr ((), s'))))"
  "fwd_stats (connect ops hg E) n a m = oneway (deliver hg n a (\<lambda>s. Inr (hvac_trigger_srv_print_stats_handler hg, s)))"
  by (simp_all add: connect_def)

lemma connect_lookup [simp]: "lookup_server (connect ops hg E) = lookup_server E"
  by (simp add: lookup_server_def fun_eq_iff)

lemma connect_host [simp]: "host_of (connect ops hg E) = host_of E"
  by (simp add: host_of_def fun_eq_iff)

lemma connect_track_path [simp]: "track_path (connect ops hg E) = track_path E"
  by (simp add: track_path_def fun_eq_iff Let_def split: option.split)

lemma connect_ensure [simp]: "ensure_mercury (connect ops hg E) = ensure_mercury E"
  by (simp add: ensure_mercury_def fun_eq_iff)

section \<open>Address resolution is stable\<close>

lemma lookup_server_stable:
  assumes "lookup_server E r c = Inr (x, c1)" and "lookup_server E q c = Inr (Some b, c2)"
  shows "\<exists>c3. lookup_server E q c1 = Inr (Some b, c3)"
  using assms lookup_addr_stable by (fastforce simp: lookup_server_def bind_run_eq_Inr)

lemma lookup_server_fields:
  assumes "lookup_server E r c = Inr (x, c1)" and "address_cache c' = address_cache c"
  shows "\<exists>c1'. lookup_server E r c' = Inr (x, c1')"
  using assms by (auto simp: lookup_server_def bind_run_eq_Inr)

lemma resolves_fields:
  "resolves E c p a \<Longrightarrow> address_cache c' = address_cache c \<Longrightarrow> g_hvac_server_count c' = g_hvac_server_count c \<Longrightarrow>
     resolves E c' p a"
  unfolding resolves_def host_of_def by (metis lookup_server_fields)

lemma resolves_stable:
  assumes "resolves E c p a" and "lookup_server E r c = Inr (x, c1)"
  shows "resolves E c1 p a"
proof -
  from assms(1) obtain host c' where h: "host_of E c p = Inr host" "lookup_server E host c = Inr (Some a, c')"
    by (auto simp: resolves_def)
  from lookup_server_frame [OF assms(2)] have "host_of E c1 p = host_of E c p" by (auto simp: host_of_def)
  with h lookup_server_stable [OF assms(2) h(2)] show ?thesis by (auto simp: resolves_def)
qed

section \<open>Reading through the cluster\<close>

context posix_files
begin

lemma serve_read_linked:
  assumes ok: "mercury_ok hg" and h: "handle (srv_os s) rfd = Some (h, off)"
    and d: "content (srv_os s) h = Some d"
    and n: "0 \<le> count" "count < 2 ^ 31" "count \<le> sz" and pos: "pos = -1 \<or> 0 \<le> pos"
  defines "from \<equiv> (if pos = -1 then off else nat pos)"
  defines "data \<equiv> chunk d from count"
  shows "\<exists>s'. serve_read ops hg \<lparr>input_val = count, bulk_size = sz, accessfd = rfd, rpc_offset = pos\<rparr> s =
      Inr ((\<lparr>rpc_ret = int (length data)\<rparr>, data), s') \<and>
    handle (srv_os s') = (handle (srv_os s))(rfd \<mapsto> (h, if pos = -1 then off + length data else off)) \<and>
    content (srv_os s') = content (srv_os s)"
proof -
  let ?i = "\<lparr>input_val = count, bulk_size = sz, accessfd = rfd, rpc_offset = pos\<rparr>"
  from rpc_handler_serves [OF ok, of s ?i h off d] h d n pos obtain st t where
    "hvac_rpc_handler ops hg ?i s = Inr (st, t)"
    "hvac_rpc_handler_bulk_cb hg st = Inr (\<lparr>rpc_ret = int (length data)\<rparr>, data)"
    "handle (srv_os t) = (handle (srv_os s))(rfd \<mapsto> (h, if pos = -1 then off + length data else off))"
    "content (srv_os t) = content (srv_os s)"
    by (auto simp: data_def from_def)
  then show ?thesis by (simp add: serve_read_def)
qed

text \<open>The request carries the count as an \<open>int32_t\<close>: the server reads \<open>int32 count\<close> bytes.\<close>

lemma gen_read_linked:
  assumes inv: "client_inv c" and ok: "mercury_ok hg" "client_ok E" and buf: "buf_ok"
    and l: "linked content handle E n c fd p off d" and host: "host_of E c p = Inr host"
    and count: "0 \<le> int32 count" and pos: "pos = -1 \<or> 0 \<le> pos"
  defines "from \<equiv> (if pos = -1 then off else nat pos)"
  defines "data \<equiv> chunk d from (int32 count)"
  shows "\<exists>n' c'. hvac_client_comm_gen_read_rpc (connect ops hg E) host fd buf_ok count pos wk (n, c) =
      Inr ((int (length data), data), n', c') \<and> client_inv c' \<and>
    linked content handle E n' c' fd p (if pos = -1 then off + length data else off) d"
proof -
  from l obtain a s rfd h where m: "fd_map c fd = Some p" "fd_status_of (fds c) fd = Some HVAC_FD_READY"
    and res: "resolves E c p a" and s: "n a = Some s" and r: "fd_redir_map c fd = Some rfd" "rfd \<noteq> 0"
    and h: "handle (srv_os s) rfd = Some (h, off)" and d: "content (srv_os s) h = Some d" "content (srv_os s) p = Some d"
    unfolding linked_def by blast
  from res host obtain c1 where lk: "lookup_server E host c = Inr (Some a, c1)" by (auto simp: resolves_def)
  from lookup_server_frame [OF lk] obtain cache where c1: "c1 = c\<lparr>address_cache := cache\<rparr>" by blast
  from serve_read_linked [OF ok(1) h d(1) count int32_bounds(2) int32_le_uint64 [OF count] pos] obtain s' where
    s': "serve_read ops hg \<lparr>input_val = int32 count, bulk_size = uint64 count, accessfd = rfd, rpc_offset = pos\<rparr> s =
        Inr ((\<lparr>rpc_ret = int (length data)\<rparr>, data), s')"
    and h': "handle (srv_os s') = (handle (srv_os s))(rfd \<mapsto> (h, if pos = -1 then off + length data else off))"
      "content (srv_os s') = content (srv_os s)"
    by (auto simp: data_def from_def)
  have "hvac_client_comm_gen_read_rpc (connect ops hg E) host fd buf_ok count pos wk (n, c) =
      Inr ((int (length data), data), n(a \<mapsto> s'), c1)"
    using ok(2) buf
    by (simp add: hvac_client_comm_gen_read_rpc_def wait_under_inv [OF inv] m r lk client_ops
        deliver_def s s' client_ok_def HG_SUCCESS_def)
  moreover have "linked content handle E (n(a \<mapsto> s')) c1 fd p (if pos = -1 then off + length data else off) d"
    using resolves_stable [OF res lk] m r h' d unfolding linked_def by (auto simp: c1)
  moreover have "client_inv c1" using inv by (simp add: c1)
  ultimately show ?thesis by blast
qed

lemma remote_read_linked:
  assumes "client_inv c" "mercury_ok hg" "client_ok E" "linked content handle E n c fd p off d"
    and count: "0 \<le> int32 count"
  shows "\<exists>n' c'. hvac_remote_read (connect ops hg E) fd True count wk (n, c) =
      Inr ((int (length (chunk d off (int32 count))), chunk d off (int32 count)), n', c') \<and> client_inv c' \<and>
    linked content handle E n' c' fd p (off + length (chunk d off (int32 count))) d"
proof -
  from assms(4) obtain host where host: "host_of E c p = Inr host" and p: "fd_map c fd = Some p"
    by (auto simp: linked_def resolves_def)
  from gen_read_linked [OF assms(1-3) _ assms(4) host, of True "int64 count" "-1" wk] count show ?thesis
    by (simp add: hvac_remote_read_def p host)
qed

lemma remote_pread_linked:
  assumes "client_inv c" "mercury_ok hg" "client_ok E" "linked content handle E n c fd p off d"
    and count: "0 \<le> int32 count" and pos: "0 \<le> pos"
  shows "\<exists>n' c'. hvac_remote_pread (connect ops hg E) fd True count pos wk (n, c) =
      Inr ((int (length (chunk d (nat pos) (int32 count))), chunk d (nat pos) (int32 count)), n', c') \<and> client_inv c' \<and>
    linked content handle E n' c' fd p off d"
proof -
  from assms(4) obtain host r where host: "host_of E c p = Inr host" and p: "fd_map c fd = Some p"
    and r: "fd_redir_map c fd = Some r" "r \<noteq> 0"
    by (auto simp: linked_def resolves_def)
  from gen_read_linked [OF assms(1-3) _ assms(4) host, of True "int64 count" pos wk] count pos show ?thesis
    by (simp add: hvac_remote_pread_def p host r)
qed

text \<open>Opening a tracked file links its descriptor to the start of the file.\<close>

lemma gen_open_positive:
  assumes "hvac_client_comm_gen_open_rpc (connect ops hg E) host p fd (n, c) = Inr (r, n', c')" "0 < r"
  obtains a s s' c2 where "lookup_server E host (c\<lparr>fds := hvac_set_fd_opening fd (fds c)\<rparr>) = Inr (Some a, c2)"
    and "n a = Some s" and "hvac_open_rpc_handler ops hg \<lparr>open_path = p\<rparr> s = Inr (\<lparr>open_ret_status = r\<rparr>, s')"
    and "n' = n(a \<mapsto> s')" and "address_cache c' = address_cache c2"
proof -
  let ?c0 = "c\<lparr>fds := hvac_set_fd_opening fd (fds c)\<rparr>"
  from assms obtain x c2 where l: "lookup_server E host ?c0 = Inr (x, c2)"
    by (auto simp: hvac_client_comm_gen_open_rpc_def bind_run_eq_Inr)
  obtain d n1 where d: "deliver hg n x (hvac_open_rpc_handler ops hg \<lparr>open_path = p\<rparr>) = (d, n1)" by (metis surj_pair)
  from assms obtain out where out: "d = Completes 0 out" "open_ret_status out = r" "n' = n1"
    and ac: "address_cache c' = address_cache c2"
    by (cases d) (auto simp: hvac_client_comm_gen_open_rpc_def l d client_ops assert_run_eq_Inr HG_SUCCESS_def Let_def
        split: if_splits)
  from d out(1) obtain a s s' where "x = Some a" "n a = Some s" "n1 = n(a \<mapsto> s')"
    "hvac_open_rpc_handler ops hg \<lparr>open_path = p\<rparr> s = Inr (out, s')"
    using deliver_result [OF d] by auto
  moreover have "out = \<lparr>open_ret_status = r\<rparr>" using out(2) by (cases out) simp
  ultimately show thesis using that l out(3) ac by blast
qed

lemma gen_open_linked:
  assumes cl: "cluster_inv content handle n" and inv: "fd_table_wf (fds c)"
    and g: "hvac_client_comm_gen_open_rpc (connect ops hg E) host p fd (n, c) = Inr (r, n', c')"
    and host: "host_of E c p = Inr host" and p: "fd_map c fd = Some p" and fd: "fd_in_range fd" and r: "0 < r"
  shows "\<exists>a s d. n a = Some s \<and> content (srv_os s) p = Some d \<and> linked content handle E n' c' fd p 0 d"
proof -
  from g r obtain a s s' c2 where l: "lookup_server E host (c\<lparr>fds := hvac_set_fd_opening fd (fds c)\<rparr>) = Inr (Some a, c2)"
    and s: "n a = Some s" and o: "hvac_open_rpc_handler ops hg \<lparr>open_path = p\<rparr> s = Inr (\<lparr>open_ret_status = r\<rparr>, s')"
    and n': "n' = n(a \<mapsto> s')" and ac: "address_cache c' = address_cache c2"
    by (rule gen_open_positive)
  from gen_open_result [OF g fd] r obtain cache where
    c': "c' = c\<lparr>address_cache := cache, fd_redir_map := (fd_redir_map c)(fd \<mapsto> r),
             fds := hvac_set_fd_ready fd (hvac_set_fd_opening fd (fds c))\<rparr>" by auto
  from cl s have "cache_coherent content s" by (auto simp: cluster_inv_def server_inv_def)
  moreover note fr = open_handler_frame [OF o]
  ultimately obtain d where d: "content (srv_os s) p = Some d" "content (srv_os s) (redirect_path s p) = Some d"
    using redirect_content [of s p] r by auto
  have "host_of E (c\<lparr>fds := hvac_set_fd_opening fd (fds c)\<rparr>) p = Inr host"
    using host by (simp add: host_of_def split: if_splits)
  then have "resolves E (c\<lparr>fds := hvac_set_fd_opening fd (fds c)\<rparr>) p a"
    using l unfolding resolves_def by blast
  from resolves_stable [OF this l] have r2: "resolves E c2 p a" .
  have "g_hvac_server_count c' = g_hvac_server_count c2"
    using lookup_server_frame [OF l] by (auto simp: c')
  from resolves_fields [OF r2 ac this] have res: "resolves E c' p a" .
  have "fd_status_of (fds c') fd = Some HVAC_FD_READY"
    using ft.open_succeeds [OF inv, of fd] by (simp add: c')
  then have "linked content handle E n' c' fd p 0 d"
    unfolding linked_def using res fr r d p by (auto simp: n' c')
  with s d show ?thesis by blast
qed

lemma track_file_linked:
  assumes cl: "cluster_inv content handle n" and inv: "client_inv c" and fd: "fd_in_range fd"
    and t: "hvac_track_file (connect ops hg E) path flags fd (n, c) = Inr (b, n', c')"
    and p: "track_path E c path = Some p" "\<not> contains_str ''.ports.cfg.'' path"
      "and flags O_ACCMODE \<noteq> O_WRONLY" "and flags O_APPEND = 0"
    and ready: "fd_status_of (fds c') fd = Some HVAC_FD_READY"
  shows "\<exists>a s d. n a = Some s \<and> content (srv_os s) p = Some d \<and> linked content handle E n' c' fd p 0 d"
proof -
  from p have p': "track_path (connect ops hg E) c path = Some p" by simp
  from track_file_tracked [OF t p' p(2-4)] obtain host c1 r e m where
    c1: "c1 = c\<lparr>fd_map := (fd_map c)(fd \<mapsto> p), cl_engine := e, g_mercury_init := m\<rparr>"
    and host: "host_of (connect ops hg E) c1 p = Inr host"
    and g: "hvac_client_comm_gen_open_rpc (connect ops hg E) host p fd (n, c1) = Inr (r, n', c')"
    by metis
  have wf: "fd_table_wf (fds c1)" using client_invD(1) [OF inv] by (simp add: c1)
  have "0 < r"
  proof (rule ccontr)
    assume "\<not> 0 < r"
    with gen_open_result [OF g fd] obtain cache where
      "c' = c1\<lparr>address_cache := cache, fds := hvac_set_fd_error fd (hvac_set_fd_opening fd (fds c1))\<rparr>" by auto
    with ft.open_fails [OF wf, of fd] ready show False by simp
  qed
  from gen_open_linked [OF cl wf g host [unfolded connect_host] _ fd this] show ?thesis by (simp add: c1)
qed

text \<open>A sequence of intercepted reads of a linked descriptor.\<close>

lemma wrap_read_linked:
  assumes "client_inv (w_client w)" "mercury_ok hg" "client_ok E"
    and l: "linked content handle E (w_net w) (w_client w) fd p off d"
    and k: "0 \<le> k" "k \<le> MAX_RW_COUNT" and sym: "dlsym ''read''"
  shows "\<exists>w'. wrap_read (connect ops hg E) lops dlsym start end wk fd True k w =
      Inr ((int (length (take (nat k) (drop off d))), take (nat k) (drop off d)), w') \<and>
    client_inv (w_client w') \<and> w_os w' = w_os w \<and>
    linked content handle E (w_net w') (w_client w') fd p (off + length (take (nat k) (drop off d))) d"
proof -
  have i: "int32 k = k" and c: "chunk d off k = take (nat k) (drop off d)"
    using k by (simp_all add: MAX_RW_COUNT_def int32_id chunk_def min_def)
  have len: "int (length (take (nat k) (drop off d))) < 2 ^ 31"
    using k by (simp add: MAX_RW_COUNT_def)
  from remote_read_linked [OF assms(1-3) l, of k wk] k obtain n' c' where
    r: "hvac_remote_read (connect ops hg E) fd True k wk (w_net w, w_client w) =
      Inr ((int (length (take (nat k) (drop off d))), take (nat k) (drop off d)), n', c')"
    and inv: "client_inv c'" "linked content handle E n' c' fd p (off + length (take (nat k) (drop off d))) d"
    by (auto simp: i c)
  from wrap_read_remote [of dlsym "connect ops hg E" fd True k wk w _ _ n' c' lops start "end", OF sym r _ len] obtain st where
    "wrap_read (connect ops hg E) lops dlsym start end wk fd True k w =
      Inr ((int (length (take (nat k) (drop off d))), take (nat k) (drop off d)),
        w\<lparr>w_net := n', w_client := c', w_stats := st\<rparr>)" by auto
  with inv show ?thesis by simp
qed

lemma wrap_reads_linked:
  assumes "mercury_ok hg" "client_ok E" "dlsym ''read''"
    and "client_inv (w_client w)" "linked content handle E (w_net w) (w_client w) fd p off d"
    and "\<forall>(s, e, k) \<in> set ks. 0 \<le> k \<and> k \<le> MAX_RW_COUNT"
  shows "\<exists>rs w'. wrap_reads (connect ops hg E) lops dlsym wk fd ks w = Inr (rs, w') \<and> w_os w' = w_os w \<and>
    concat (map snd rs) = take (\<Sum>(s, e, k)\<leftarrow>ks. nat k) (drop off d) \<and>
    map fst rs = map (\<lambda>r. int (length (snd r))) rs"
  using assms(4-6)
proof (induction ks arbitrary: w off)
  case Nil
  then show ?case by simp
next
  case (Cons x ks)
  obtain start "end" k where x: "x = (start, end, k)" by (cases x)
  let ?b = "take (nat k) (drop off d)"
  from Cons.prems(3) have k: "0 \<le> k" "k \<le> MAX_RW_COUNT" by (auto simp: x)
  from wrap_read_linked [where dlsym = dlsym, OF Cons.prems(1) assms(1,2) Cons.prems(2) k assms(3)] obtain w1 where
    w1: "wrap_read (connect ops hg E) lops dlsym start end wk fd True k w = Inr ((int (length ?b), ?b), w1)"
    "client_inv (w_client w1)" "w_os w1 = w_os w"
    "linked content handle E (w_net w1) (w_client w1) fd p (off + length ?b) d" by blast
  from Cons.IH [OF w1(2,4)] Cons.prems(3) obtain rs w' where
    rs: "wrap_reads (connect ops hg E) lops dlsym wk fd ks w1 = Inr (rs, w')" "w_os w' = w_os w1"
    "concat (map snd rs) = take (\<Sum>(s, e, k)\<leftarrow>ks. nat k) (drop (off + length ?b) d)"
    "map fst rs = map (\<lambda>r. int (length (snd r))) rs" by auto
  have "drop (off + length ?b) d = drop (nat k) (drop off d)"
    by (cases "nat k \<le> length d - off") (simp_all add: add.commute min_def)
  with rs w1(1,3) show ?case by (simp add: x take_add)
qed

text \<open>What happens on the server of a link without touching its descriptor keeps the link.\<close>

lemma linked_frame:
  assumes l: "linked content handle E n c fd p off d" and s: "n a = Some s"
    and c: "\<And>x y. content (srv_os s) x = Some y \<Longrightarrow> content (srv_os s') x = Some y"
    and h: "\<And>f y. handle (srv_os s) f = Some y \<Longrightarrow> handle (srv_os s') f = Some y"
  shows "linked content handle E (n(a \<mapsto> s')) c fd p off d"
proof -
  from l obtain a' s0 rfd g where m: "fd_map c fd = Some p" "fd_status_of (fds c) fd = Some HVAC_FD_READY"
    and res: "resolves E c p a'" and s0: "n a' = Some s0" and r: "fd_redir_map c fd = Some rfd" "rfd \<noteq> 0"
    and g: "handle (srv_os s0) rfd = Some (g, off)" "content (srv_os s0) g = Some d" "content (srv_os s0) p = Some d"
    unfolding linked_def by blast
  show ?thesis
  proof (cases "a' = a")
    case True
    with s s0 g c h have "handle (srv_os s') rfd = Some (g, off)" "content (srv_os s') g = Some d"
      "content (srv_os s') p = Some d" by simp_all
    with m res r True show ?thesis unfolding linked_def by auto
  next
    case False
    with m res r s0 g show ?thesis unfolding linked_def by auto
  qed
qed

lemma mover_step_handle: "mover_step ops nvmepath s t \<Longrightarrow> handle (srv_os t) = handle (srv_os s)"
proof (induction rule: mover_step.induct)
  case (copy s)
  show ?case
  proof (cases "local_list s")
    case Nil
    then show ?thesis by (simp add: mover_copy_turn_Nil)
  next
    case (Cons p ps)
    then show ?thesis
      by (simp add: mover_copy_turn_Cons) (rule mover_copy_one_cases [of nvmepath p s], simp_all)
  qed
qed (simp_all add: mover_wait_def mover_drain_eq)

lemma open_handler_fresh:
  assumes "hvac_open_rpc_handler ops hg i s = Inr (out, t)" and "handle (srv_os s) f = Some y"
  shows "handle (srv_os t) f = Some y"
proof -
  obtain r os' where o: "sys_open ops (srv_os s) (redirect_path s (open_path i)) O_RDONLY 0 = (r, os')"
    by (metis surj_pair)
  with assms(1) have t: "srv_os t = os'" by (auto simp: hvac_open_rpc_handler_def assert_run_eq_Inr)
  show ?thesis
  proof (cases "r = -1")
    case True
    with open_error o assms(2) show ?thesis by (simp add: t)
  next
    case False
    with open_fd [OF o] assms(2) show ?thesis by (auto simp: t)
  qed
qed

text \<open>The call whose request aborts its server, by what Mercury makes of the missing reply.\<close>

lemma aborted_read_stops:
  assumes inv: "client_inv c" and ok: "client_ok E" and l: "linked content handle E n c fd p off d"
    and host: "host_of E c p = Inr host"
    and dead: "\<And>rfd s. hvac_rpc_handler ops hg \<lparr>input_val = int32 count, bulk_size = uint64 count, accessfd = rfd,
        rpc_offset = pos\<rparr> s = Inl e"
  shows "\<exists>a s rfd. resolves E c p a \<and> n a = Some s \<and> fd_redir_map c fd = Some rfd \<and>
    hvac_client_comm_gen_read_rpc (connect ops hg E) host fd True count pos wk (n, c) = Inl (stopped_by (hg_aborts hg a))"
proof -
  from l obtain a s rfd where m: "fd_map c fd = Some p" "fd_status_of (fds c) fd = Some HVAC_FD_READY"
    and res: "resolves E c p a" and s: "n a = Some s" and r: "fd_redir_map c fd = Some rfd" "rfd \<noteq> 0"
    unfolding linked_def by blast
  from res host obtain c1 where lk: "lookup_server E host c = Inr (Some a, c1)" by (auto simp: resolves_def)
  have "hvac_client_comm_gen_read_rpc (connect ops hg E) host fd True count pos wk (n, c) = Inl (stopped_by (hg_aborts hg a))"
    using ok
    by (cases "hg_aborts hg a")
      (auto simp: hvac_client_comm_gen_read_rpc_def wait_under_inv [OF inv] m r lk client_ops deliver_def s serve_read_def dead
        client_ok_def HG_SUCCESS_def assert_run_def split: prod.split)
  with res s r show ?thesis by blast
qed

end

section \<open>Properties\<close>

text \<open>
  C2: what an application reads of a tracked file is the file. After a successful open of a file in
  the data directory, any sequence of intercepted reads of its descriptor returns, piece by piece, the
  bytes the file has on its server, from the beginning and without gap or repetition; each call
  reports the length of its piece, and the local file is not read at all.
\<close>

theorem tracked_file_read_in_order:
  assumes "posix_files ops content handle" and "mercury_ok hg" and "client_ok E"
    and "cluster_inv content handle n" and "client_inv c" and "fd_in_range fd"
    and "hvac_track_file (connect ops hg E) path flags fd (n, c) = Inr (b, n1, c1)"
    and "track_path E c path = Some p" and "\<not> contains_str ''.ports.cfg.'' path"
    and "and flags O_ACCMODE \<noteq> O_WRONLY" and "and flags O_APPEND = 0"
    and "fd_status_of (fds c1) fd = Some HVAC_FD_READY"
    and "\<forall>(s, e, k) \<in> set ks. 0 \<le> k \<and> k \<le> MAX_RW_COUNT" and "dlsym ''read''"
    and "w_net w = n1" and "w_client w = c1"
  shows "\<exists>a s d rs w'. n a = Some s \<and> content (srv_os s) p = Some d \<and>
    wrap_reads (connect ops hg E) lops dlsym wk fd ks w = Inr (rs, w') \<and> w_os w' = w_os w \<and>
    concat (map snd rs) = take (\<Sum>(s, e, k)\<leftarrow>ks. nat k) d \<and>
    map fst rs = map (\<lambda>r. int (length (snd r))) rs"
proof -
  from posix_files.track_file_linked [OF assms(1,4-12)] obtain a s d where
    d: "n a = Some s" "content (srv_os s) p = Some d" and l: "linked content handle E n1 c1 fd p 0 d" by blast
  from track_file_inv [OF assms(5,7,6)] have "client_inv c1" .
  with posix_files.wrap_reads_linked [where dlsym = dlsym and w = w, OF assms(1-3,14) _ _ assms(13)] l assms(15,16) d
  show ?thesis by (metis drop0)
qed

text \<open>
  C3: an intercepted pread of a linked descriptor returns the bytes at the given offset and leaves
  the position of the descriptor where it was, so that it does not disturb the sequence of reads.
\<close>

theorem tracked_file_pread:
  assumes "posix_files ops content handle" and "mercury_ok hg" and "client_ok E" and "client_inv (w_client w)"
    and "linked content handle E (w_net w) (w_client w) fd p off d"
    and "0 \<le> k" and "k \<le> MAX_RW_COUNT" and "0 \<le> pos" and "dlsym ''pread''"
  shows "\<exists>w'. wrap_pread (connect ops hg E) lops dlsym start end wk fd True k pos w =
      Inr ((int (length (take (nat k) (drop (nat pos) d))), take (nat k) (drop (nat pos) d)), w') \<and>
    w_os w' = w_os w \<and> client_inv (w_client w') \<and>
    linked content handle E (w_net w') (w_client w') fd p off d"
proof -
  have i: "int32 k = k" and ch: "chunk d (nat pos) k = take (nat k) (drop (nat pos) d)"
    using assms(6,7) by (simp_all add: MAX_RW_COUNT_def int32_id chunk_def min_def)
  from posix_files.remote_pread_linked [OF assms(1,4,2,3,5), of k pos wk] assms(6,8) obtain n' c' where
    r: "hvac_remote_pread (connect ops hg E) fd True k pos wk (w_net w, w_client w) =
      Inr ((int (length (take (nat k) (drop (nat pos) d))), take (nat k) (drop (nat pos) d)), n', c')"
    and l: "client_inv c'" "linked content handle E n' c' fd p off d"
    by (auto simp: i ch)
  from assms(5) have "hvac_get_path (w_client w) fd = Some p" by (simp add: linked_def hvac_get_path_def)
  with r assms(9) l show ?thesis by (simp add: wrap_pread_def map_or_fail_def)
qed

text \<open>
  C27: a pread with a negative offset other than -1 on a linked descriptor kills the server and stops
  the application. The handler of the request aborts on its assertion; the call of the client does not
  return: its callback aborts as well if Mercury reports the loss, and otherwise its wait, which has
  no timeout, never ends. A local pread would have returned an error.
\<close>

theorem negative_pread_kills_server:
  assumes "posix_files ops content handle" and "bulk_bounded hg" and "client_ok E" and "client_inv c"
    and "linked content handle E n c fd p off d" and "pos < -1" and "uint64 (int64 count) < 2 ^ 64 - 1"
  shows "\<exists>a s rfd. resolves E c p a \<and> n a = Some s \<and> fd_redir_map c fd = Some rfd \<and>
    hvac_rpc_handler ops hg \<lparr>input_val = int32 (int64 count), bulk_size = uint64 (int64 count), accessfd = rfd,
      rpc_offset = pos\<rparr> s = Inl Assertion_Failed \<and>
    hvac_remote_pread (connect ops hg E) fd True count pos wk (n, c) =
      Inl (if hg_aborts hg a = Silence then Blocked_Forever else Assertion_Failed)"
proof -
  from assms(5) obtain host r where host: "host_of E c p = Inr host" and p: "fd_map c fd = Some p"
    and r: "fd_redir_map c fd = Some r" "r \<noteq> 0"
    by (auto simp: linked_def resolves_def)
  have dead: "hvac_rpc_handler ops hg \<lparr>input_val = int32 (int64 count), bulk_size = uint64 (int64 count), accessfd = x,
      rpc_offset = pos\<rparr> s = Inl Assertion_Failed" for x s
    using assms(2,6,7) posix_files.pread_negative [OF assms(1)]
    by (intro failed_read_aborts [where os' = "srv_os s" and d = "[]"]) (simp_all add: read_file_def)
  from posix_files.aborted_read_stops [OF assms(1,4,3,5) host dead] dead show ?thesis
    by (simp add: hvac_remote_pread_def p host r stopped_by_eq)
qed

text \<open>
  C28: a read of \<open>2^31\<close> to \<open>2^32 - 1\<close> bytes of a linked descriptor kills the server and stops the
  application. The count travels as an \<open>int32_t\<close> and arrives negative, the server tries to allocate
  nearly \<open>2^64\<close> bytes, and the assertion on the allocation aborts it; the client fares as in the case
  of a negative offset.
\<close>

theorem large_read_kills_server:
  assumes "posix_files ops content handle" and "\<And>m. 2 ^ 63 \<le> m \<Longrightarrow> \<not> calloc_ok hg m" and "client_ok E"
    and "client_inv c" and "linked content handle E n c fd p off d" and "2 ^ 31 \<le> count" and "count < 2 ^ 32"
  shows "\<exists>a s rfd. resolves E c p a \<and> n a = Some s \<and> fd_redir_map c fd = Some rfd \<and>
    hvac_rpc_handler ops hg \<lparr>input_val = int32 (int64 count), bulk_size = uint64 (int64 count), accessfd = rfd,
      rpc_offset = -1\<rparr> s = Inl Assertion_Failed \<and>
    hvac_remote_read (connect ops hg E) fd True count wk (n, c) =
      Inl (if hg_aborts hg a = Silence then Blocked_Forever else Assertion_Failed)"
proof -
  from assms(5) obtain host where host: "host_of E c p = Inr host" and p: "fd_map c fd = Some p"
    by (auto simp: linked_def resolves_def)
  have i: "int32 count = count - 2 ^ 32" using assms(6,7) by (rule int32_high)
  have "2 ^ 63 \<le> uint64 (count - 2 ^ 32)" using assms(6,7) by (intro uint64_negative) simp_all
  with assms(2) have "\<not> calloc_ok hg (uint64 (int32 count))" by (simp add: i)
  then have dead: "hvac_rpc_handler ops hg \<lparr>input_val = int32 (int64 count), bulk_size = uint64 (int64 count),
      accessfd = x, rpc_offset = -1\<rparr> s = Inl Assertion_Failed" for x s
    by (simp add: hvac_rpc_handler_def)
  from posix_files.aborted_read_stops [OF assms(1,4,3,5) host dead] dead show ?thesis
    by (simp add: hvac_remote_read_def p host stopped_by_eq)
qed

text \<open>
  The data mover and other clients do not disturb a reader. A step of the mover, or the open
  of any file by any client, on whichever server it happens, leaves every linked descriptor linked to
  the same file, position and bytes.
\<close>

theorem background_keeps_link:
  assumes "posix_files ops content handle" and "linked content handle E n c fd p off d" and "n a = Some s"
    and "mover_step ops nvmepath s s' \<or> (\<exists>i out. hvac_open_rpc_handler ops hg i s = Inr (out, s'))"
  shows "linked content handle E (n(a \<mapsto> s')) c fd p off d"
proof (rule posix_files.linked_frame [OF assms(1-3)])
  show "content (srv_os s') x = Some y" if "content (srv_os s) x = Some y" for x y
    using assms(4) that posix_files.mover_step_content [OF assms(1), of nvmepath s s' x]
      posix_files.open_handler_frame(1) [OF assms(1), of hg _ s _ s'] by fastforce
  show "handle (srv_os s') f = Some y" if "handle (srv_os s) f = Some y" for f y
    using assms(4) that posix_files.mover_step_handle [OF assms(1), of nvmepath s s']
      posix_files.open_handler_fresh [OF assms(1), of hg _ s _ s'] by fastforce
qed

text \<open>
  A read whose count is a multiple of \<open>2^32\<close> looks like the end of the file: the count is cut
  to an \<open>int32_t\<close> and the call returns 0 bytes, whatever the file still holds.
\<close>

theorem multiple_of_4GiB_reads_nothing:
  assumes "posix_files ops content handle" and "mercury_ok hg" and "client_ok E" and "client_inv c"
    and "linked content handle E n c fd p off d"
  shows "\<exists>n' c'. hvac_remote_read (connect ops hg E) fd True (2 ^ 32 * m) wk (n, c) = Inr ((0, []), n', c') \<and>
    linked content handle E n' c' fd p off d"
proof -
  have "int32 (2 ^ 32 * m) = int32 0"
    unfolding int32_def signed_take_bit_eq_iff_take_bit_eq by (simp add: take_bit_eq_mod)
  then have i: "int32 (2 ^ 32 * m) = 0" by (simp add: int32_id)
  from posix_files.remote_read_linked [OF assms(1,4,2,3,5), of "2 ^ 32 * m" wk] show ?thesis
    unfolding i by (auto simp: chunk_def MAX_RW_COUNT_def)
qed

text \<open>
  C15: closing a linked descriptor reaches the server: its descriptor is closed and forgotten there,
  whether or not its path is cached, and the path is queued for the data mover exactly once if it is
  not cached yet, and not at all if it is.
\<close>

theorem close_reaches_server:
  assumes "posix_files ops content handle" and "mercury_ok hg" and "client_ok E" and "client_inv c"
    and "fd_map c fd = Some p" and "host_of E c p = Inr host" and "lookup_server E host c = Inr (Some a, c1)"
    and "n a = Some s" and "fd_redir_map c fd = Some rfd" and "rfd \<noteq> 0"
    and "handle (srv_os s) rfd = Some h" and "fd_to_path s rfd = Some q"
  shows "\<exists>s' c'. hvac_remove_fd (connect ops hg E) fd (n, c) = Inr (True, n(a \<mapsto> s'), c') \<and>
    handle (srv_os s') = (handle (srv_os s))(rfd := None) \<and> fd_to_path s' = (fd_to_path s)(rfd := None) \<and>
    content (srv_os s') = content (srv_os s) \<and> path_cache_map s' = path_cache_map s \<and>
    data_queue s' = (if path_cache_map s q = None then data_queue s @ [q] else data_queue s)"
proof -
  from posix_files.close_ok [OF assms(1,11)] obtain os' where
    o: "sys_close ops (srv_os s) rfd = (0, os')" "handle os' = (handle (srv_os s))(rfd := None)"
      "content os' = content (srv_os s)" by blast
  let ?s1 = "if path_cache_map s q = None then data_cond_signal (s\<lparr>srv_os := os', data_queue := queue_push q (data_queue s)\<rparr>)
    else s\<lparr>srv_os := os'\<rparr>"
  let ?s' = "?s1\<lparr>fd_to_path := (fd_to_path s)(rfd := None)\<rparr>"
  have hnd: "hvac_close_rpc_handler ops hg \<lparr>close_fd = rfd\<rparr> s = Inr ?s'"
    using assms(2,12) o(1)
    by (simp add: hvac_close_rpc_handler_def mercury_ok_def HG_SUCCESS_def Let_def data_cond_signal_def)
  from lookup_server_frame [OF assms(7)] have "fd_redir_map c1 fd = Some rfd" "fd_map c1 = fd_map c"
    using assms(9) by auto
  then have "\<exists>c'. hvac_remove_fd (connect ops hg E) fd (n, c) = Inr (True, n(a \<mapsto> ?s'), c')"
    using assms(3,5,6,7,8,10) hnd
    by (simp add: hvac_remove_fd_def hvac_remote_close_def hvac_client_comm_gen_close_rpc_def client_ops
        client_ok_def HG_SUCCESS_def deliver_def oneway_def)
  with o show ?thesis by (auto simp: queue_push_def data_cond_signal_def)
qed

text \<open>
  Asking a server for its statistics reports success as soon as the request is on its way: the
  result is 0 for every server that can be reached, also when the server answers with an error.
\<close>

theorem stats_request_ignores_answer:
  assumes "client_ok E" and "lookup_server E (atoi ident) c = Inr (Some a, c1)" and "n a = Some s"
  shows "hvac_client_request_server_to_print_stats (connect ops hg E) (Some ident) (n, c) = Inr (0, n, c1)"
  using assms
  by (simp add: hvac_client_request_server_to_print_stats_def client_ops client_ok_def HG_SUCCESS_def
      deliver_def oneway_def fun_upd_idem)

section \<open>Sample cluster\<close>

definition sample_cluster :: "linux server \<Rightarrow> linux cluster" where
  "sample_cluster s = [''tcp:a'' \<mapsto> s]"

abbreviation sample_net :: "linux cluster client_env" where
  "sample_net \<equiv> connect linux_ops sample_mercury (sample_env 0)"

definition clock :: "timespec \<times> timespec" where
  "clock = (\<lparr>tv_sec = 1, tv_nsec = 0\<rparr>, \<lparr>tv_sec = 1, tv_nsec = 5\<rparr>)"

definition cluster_world :: "(linux cluster, linux) world" where
  "cluster_world = \<lparr>w_net = sample_cluster (opened_server Mover_Locking), w_client = sample_tracked ''/data/a'' 3,
     w_os = sample_os, w_stats = no_stats\<rparr>"

lemma sample_client_ok: "client_ok (sample_env status)"
  by (simp add: client_ok_def sample_env_def)

lemma sample_cluster_inv: "cluster_inv files fdt (sample_cluster (server_init sample_os))"
  using lx.server_init_inv [of sample_os] by (simp add: cluster_inv_def sample_cluster_def sample_os_def)

lemma sample_tracked_inv: "client_inv (sample_tracked ''/data/a'' status)"
  using track_file_inv [OF sample_client_inv sample_track_data] by (simp add: fd_in_range_def)

lemma sample_tracked_fields:
  "fd_map (sample_tracked p 3) 5 = Some p" "fd_status_of (fds (sample_tracked p 3)) 5 = Some HVAC_FD_READY"
  "fd_redir_map (sample_tracked p 3) 5 = Some 3" "address_cache (sample_tracked p 3) = [0 \<mapsto> ''tcp:a'']"
  using ft.open_succeeds [OF fd_table_wf_empty, of 5] by (simp_all add: sample_tracked_def)

lemma sample_tracked_host:
  "host_of (sample_env status) (sample_tracked ''/data/a'' 3) ''/data/a'' = Inr 0"
  "lookup_server (sample_env status) 0 (sample_tracked ''/data/a'' 3) = Inr (Some ''tcp:a'', sample_tracked ''/data/a'' 3)"
proof -
  show "host_of (sample_env status) (sample_tracked ''/data/a'' 3) ''/data/a'' = Inr 0"
    by (simp add: host_of_def sample_tracked_def sample_env_def int32_id)
  have "sample_tracked ''/data/a'' 3 = (sample_tracked ''/data/a'' 3)\<lparr>address_cache := [0 \<mapsto> ''tcp:a'']\<rparr>"
    by (simp add: sample_tracked_def)
  then show "lookup_server (sample_env status) 0 (sample_tracked ''/data/a'' 3) =
      Inr (Some ''tcp:a'', sample_tracked ''/data/a'' 3)"
    by (simp add: lookup_server_def lookup_addr_cached sample_tracked_fields int32_id)
qed

lemma sample_cluster_track:
  "hvac_track_file sample_net ''/data/a'' O_RDONLY 5 (sample_cluster (server_init sample_os), sample_client) =
     Inr (True, sample_cluster (opened_server Mover_Locking), sample_tracked ''/data/a'' 3)"
proof -
  have p: "track_path (sample_env 0 :: linux cluster client_env) sample_client ''/data/a'' = Some ''/data/a''"
    by (rule sample_track_path) (simp add: sample_path)
  have "fd_map sample_client = Map.empty" by (simp add: sample_client_def client_initial_def)
  moreover have "hvac_client_comm_gen_open_rpc sample_net 0 ''/data/a'' 5
      (sample_cluster (server_init sample_os), sample_opening ''/data/a'') =
      Inr (3, sample_cluster (opened_server Mover_Locking), sample_tracked ''/data/a'' 3)"
    by (simp add: hvac_client_comm_gen_open_rpc_def sample_lookup client_ops HG_SUCCESS_def int32_id Let_def
        deliver_def sample_cluster_def sample_open sample_tracked_def)
  ultimately show ?thesis
    using p sample_flags by (simp add: hvac_track_file_def sample_ensure sample_host)
qed

lemma sample_linked:
  "linked files fdt (sample_env 0 :: 'n client_env) (sample_cluster (opened_server m)) (sample_tracked ''/data/a'' 3) 5 ''/data/a'' 0
     [10, 20, 30, 40, 50]"
proof -
  have "resolves (sample_env 0 :: 'n client_env) (sample_tracked ''/data/a'' 3) ''/data/a'' ''tcp:a''"
    using sample_tracked_host unfolding resolves_def by blast
  moreover have "sample_cluster (opened_server m) ''tcp:a'' = Some (opened_server m)" by (simp add: sample_cluster_def)
  moreover have "fdt (srv_os (opened_server m)) 3 = Some (''/data/a'', 0)"
    "files (srv_os (opened_server m)) ''/data/a'' = Some [10, 20, 30, 40, 50]"
    by (simp_all add: opened_server_def sample_os_def)
  ultimately show ?thesis
    unfolding linked_def using sample_tracked_fields(1-3) [of "''/data/a''"] zero_neq_numeral by metis
qed

lemma cluster_world_fields:
  "w_net cluster_world = sample_cluster (opened_server Mover_Locking)"
  "w_client cluster_world = sample_tracked ''/data/a'' 3" "w_os cluster_world = sample_os"
  by (simp_all add: cluster_world_def)

theorem tracked_file_read_in_order_witness:
  "\<exists>rs w'. wrap_reads sample_net linux_ops (\<lambda>f. True) [] 5 [(fst clock, snd clock, 2), (fst clock, snd clock, 100)] cluster_world =
     Inr (rs, w') \<and> concat (map snd rs) = [10, 20, 30, 40, 50]"
proof -
  have p: "track_path (sample_env 0 :: linux cluster client_env) sample_client ''/data/a'' = Some ''/data/a''"
    by (rule sample_track_path) (simp add: sample_path)
  have "files (srv_os (server_init sample_os)) ''/data/a'' = Some [10, 20, 30, 40, 50]"
    by (simp add: server_init_def sample_os_def)
  with tracked_file_read_in_order [OF lx.posix_files_axioms sample_mercury_ok(1) sample_client_ok sample_cluster_inv
      sample_client_inv _ sample_cluster_track p _ sample_flags sample_tracked_fields(2),
      of "[(fst clock, snd clock, 2), (fst clock, snd clock, 100)]" "\<lambda>f. True" cluster_world linux_ops "[]"]
  show ?thesis
    by (auto simp: fd_in_range_def MAX_RW_COUNT_def cluster_world_fields sample_cluster_def split: if_splits)
qed

theorem tracked_file_pread_witness:
  "\<exists>w'. wrap_pread sample_net linux_ops (\<lambda>f. True) (fst clock) (snd clock) [] 5 True 2 3 cluster_world =
     Inr ((2, [40, 50]), w')"
  using tracked_file_pread [OF lx.posix_files_axioms sample_mercury_ok(1) sample_client_ok, of cluster_world 0 5
      "''/data/a''" 0 "[10, 20, 30, 40, 50]" 2 3 "\<lambda>f. True" linux_ops "fst clock" "snd clock" "[]"]
    sample_tracked_inv sample_linked
  by (auto simp: cluster_world_fields MAX_RW_COUNT_def numeral_2_eq_2 numeral_3_eq_3)

theorem negative_pread_kills_server_witness:
  "\<exists>s. sample_cluster (opened_server Mover_Waiting) ''tcp:a'' = Some s \<and>
   hvac_rpc_handler linux_ops sample_mercury \<lparr>input_val = 4, bulk_size = 4, accessfd = 3, rpc_offset = -2\<rparr> s = Inl Assertion_Failed \<and>
   hvac_remote_pread sample_net 5 True 4 (-2) [] (sample_cluster (opened_server Mover_Waiting), sample_tracked ''/data/a'' 3) =
     Inl Blocked_Forever"
  using negative_pread_kills_server [OF lx.posix_files_axioms sample_mercury_ok(2) sample_client_ok sample_tracked_inv
        sample_linked, of "-2" 4 Mover_Waiting "[]"]
  by (auto simp: int64_id uint64_id int32_id sample_tracked_fields sample_cluster_def sample_mercury_def split: if_splits)

theorem large_read_kills_server_witness:
  "\<exists>s. sample_cluster (opened_server Mover_Waiting) ''tcp:a'' = Some s \<and>
   hvac_rpc_handler linux_ops sample_mercury \<lparr>input_val = int32 (2 ^ 31), bulk_size = 2 ^ 31, accessfd = 3, rpc_offset = -1\<rparr> s =
     Inl Assertion_Failed \<and>
   hvac_remote_read sample_net 5 True (2 ^ 31) [] (sample_cluster (opened_server Mover_Waiting), sample_tracked ''/data/a'' 3) =
     Inl Blocked_Forever"
  using large_read_kills_server [OF lx.posix_files_axioms _ sample_client_ok sample_tracked_inv sample_linked, of sample_mercury
      "2 ^ 31" Mover_Waiting "[]"]
  by (auto simp: int64_id uint64_id sample_tracked_fields sample_cluster_def sample_mercury_def split: if_splits)

theorem background_keeps_link_witness:
  "linked files fdt (sample_env 0) (sample_cluster (mover_wait (opened_server Mover_Locking)))
     (sample_tracked ''/data/a'' 3) 5 ''/data/a'' 0 [10, 20, 30, 40, 50]"
proof -
  have m: "mover_step linux_ops ''/bb/XXXXXX'' (opened_server Mover_Locking) (mover_wait (opened_server Mover_Locking))"
    by (rule mover_step.wait) (simp add: opened_server_def)
  from background_keeps_link [OF lx.posix_files_axioms sample_linked [of Mover_Locking] _ disjI1 [OF m], of "''tcp:a''"]
  show ?thesis by (simp add: sample_cluster_def)
qed

theorem multiple_of_4GiB_reads_nothing_witness:
  "\<exists>n' c'. hvac_remote_read sample_net 5 True (2 ^ 32 * 1) []
      (sample_cluster (opened_server Mover_Waiting), sample_tracked ''/data/a'' 3) = Inr ((0, []), n', c')"
  using multiple_of_4GiB_reads_nothing [OF lx.posix_files_axioms sample_mercury_ok(1) sample_client_ok
      sample_tracked_inv sample_linked] by blast

theorem close_reaches_server_witness:
  "\<exists>s' c'. hvac_remove_fd sample_net 5 (sample_cluster (opened_server Mover_Waiting), sample_tracked ''/data/a'' 3) =
      Inr (True, sample_cluster s', c') \<and> data_queue s' = [''/data/a'']"
  using close_reaches_server [OF lx.posix_files_axioms sample_mercury_ok(1) sample_client_ok [of 0] sample_tracked_inv
      sample_tracked_fields(1) sample_tracked_host(1,2), of "sample_cluster (opened_server Mover_Waiting)"
      "opened_server Mover_Waiting" 3 "(''/data/a'', 0)" "''/data/a''"]
  by (simp add: sample_tracked_fields sample_cluster_def opened_server_def sample_os_def) blast

theorem stats_request_ignores_answer_witness:
  "hvac_client_request_server_to_print_stats
     (connect linux_ops (sample_mercury\<lparr>hg_get_input := 1\<rparr>) (sample_env 0)) (Some ''0'')
     (sample_cluster (opened_server Mover_Waiting), sample_tracked ''/data/a'' 3) =
   Inr (0, sample_cluster (opened_server Mover_Waiting), sample_tracked ''/data/a'' 3)"
proof -
  have "atoi ''0'' = 0" by code_simp
  then have "lookup_server (sample_env 0 :: linux cluster client_env) (atoi ''0'') (sample_tracked ''/data/a'' 3) =
      Inr (Some ''tcp:a'', sample_tracked ''/data/a'' 3)"
    using sample_tracked_host(2) by simp
  from stats_request_ignores_answer [OF sample_client_ok this] show ?thesis by (simp add: sample_cluster_def)
qed

end
