(* ===== verification/HVAC_Isolation.thy ===== *)
theory HVAC_Isolation
  imports HVAC_System
begin

text \<open>
  Several client processes on one set of servers. A descriptor of a server belongs to the one local
  descriptor, of one client, whose open created it; whatever the other clients do through the library,
  and whatever the movers do, a linked descriptor keeps its file, its bytes and its position as long as
  its server is there. A server can be lost at any time, by an aborted request or otherwise.
\<close>

section \<open>Frames\<close>

text \<open>
  What a step leaves alone: the content of the files that exist, the descriptors outside of \<open>X\<close>
  with their positions, and, as open descriptors, those outside of \<open>Y\<close>.
\<close>

definition server_frame ::
    "('o \<Rightarrow> string \<rightharpoonup> byte list) \<Rightarrow> ('o \<Rightarrow> int \<rightharpoonup> (string \<times> nat)) \<Rightarrow> int set \<Rightarrow> int set \<Rightarrow> 'o server \<Rightarrow> 'o server \<Rightarrow> bool" where
  "server_frame content handle X Y s s' \<longleftrightarrow>
     (\<forall>x y. content (srv_os s) x = Some y \<longrightarrow> content (srv_os s') x = Some y) \<and>
     (\<forall>f y. f \<notin> X \<longrightarrow> handle (srv_os s) f = Some y \<longrightarrow> handle (srv_os s') f = Some y) \<and>
     (\<forall>f. f \<notin> Y \<longrightarrow> handle (srv_os s) f \<noteq> None \<longrightarrow> handle (srv_os s') f \<noteq> None)"

definition cluster_frame ::
    "('o \<Rightarrow> string \<rightharpoonup> byte list) \<Rightarrow> ('o \<Rightarrow> int \<rightharpoonup> (string \<times> nat)) \<Rightarrow> (string \<times> int) set \<Rightarrow> (string \<times> int) set \<Rightarrow>
     'o cluster \<Rightarrow> 'o cluster \<Rightarrow> bool" where
  "cluster_frame content handle X Y n n' \<longleftrightarrow>
     (\<forall>a s. n a = Some s \<longrightarrow> (\<exists>s'. n' a = Some s' \<and> server_frame content handle {f. (a, f) \<in> X} {f. (a, f) \<in> Y} s s')) \<and>
     (\<forall>a. n a = None \<longrightarrow> n' a = None)"

lemma server_frame_refl: "server_frame content handle X Y s s"
  by (simp add: server_frame_def)

lemma cluster_frame_refl: "cluster_frame content handle X Y n n"
  by (simp add: cluster_frame_def server_frame_refl)

lemma cluster_frame_upd:
  "n a = Some s \<Longrightarrow> server_frame content handle {f. (a, f) \<in> X} {f. (a, f) \<in> Y} s s' \<Longrightarrow>
     cluster_frame content handle X Y n (n(a \<mapsto> s'))"
  by (auto simp: cluster_frame_def server_frame_refl)

definition client_frame :: "'n client_env \<Rightarrow> int \<Rightarrow> client \<Rightarrow> client \<Rightarrow> bool" where
  "client_frame E fd c c' \<longleftrightarrow>
     (\<forall>x. x \<noteq> fd \<longrightarrow> fd_map c' x = fd_map c x \<and> fd_redir_map c' x = fd_redir_map c x \<and>
        fd_status_of (fds c') x = fd_status_of (fds c) x) \<and>
     (\<forall>p a. resolves E c p a \<longrightarrow> resolves E c' p a)"

lemma linked_frames:
  assumes l: "linked content handle E n c fd p off d" and cf: "cluster_frame content handle X Y n n'"
    and x: "\<And>a rfd. resolves E c p a \<Longrightarrow> fd_redir_map c fd = Some rfd \<Longrightarrow> rfd \<noteq> 0 \<Longrightarrow> (a, rfd) \<notin> X"
    and c: "fd_map c' fd = fd_map c fd" "fd_redir_map c' fd = fd_redir_map c fd" "fd_status_of (fds c') fd = fd_status_of (fds c) fd"
      "\<And>p a. resolves E c p a \<Longrightarrow> resolves E c' p a"
  shows "linked content handle E n' c' fd p off d"
proof -
  from l obtain a s rfd h where m: "fd_map c fd = Some p" "fd_status_of (fds c) fd = Some HVAC_FD_READY"
    and res: "resolves E c p a" and s: "n a = Some s" and r: "fd_redir_map c fd = Some rfd" "rfd \<noteq> 0"
    and h: "handle (srv_os s) rfd = Some (h, off)" "content (srv_os s) h = Some d" "content (srv_os s) p = Some d"
    unfolding linked_def by blast
  from cf s obtain s' where s': "n' a = Some s'" "server_frame content handle {f. (a, f) \<in> X} {f. (a, f) \<in> Y} s s'"
    unfolding cluster_frame_def by blast
  have "handle (srv_os s') rfd = Some (h, off)" "content (srv_os s') h = Some d" "content (srv_os s') p = Some d"
    using s'(2) h x [OF res r] by (auto simp: server_frame_def)
  with m r s'(1) c(1-3) c(4) [OF res] show ?thesis unfolding linked_def by metis
qed

section \<open>Resolution\<close>

lemma resolves_unique: "resolves E c p a \<Longrightarrow> resolves E c p b \<Longrightarrow> a = b"
  by (auto simp: resolves_def)

lemma resolves_lookup:
  assumes "resolves E c p a" and "lookup_server E h c0 = Inr (x, c2)" and "address_cache c0 = address_cache c"
    and "address_cache c' = address_cache c2" and "g_hvac_server_count c' = g_hvac_server_count c"
  shows "resolves E c' p a"
proof -
  from lookup_server_fields [OF assms(2) assms(3) [symmetric]] obtain c3 where l: "lookup_server E h c = Inr (x, c3)" by blast
  from resolves_stable [OF assms(1) l] have "resolves E c3 p a" .
  moreover have "address_cache c3 = address_cache c2"
    using l assms(2,3) by (fastforce simp: lookup_server_def bind_run_eq_Inr)
  moreover have "g_hvac_server_count c3 = g_hvac_server_count c" using lookup_server_frame [OF l] by auto
  ultimately show ?thesis using resolves_fields [of E c3 p a c'] assms(4,5) by simp
qed

lemma resolves_host: "resolves E c p a \<Longrightarrow> host_of E c p = Inr host \<Longrightarrow> \<exists>c'. lookup_server E host c = Inr (Some a, c')"
  by (auto simp: resolves_def)

section \<open>What the handlers leave alone\<close>

context posix_files
begin

lemma open_handler_sf:
  "hvac_open_rpc_handler ops hg i s = Inr (out, t) \<Longrightarrow> server_frame content handle {} {} s t"
  using open_handler_frame(1) [of hg i s out t] open_handler_fresh [of hg i s out t]
  by (fastforce simp: server_frame_def)

lemma mover_step_sf: "mover_step ops nvmepath s t \<Longrightarrow> server_frame content handle {} {} s t"
  using mover_step_content [of nvmepath s t] mover_step_handle [of nvmepath s t] by (fastforce simp: server_frame_def)

lemma read_file_touch:
  assumes ht: "handles_tracked content handle s" and n: "0 \<le> n" and r: "read_file ops i n (srv_os s) = (res, os')"
  shows "f \<noteq> accessfd i \<Longrightarrow> handle os' f = handle (srv_os s) f" and "handle (srv_os s) f \<noteq> None \<Longrightarrow> handle os' f \<noteq> None"
proof -
  have "(f \<noteq> accessfd i \<longrightarrow> handle os' f = handle (srv_os s) f) \<and> (handle (srv_os s) f \<noteq> None \<longrightarrow> handle os' f \<noteq> None)"
  proof (cases "handle (srv_os s) (accessfd i)")
    case None
    then show ?thesis using r bad_fd [OF None] by (auto simp: read_file_def split: if_splits)
  next
    case (Some x)
    then obtain h off where h: "handle (srv_os s) (accessfd i) = Some (h, off)" by (cases x) auto
    from handles_trackedD [OF ht h] obtain c where c: "content (srv_os s) h = Some c" by auto
    consider "rpc_offset i = -1" | "rpc_offset i < -1" | "0 \<le> rpc_offset i" by linarith
    then show ?thesis
    proof cases
      case 1
      with read_ok [OF h c n] r show ?thesis by (auto simp: read_file_def)
    next
      case 2
      with r show ?thesis by (auto simp: read_file_def pread_negative)
    next
      case 3
      with pread_ok [OF h c n 3] r show ?thesis by (auto simp: read_file_def)
    qed
  qed
  then show "f \<noteq> accessfd i \<Longrightarrow> handle os' f = handle (srv_os s) f" "handle (srv_os s) f \<noteq> None \<Longrightarrow> handle os' f \<noteq> None"
    by blast+
qed

lemma read_handler_sf:
  assumes "server_inv content handle s" and "hvac_rpc_handler ops hg i s = Inr (st, t)"
  shows "server_frame content handle {accessfd i} {} s t"
proof -
  from assms(2) obtain r d os' where r: "read_file ops i (uint64 (input_val i)) (srv_os s) = ((r, d), os')"
    and t: "t = s\<lparr>srv_os := os', fd_to_path := index_insert [] (fd_to_path s) (accessfd i)\<rparr>"
    by (rule read_handler_split)
  from assms(1) have ht: "handles_tracked content handle s" by (simp add: server_inv_def)
  from read_file_touch [OF ht uint64_bounds(1) r] read_handler_inv [OF assms] show ?thesis
    by (simp add: server_frame_def t)
qed

lemma seek_handler_sf:
  assumes "hvac_seek_rpc_handler ops hg i s = Inr (out, t)"
  shows "server_frame content handle {seek_fd i} {} s t"
proof -
  obtain r os' where l: "sys_lseek ops (srv_os s) (seek_fd i) (seek_offset i) (seek_whence i) = (r, os')"
    by (metis surj_pair)
  with assms have t: "t = s\<lparr>srv_os := os'\<rparr>" by (auto simp: hvac_seek_rpc_handler_def assert_run_eq_Inr)
  have "handle os' f \<noteq> None" if "handle (srv_os s) f \<noteq> None" for f
    using lseek_frame(2) [OF l, of f] that by auto
  with lseek_effect [OF l] show ?thesis by (simp add: server_frame_def t)
qed

lemma close_handler_sf:
  assumes "hvac_close_rpc_handler ops hg i s = Inr t"
  shows "server_frame content handle {close_fd i} {close_fd i} s t"
  using assms by (rule close_handler_split) (auto simp: server_frame_def)

lemma close_handler_runs:
  assumes "mercury_ok hg" and "handle (srv_os s) (close_fd i) \<noteq> None"
  shows "\<exists>t. hvac_close_rpc_handler ops hg i s = Inr t"
proof -
  from assms(2) obtain h where "handle (srv_os s) (close_fd i) = Some h" by auto
  from close_ok [OF this] obtain os' where "sys_close ops (srv_os s) (close_fd i) = (0, os')" by blast
  with assms(1) show ?thesis by (simp add: hvac_close_rpc_handler_def mercury_ok_def HG_SUCCESS_def Let_def)
qed

end

section \<open>What the generators do to the cluster\<close>

lemma gen_open_effect:
  assumes "hvac_client_comm_gen_open_rpc (connect ops hg E) h p fd (n, c) = Inr (r, n', c')"
  shows "\<exists>x c2. lookup_server E h (c\<lparr>fds := hvac_set_fd_opening fd (fds c)\<rparr>) = Inr (x, c2) \<and> address_cache c' = address_cache c2 \<and>
    (n' = n \<and> r = -1 \<or>
     (\<exists>a s s'. x = Some a \<and> n a = Some s \<and> n' = n(a \<mapsto> s') \<and>
        hvac_open_rpc_handler ops hg \<lparr>open_path = p\<rparr> s = Inr (\<lparr>open_ret_status = r\<rparr>, s')))"
proof -
  let ?c0 = "c\<lparr>fds := hvac_set_fd_opening fd (fds c)\<rparr>"
  from assms obtain x c2 where l: "lookup_server E h ?c0 = Inr (x, c2)"
    by (auto simp: hvac_client_comm_gen_open_rpc_def bind_run_eq_Inr)
  obtain d n1 where d: "deliver hg n x (hvac_open_rpc_handler ops hg \<lparr>open_path = p\<rparr>) = (d, n1)" by (metis surj_pair)
  from deliver_result [OF d] show ?thesis
  proof (elim disjE exE conjE)
    fix e assume "d = Forward_Error e" "n1 = n"
    with assms l d show ?thesis
      by (intro exI [of _ x] exI [of _ c2]) (auto simp: hvac_client_comm_gen_open_rpc_def client_ops assert_run_eq_Inr)
  next
    assume "d = Never_Completes"
    with assms l d show ?thesis by (auto simp: hvac_client_comm_gen_open_rpc_def client_ops assert_run_eq_Inr)
  next
    fix e out assume "d = Completes e out" "e \<noteq> 0"
    with assms l d show ?thesis by (auto simp: hvac_client_comm_gen_open_rpc_def client_ops assert_run_eq_Inr HG_SUCCESS_def)
  next
    fix e out assume "d = Completes e out" "e \<noteq> 0"
    with assms l d show ?thesis by (auto simp: hvac_client_comm_gen_open_rpc_def client_ops assert_run_eq_Inr HG_SUCCESS_def)
  next
    fix a s s' out
    assume e: "d = Completes 0 out" "x = Some a" "n a = Some s" "hvac_open_rpc_handler ops hg \<lparr>open_path = p\<rparr> s = Inr (out, s')"
      "n1 = n(a \<mapsto> s')"
    with assms l d have "r = open_ret_status out" "n' = n1" "address_cache c' = address_cache c2"
      by (auto simp: hvac_client_comm_gen_open_rpc_def client_ops assert_run_eq_Inr Let_def split: if_splits)
    moreover have "out = \<lparr>open_ret_status = open_ret_status out\<rparr>" by (cases out) simp
    ultimately show ?thesis using l e by (intro exI [of _ x] exI [of _ c2]) auto
  qed
qed

lemma gen_read_effect:
  assumes inv: "client_inv c"
    and g: "hvac_client_comm_gen_read_rpc (connect ops hg E) h fd buf_ok count off wk (n, c) = Inr (res, n', c')"
  shows "(n' = n \<and> c' = c) \<or>
    (\<exists>x. lookup_server E h c = Inr (x, c') \<and>
       (n' = n \<or> (\<exists>a s s' i st. x = Some a \<and> n a = Some s \<and> n' = n(a \<mapsto> s') \<and>
          fd_redir_map c fd = Some (accessfd i) \<and> accessfd i \<noteq> 0 \<and> hvac_rpc_handler ops hg i s = Inr (st, s'))))"
proof (cases "fd_status_of (fds c) fd = Some HVAC_FD_READY")
  case False
  with inv g show ?thesis by (simp add: gen_read_not_ready)
next
  case True
  with client_invD(3) [OF inv] obtain rfd where r: "fd_redir_map c fd = Some rfd" "rfd > 0" by blast
  let ?i = "\<lparr>input_val = int32 count, bulk_size = uint64 count, accessfd = rfd, rpc_offset = off\<rparr>"
  from g inv True r obtain x c1 where l: "lookup_server E h c = Inr (x, c1)"
    by (auto simp: hvac_client_comm_gen_read_rpc_def wait_under_inv bind_run_eq_Inr Let_def)
  obtain d n1 where d: "deliver hg n x (serve_read ops hg ?i) = (d, n1)" by (metis surj_pair)
  have c': "c' = c1"
    using g inv True r l d
    by (cases d) (auto simp: hvac_client_comm_gen_read_rpc_def wait_under_inv client_ops assert_run_eq_Inr)
  from deliver_result [OF d] show ?thesis
  proof (elim disjE exE conjE)
    fix e assume "d = Forward_Error e" "n1 = n"
    with g inv True r l d have "n' = n" by (auto simp: hvac_client_comm_gen_read_rpc_def wait_under_inv client_ops assert_run_eq_Inr)
    with l c' show ?thesis by blast
  next
    assume "d = Never_Completes"
    with g inv True r l d show ?thesis by (auto simp: hvac_client_comm_gen_read_rpc_def wait_under_inv client_ops assert_run_eq_Inr)
  next
    fix e out assume "d = Completes e out" "e \<noteq> 0"
    with g inv True r l d show ?thesis
      by (auto simp: hvac_client_comm_gen_read_rpc_def wait_under_inv client_ops assert_run_eq_Inr HG_SUCCESS_def split: prod.splits)
  next
    fix e out assume "d = Completes e out" "e \<noteq> 0"
    with g inv True r l d show ?thesis
      by (auto simp: hvac_client_comm_gen_read_rpc_def wait_under_inv client_ops assert_run_eq_Inr HG_SUCCESS_def split: prod.splits)
  next
    fix a s s' out
    assume e: "d = Completes 0 out" "x = Some a" "n a = Some s" "serve_read ops hg ?i s = Inr (out, s')" "n1 = n(a \<mapsto> s')"
    from e(4) obtain st where "hvac_rpc_handler ops hg ?i s = Inr (st, s')" by (auto simp: serve_read_def bind_run_eq_Inr)
    moreover from g inv True r l d e(1) have "n' = n1"
      by (cases out) (auto simp: hvac_client_comm_gen_read_rpc_def wait_under_inv client_ops assert_run_eq_Inr)
    ultimately show ?thesis
      using l c' e r by (intro disjI2 exI [of _ x] conjI disjI2 exI [of _ a] exI [of _ s] exI [of _ s'] exI [of _ ?i] exI [of _ st]) simp_all
  qed
qed

text \<open>The seek callback does not look at \<open>info->ret\<close>: a call whose request is lost may return.\<close>

lemma gen_seek_effect:
  assumes g: "hvac_client_comm_gen_seek_rpc (connect ops hg E) h fd off w (n, c) = Inr (r, n', c')" and hg: "mercury_ok hg"
  shows "\<exists>x c1. lookup_server E h c = Inr (x, c1) \<and> c' = c1\<lparr>fd_redir_map := index_insert 0 (fd_redir_map c1) fd\<rparr> \<and>
    (n' = n \<or> (\<exists>a s s' i out. x = Some a \<and> n a = Some s \<and> n' = n(a \<mapsto> s') \<and>
       seek_fd i = index_value 0 (fd_redir_map c) fd \<and> hvac_seek_rpc_handler ops hg i s = Inr (out, s')))"
proof -
  from g obtain x c1 where l: "lookup_server E h c = Inr (x, c1)"
    by (auto simp: hvac_client_comm_gen_seek_rpc_def bind_run_eq_Inr)
  from lookup_server_frame [OF l] have rm: "fd_redir_map c1 = fd_redir_map c" by auto
  let ?i = "\<lparr>seek_fd = index_value 0 (fd_redir_map c1) fd, seek_offset = off, seek_whence = w\<rparr>"
  have run: "hvac_seek_rpc_handler ops hg ?i s \<noteq> Inl err" for s err
    using hg by (simp add: hvac_seek_rpc_handler_def mercury_ok_def split: prod.split)
  obtain d n1 where d: "deliver hg n x (hvac_seek_rpc_handler ops hg ?i) = (d, n1)" by (metis surj_pair)
  have e: "n' = n1 \<and> c' = c1\<lparr>fd_redir_map := index_insert 0 (fd_redir_map c1) fd\<rparr>"
    using g l d by (cases d) (auto simp: hvac_client_comm_gen_seek_rpc_def client_ops assert_run_eq_Inr Let_def)
  from deliver_result [OF d] run have "n1 = n \<or> d = Never_Completes \<or>
      (\<exists>a s s' out. x = Some a \<and> n a = Some s \<and> hvac_seek_rpc_handler ops hg ?i s = Inr (out, s') \<and> n1 = n(a \<mapsto> s'))"
    by blast
  then show ?thesis
  proof (elim disjE exE conjE)
    assume "d = Never_Completes"
    with g l d show ?thesis by (auto simp: hvac_client_comm_gen_seek_rpc_def client_ops assert_run_eq_Inr)
  next
    fix a s s' out assume "x = Some a" "n a = Some s" "hvac_seek_rpc_handler ops hg ?i s = Inr (out, s')" "n1 = n(a \<mapsto> s')"
    with l e rm show ?thesis
      by (intro exI [of _ x] exI [of _ c1] conjI disjI2 exI [of _ a] exI [of _ s] exI [of _ s'] exI [of _ ?i] exI [of _ out]) simp_all
  qed (use l e in blast)
qed

lemma gen_close_effect:
  assumes g: "hvac_client_comm_gen_close_rpc (connect ops hg E) h fd (n, c) = Inr (n', c')"
  shows "\<exists>x c1. lookup_server E h c = Inr (x, c1) \<and> address_cache c' = address_cache c1 \<and>
    (n' = n \<or> (\<exists>a s rfd. x = Some a \<and> n a = Some s \<and> fd_redir_map c fd = Some rfd \<and> rfd \<noteq> 0 \<and>
       n' = (case hvac_close_rpc_handler ops hg \<lparr>close_fd = rfd\<rparr> s of Inl e \<Rightarrow> n(a := None) | Inr s' \<Rightarrow> n(a \<mapsto> s'))))"
proof -
  from g obtain x c1 where l: "lookup_server E h c = Inr (x, c1)"
    by (auto simp: hvac_client_comm_gen_close_rpc_def bind_run_eq_Inr)
  from lookup_server_frame [OF l] have rm: "fd_redir_map c1 = fd_redir_map c" by auto
  show ?thesis
  proof (cases "\<exists>rfd. fd_redir_map c fd = Some rfd \<and> rfd \<noteq> 0")
    case False
    with g l rm show ?thesis
      by (intro exI [of _ x] exI [of _ c1])
        (auto simp: hvac_client_comm_gen_close_rpc_def client_ops assert_run_eq_Inr Let_def split: option.splits)
  next
    case True
    then obtain rfd where r: "fd_redir_map c fd = Some rfd" "rfd \<noteq> 0" by blast
    let ?f = "\<lambda>s. bind_run (hvac_close_rpc_handler ops hg \<lparr>close_fd = rfd\<rparr> s) (\<lambda>s'. Inr ((), s'))"
    have n': "n' = snd (oneway (deliver hg n x ?f))" and ac: "address_cache c' = address_cache c1"
      using g l rm r by (auto simp: hvac_client_comm_gen_close_rpc_def client_ops assert_run_eq_Inr Let_def split: prod.splits)
    have "n' = n \<or> (\<exists>a s. x = Some a \<and> n a = Some s \<and>
       n' = (case hvac_close_rpc_handler ops hg \<lparr>close_fd = rfd\<rparr> s of Inl e \<Rightarrow> n(a := None) | Inr s' \<Rightarrow> n(a \<mapsto> s')))"
      by (cases x) (auto simp: n' deliver_def oneway_def bind_run_def split: option.splits sum.splits)
    with l ac r show ?thesis by blast
  qed
qed

section \<open>Many clients\<close>

text \<open>
  A step of the whole system: one client makes a call of the library that returns, a mover moves, or
  a server is lost. The label names the local descriptor the call is about, or the server. A server can be
  lost at any moment; in particular a request of any client whose handler aborts, as a pread
  with a negative offset does, is the loss of its server, and the client that sent it takes no
  further step. A lost server does not come back. The kernel gives out only descriptors that are not
  open, so a file is tracked under a descriptor that is not tracked yet.
\<close>

datatype system_label = Call nat int | Background | Lost string

inductive system_step ::
    "'o posix_ops \<Rightarrow> mercury \<Rightarrow> (nat \<Rightarrow> 'o cluster client_env) \<Rightarrow> (string \<Rightarrow> string) \<Rightarrow> system_label \<Rightarrow>
     'o cluster \<times> (nat \<Rightarrow> client) \<Rightarrow> 'o cluster \<times> (nat \<Rightarrow> client) \<Rightarrow> bool" for ops hg E nvmepath where
  sys_track: "hvac_track_file (connect ops hg (E k)) path flags fd (n, cs k) = Inr (b, n', c') \<Longrightarrow> fd_in_range fd \<Longrightarrow>
    fd_map (cs k) fd = None \<Longrightarrow> system_step ops hg E nvmepath (Call k fd) (n, cs) (n', cs(k := c'))"
| sys_read: "hvac_remote_read (connect ops hg (E k)) fd buf_ok count wk (n, cs k) = Inr (r, n', c') \<Longrightarrow>
    system_step ops hg E nvmepath (Call k fd) (n, cs) (n', cs(k := c'))"
| sys_pread: "hvac_remote_pread (connect ops hg (E k)) fd buf_ok count off wk (n, cs k) = Inr (r, n', c') \<Longrightarrow>
    system_step ops hg E nvmepath (Call k fd) (n, cs) (n', cs(k := c'))"
| sys_lseek: "hvac_remote_lseek (connect ops hg (E k)) fd loff whence (n, cs k) = Inr (pos, n', c') \<Longrightarrow>
    system_step ops hg E nvmepath (Call k fd) (n, cs) (n', cs(k := c'))"
| sys_remove: "hvac_remove_fd (connect ops hg (E k)) fd (n, cs k) = Inr (b, n', c') \<Longrightarrow>
    system_step ops hg E nvmepath (Call k fd) (n, cs) (n', cs(k := c'))"
| sys_mover: "n a = Some s \<Longrightarrow> mover_step ops (nvmepath a) s s' \<Longrightarrow>
    system_step ops hg E nvmepath Background (n, cs) (n(a \<mapsto> s'), cs)"
| sys_lost: "system_step ops hg E nvmepath (Lost a) (n, cs) (n(a := None), cs)"

inductive system_run ::
    "'o posix_ops \<Rightarrow> mercury \<Rightarrow> (nat \<Rightarrow> 'o cluster client_env) \<Rightarrow> (string \<Rightarrow> string) \<Rightarrow> system_label list \<Rightarrow>
     'o cluster \<times> (nat \<Rightarrow> client) \<Rightarrow> 'o cluster \<times> (nat \<Rightarrow> client) \<Rightarrow> bool" for ops hg E nvmepath where
  sys_nil: "system_run ops hg E nvmepath [] x x"
| sys_snoc: "system_run ops hg E nvmepath ls x y \<Longrightarrow> system_step ops hg E nvmepath l y z \<Longrightarrow>
    system_run ops hg E nvmepath (ls @ [l]) x z"

section \<open>Ownership\<close>

text \<open>A local descriptor owns the remote descriptor it is redirected to, at the address of its path.\<close>

definition owns :: "'n client_env \<Rightarrow> client \<Rightarrow> int \<Rightarrow> string \<Rightarrow> int \<Rightarrow> bool" where
  "owns E c fd a rfd \<longleftrightarrow> (\<exists>p. fd_map c fd = Some p \<and> resolves E c p a) \<and> fd_redir_map c fd = Some rfd \<and> rfd \<noteq> 0"

definition system_inv ::
    "('o \<Rightarrow> string \<rightharpoonup> byte list) \<Rightarrow> ('o \<Rightarrow> int \<rightharpoonup> (string \<times> nat)) \<Rightarrow> (nat \<Rightarrow> 'n client_env) \<Rightarrow>
     'o cluster \<Rightarrow> (nat \<Rightarrow> client) \<Rightarrow> bool" where
  "system_inv content handle E n cs \<longleftrightarrow>
     cluster_inv content handle n \<and> (\<forall>k. client_inv (cs k)) \<and>
     (\<forall>k fd rfd. fd_redir_map (cs k) fd = Some rfd \<longrightarrow> rfd \<noteq> 0 \<longrightarrow>
        (\<exists>a. owns (E k) (cs k) fd a rfd \<and> (\<forall>s. n a = Some s \<longrightarrow> handle (srv_os s) rfd \<noteq> None))) \<and>
     (\<forall>k fd k' fd' a rfd. owns (E k) (cs k) fd a rfd \<longrightarrow> owns (E k') (cs k') fd' a rfd \<longrightarrow> k = k' \<and> fd = fd')"

lemma owns_unique: "owns E c fd a rfd \<Longrightarrow> owns E c fd b rfd' \<Longrightarrow> a = b \<and> rfd = rfd'"
  unfolding owns_def using resolves_unique by (metis option.inject)

lemma system_invD:
  assumes "system_inv content handle E n cs"
  shows "cluster_inv content handle n" and "client_inv (cs k)"
    and "fd_redir_map (cs k) fd = Some rfd \<Longrightarrow> rfd \<noteq> 0 \<Longrightarrow>
      \<exists>a. owns (E k) (cs k) fd a rfd \<and> (\<forall>s. n a = Some s \<longrightarrow> handle (srv_os s) rfd \<noteq> None)"
    and "owns (E k) (cs k) fd a rfd \<Longrightarrow> owns (E k') (cs k') fd' a rfd \<Longrightarrow> k = k' \<and> fd = fd'"
  using assms unfolding system_inv_def by metis+

lemma owner_open:
  assumes "system_inv content handle E n cs" and "owns (E k) (cs k) fd a rfd" and "n a = Some s"
  shows "handle (srv_os s) rfd \<noteq> None"
proof -
  from assms(2) have "fd_redir_map (cs k) fd = Some rfd" "rfd \<noteq> 0" by (simp_all add: owns_def)
  from system_invD(3) [OF assms(1) this] obtain b where
    b: "owns (E k) (cs k) fd b rfd" "\<forall>s. n b = Some s \<longrightarrow> handle (srv_os s) rfd \<noteq> None" by blast
  with owns_unique [OF assms(2) b(1)] assms(3) show ?thesis by blast
qed

lemma frame_keeps_open:
  assumes "cluster_frame content handle X Y n n'" and "\<forall>s. n a = Some s \<longrightarrow> handle (srv_os s) rfd \<noteq> None" and "(a, rfd) \<notin> Y"
  shows "\<forall>s. n' a = Some s \<longrightarrow> handle (srv_os s) rfd \<noteq> None"
proof (cases "n a")
  case None
  with assms(1) show ?thesis by (simp add: cluster_frame_def)
next
  case (Some s)
  with assms(1) obtain s' where "n' a = Some s'" "server_frame content handle {f. (a, f) \<in> X} {f. (a, f) \<in> Y} s s'"
    unfolding cluster_frame_def by blast
  with Some assms(2,3) show ?thesis by (auto simp: server_frame_def)
qed

lemma client_frame_owns:
  assumes "client_frame E fd c c'" and "x \<noteq> fd"
  shows "owns E c x a rfd \<Longrightarrow> owns E c' x a rfd"
  using assms by (auto simp: client_frame_def owns_def)

text \<open>The step of one client, seen from the invariant.\<close>

lemma system_inv_upd:
  assumes inv: "system_inv content handle E n cs"
    and frame: "client_frame (E k) fd (cs k) c'" "cluster_frame content handle X Y n n'"
    and keep: "cluster_inv content handle n'" "client_inv c'"
    and others: "\<And>k' fd' a rfd. owns (E k') (cs k') fd' a rfd \<Longrightarrow> (k', fd') \<noteq> (k, fd) \<Longrightarrow> (a, rfd) \<notin> Y"
    and own: "\<And>rfd. fd_redir_map c' fd = Some rfd \<Longrightarrow> rfd \<noteq> 0 \<Longrightarrow>
      \<exists>a. owns (E k) c' fd a rfd \<and> (\<forall>s. n' a = Some s \<longrightarrow> handle (srv_os s) rfd \<noteq> None) \<and>
        (\<forall>k' fd'. owns (E k') (cs k') fd' a rfd \<longrightarrow> (k', fd') = (k, fd))"
  shows "system_inv content handle E n' (cs(k := c'))"
proof -
  let ?cs = "cs(k := c')"
  have backward: "owns (E k') (cs k') fd' a rfd" if "owns (E k') (?cs k') fd' a rfd" "(k', fd') \<noteq> (k, fd)" for k' fd' a rfd
  proof -
    from that have r: "fd_redir_map (cs k') fd' = Some rfd" "rfd \<noteq> 0"
      using frame(1) by (auto simp: owns_def client_frame_def split: if_splits)
    from system_invD(3) [OF inv r] obtain b where b: "owns (E k') (cs k') fd' b rfd" by blast
    then have "owns (E k') (?cs k') fd' b rfd"
      using that(2) client_frame_owns [OF frame(1)] by (cases "k' = k") auto
    with owns_unique [OF that(1)] b show ?thesis by blast
  qed
  have A: "\<exists>a. owns (E k') (?cs k') fd' a rfd \<and> (\<forall>s. n' a = Some s \<longrightarrow> handle (srv_os s) rfd \<noteq> None)"
    if r: "fd_redir_map (?cs k') fd' = Some rfd" "rfd \<noteq> 0" for k' fd' rfd
  proof (cases "(k', fd') = (k, fd)")
    case True
    with own r show ?thesis by auto
  next
    case False
    then have "fd_redir_map (cs k') fd' = Some rfd" using r(1) frame(1) by (auto simp: client_frame_def split: if_splits)
    from system_invD(3) [OF inv this r(2)] obtain a where a: "owns (E k') (cs k') fd' a rfd"
      "\<forall>s. n a = Some s \<longrightarrow> handle (srv_os s) rfd \<noteq> None" by blast
    moreover have "owns (E k') (?cs k') fd' a rfd"
      using a(1) False client_frame_owns [OF frame(1)] by (cases "k' = k") auto
    ultimately show ?thesis using frame_keeps_open [OF frame(2) a(2) others [OF a(1) False]] by blast
  qed
  have B: "k1 = k2 \<and> f1 = f2" if o: "owns (E k1) (?cs k1) f1 a rfd" "owns (E k2) (?cs k2) f2 a rfd" for k1 f1 k2 f2 a rfd
  proof -
    have new: "(k2, f2) = (k, fd)" if o: "owns (E k) (?cs k) fd a rfd" "owns (E k2) (?cs k2) f2 a rfd" for k2 f2
    proof (rule ccontr)
      assume ne: "(k2, f2) \<noteq> (k, fd)"
      from o(1) own obtain b where "owns (E k) c' fd b rfd" "\<forall>k' fd'. owns (E k') (cs k') fd' b rfd \<longrightarrow> (k', fd') = (k, fd)"
        by (auto simp: owns_def)
      with owns_unique [of "E k" c' fd a rfd b rfd] o(1) backward [OF o(2) ne] ne show False by auto
    qed
    show ?thesis
    proof (cases "(k1, f1) = (k, fd) \<or> (k2, f2) = (k, fd)")
      case True
      then show ?thesis using new [of k1 f1] new [of k2 f2] o by (elim disjE) simp_all
    next
      case False
      with system_invD(4) [OF inv] backward o show ?thesis by blast
    qed
  qed
  have "client_inv (?cs j)" for j using system_invD(2) [OF inv] keep(2) by simp
  with keep(1) A B show ?thesis unfolding system_inv_def by blast
qed

section \<open>One call at a time\<close>

text \<open>
  What a call on a descriptor may do: change the entries of this descriptor in its own client, and
  on the servers the position of the remote descriptor it owns, or close it and forget it.
\<close>

definition call_frame ::
    "('o \<Rightarrow> string \<rightharpoonup> byte list) \<Rightarrow> ('o \<Rightarrow> int \<rightharpoonup> (string \<times> nat)) \<Rightarrow> 'n client_env \<Rightarrow> int \<Rightarrow>
     'o cluster \<Rightarrow> client \<Rightarrow> 'o cluster \<Rightarrow> client \<Rightarrow> bool" where
  "call_frame content handle E fd n c n' c' \<longleftrightarrow>
     client_frame E fd c c' \<and> cluster_inv content handle n' \<and> client_inv c' \<and>
     (\<exists>X Y. cluster_frame content handle X Y n n' \<and> Y \<subseteq> X \<and>
        (\<forall>a rfd. (a, rfd) \<in> X \<longrightarrow> rfd \<noteq> 0 \<longrightarrow> owns E c fd a rfd) \<and>
        (fd_redir_map c' fd \<in> {None, Some 0} \<or>
         Y = {} \<and> fd_redir_map c' fd = fd_redir_map c fd \<and> (\<forall>a rfd. owns E c fd a rfd \<longrightarrow> owns E c' fd a rfd)))"

lemma call_frame_nothing:
  "cluster_inv content handle n \<Longrightarrow> client_inv c \<Longrightarrow> call_frame content handle E fd n c n c"
  unfolding call_frame_def client_frame_def
  by (auto intro!: exI [of _ "{}"] cluster_frame_refl)

lemma lookup_client_frame:
  assumes "lookup_server E h c = Inr (x, c')"
  shows "client_frame E fd c c'" and "owns E c fd a rfd \<Longrightarrow> owns E c' fd a rfd" and "client_inv c \<Longrightarrow> client_inv c'"
    and "fd_redir_map c' = fd_redir_map c" and "fd_map c' = fd_map c"
proof -
  obtain cache where c': "c' = c\<lparr>address_cache := cache\<rparr>" using lookup_server_frame [OF assms] by blast
  show "client_frame E fd c c'" using resolves_stable [OF _ assms] by (simp add: client_frame_def c')
  show "owns E c fd a rfd \<Longrightarrow> owns E c' fd a rfd" using resolves_stable [OF _ assms] by (auto simp: owns_def c')
  show "client_inv c \<Longrightarrow> client_inv c'" "fd_redir_map c' = fd_redir_map c" "fd_map c' = fd_map c" by (simp_all add: c')
qed

lemma ownsI:
  "fd_map c fd = Some p \<Longrightarrow> host_of E c p = Inr host \<Longrightarrow> lookup_server E host c = Inr (Some a, c1) \<Longrightarrow>
     fd_redir_map c fd = Some rfd \<Longrightarrow> rfd \<noteq> 0 \<Longrightarrow> owns E c fd a rfd"
  by (auto simp: owns_def resolves_def)

lemma index_insert_client_frame:
  "client_frame E fd c (c\<lparr>fd_redir_map := index_insert 0 (fd_redir_map c) fd\<rparr>)"
  by (auto simp: client_frame_def intro: resolves_fields)

context posix_files
begin

lemma cluster_inv_upd:
  assumes "cluster_inv content handle n" and "n a = Some s" and "server_step ops hg nvmepath s s'"
  shows "cluster_inv content handle (n(a \<mapsto> s'))"
proof -
  have "server_inv content handle s" using assms(1,2) by (simp add: cluster_inv_def)
  with server_step_inv [OF assms(3)] assms(1) show ?thesis by (auto simp: cluster_inv_def)
qed

lemma gen_read_call:
  assumes cl: "cluster_inv content handle n" and inv: "client_inv c" and p: "fd_map c fd = Some p" and h: "host_of E c p = Inr host"
    and g: "hvac_client_comm_gen_read_rpc (connect ops hg E) host fd buf_ok count off wk (n, c) = Inr (res, n', c')"
  shows "call_frame content handle E fd n c n' c'"
  using gen_read_effect [OF inv g]
proof (elim disjE exE conjE)
  assume "n' = n" "c' = c"
  with cl inv show ?thesis by (simp add: call_frame_nothing)
next
  fix x assume l: "lookup_server E host c = Inr (x, c')" and "n' = n"
  with cl inv lookup_client_frame [OF l] show ?thesis
    unfolding call_frame_def by (auto intro!: exI [of _ "{}"] cluster_frame_refl)
next
  fix x a s s' i st
  assume l: "lookup_server E host c = Inr (x, c')" and x: "x = Some a" and s: "n a = Some s" and n': "n' = n(a \<mapsto> s')"
    and r: "fd_redir_map c fd = Some (accessfd i)" "accessfd i \<noteq> 0" and hd: "hvac_rpc_handler ops hg i s = Inr (st, s')"
  have si: "server_inv content handle s" using cl s by (simp add: cluster_inv_def)
  have "cluster_frame content handle {(a, accessfd i)} {} n n'"
    unfolding n' using s read_handler_sf [OF si hd] by (intro cluster_frame_upd [of n a s, OF s]) simp
  moreover have "owns E c fd a (accessfd i)" using ownsI [OF p h l [unfolded x] r] .
  moreover have "cluster_inv content handle n'" unfolding n' using server_step.on_read [OF hd] by (rule cluster_inv_upd [OF cl s])
  ultimately show ?thesis
    unfolding call_frame_def using lookup_client_frame [OF l] inv
    by (intro conjI exI [of _ "{(a, accessfd i)}"] exI [of _ "{}"]) auto
qed

lemma remote_read_call:
  assumes "cluster_inv content handle n" and "client_inv c"
    and "hvac_remote_read (connect ops hg E) fd buf_ok count wk (n, c) = Inr (res, n', c')"
  shows "call_frame content handle E fd n c n' c'"
  using assms
  by (auto simp: hvac_remote_read_def bind_run_eq_Inr call_frame_nothing split: option.splits intro: gen_read_call [OF assms(1,2)])

lemma remote_pread_call:
  assumes cl: "cluster_inv content handle n" and inv: "client_inv c"
    and g: "hvac_remote_pread (connect ops hg E) fd buf_ok count off wk (n, c) = Inr (res, n', c')"
  shows "call_frame content handle E fd n c n' c'"
proof (cases "fd_map c fd")
  case None
  with g cl inv show ?thesis by (simp add: hvac_remote_pread_def call_frame_nothing)
next
  case (Some p)
  show ?thesis
  proof (cases "index_value 0 (fd_redir_map c) fd = 0")
    case True
    with g Some have "n' = n" "c' = c\<lparr>fd_redir_map := index_insert 0 (fd_redir_map c) fd\<rparr>"
      by (simp_all add: hvac_remote_pread_def)
    with True cl client_inv_index_insert [OF inv] index_insert_client_frame [of E fd c] show ?thesis
      unfolding call_frame_def by (auto simp: index_insert_same intro!: exI [of _ "{}"] cluster_frame_refl)
  next
    case False
    then have "index_insert 0 (fd_redir_map c) fd = fd_redir_map c"
      by (cases "fd_redir_map c fd") simp_all
    with g Some False show ?thesis
      by (auto simp: hvac_remote_pread_def bind_run_eq_Inr intro: gen_read_call [OF cl inv Some])
  qed
qed

lemma remote_lseek_call:
  assumes cl: "cluster_inv content handle n" and inv: "client_inv c" and hg: "mercury_ok hg"
    and g: "hvac_remote_lseek (connect ops hg E) fd off w (n, c) = Inr (r, n', c')"
  shows "call_frame content handle E fd n c n' c'"
proof (cases "fd_map c fd")
  case None
  with g cl inv show ?thesis by (simp add: hvac_remote_lseek_def call_frame_nothing)
next
  case (Some p)
  with g obtain host where h: "host_of E c p = Inr host"
    and gs: "hvac_client_comm_gen_seek_rpc (connect ops hg E) host fd off w (n, c) = Inr (r, n', c')"
    by (auto simp: hvac_remote_lseek_def bind_run_eq_Inr)
  let ?rfd = "index_value 0 (fd_redir_map c) fd"
  from gen_seek_effect [OF gs hg] obtain x c1 where l: "lookup_server E host c = Inr (x, c1)"
    and c': "c' = c1\<lparr>fd_redir_map := index_insert 0 (fd_redir_map c1) fd\<rparr>"
    and n': "n' = n \<or> (\<exists>a s s' i out. x = Some a \<and> n a = Some s \<and> n' = n(a \<mapsto> s') \<and>
       seek_fd i = ?rfd \<and> hvac_seek_rpc_handler ops hg i s = Inr (out, s'))" by blast
  note lf = lookup_client_frame [OF l]
  have X: "\<exists>X. cluster_frame content handle X {} n n' \<and> (\<forall>a rfd. (a, rfd) \<in> X \<longrightarrow> rfd \<noteq> 0 \<longrightarrow> owns E c fd a rfd) \<and>
      cluster_inv content handle n'"
    using n'
  proof (elim disjE exE conjE)
    assume "n' = n"
    with cl show ?thesis by (auto intro!: exI [of _ "{}"] cluster_frame_refl)
  next
    fix a s s' i out
    assume x: "x = Some a" and s: "n a = Some s" and n': "n' = n(a \<mapsto> s')" and i: "seek_fd i = ?rfd"
      and hd: "hvac_seek_rpc_handler ops hg i s = Inr (out, s')"
    have X: "cluster_frame content handle {(a, ?rfd)} {} n n'"
      unfolding n' using s seek_handler_sf [OF hd] by (intro cluster_frame_upd [of n a s, OF s]) (simp add: i)
    have own: "owns E c fd a ?rfd" if "?rfd \<noteq> 0"
      using ownsI [OF Some h l [unfolded x], of ?rfd] that by (cases "fd_redir_map c fd") simp_all
    have "cluster_inv content handle n'" unfolding n' using server_step.on_seek [OF hd] by (rule cluster_inv_upd [OF cl s])
    with X own show ?thesis by (intro exI [of _ "{(a, ?rfd)}"]) auto
  qed
  have "client_frame E fd c c'"
    using lf(1) [of fd] index_insert_client_frame [of E fd c1] unfolding c' client_frame_def by auto
  moreover have "client_inv c'" unfolding c' using lf(3) [OF inv] by (rule client_inv_index_insert)
  moreover have "fd_redir_map c' fd \<in> {None, Some 0} \<or>
      fd_redir_map c' fd = fd_redir_map c fd \<and> (\<forall>b q. owns E c fd b q \<longrightarrow> owns E c' fd b q)"
  proof (cases "fd_redir_map c fd")
    case None
    then show ?thesis by (simp add: c' lf(4) index_insert_def)
  next
    case (Some q)
    then have "c' = c1" by (simp add: c' lf(4) index_insert_def flip: lf(4))
    with lf show ?thesis by simp
  qed
  moreover from X obtain X where "cluster_frame content handle X {} n n'" "cluster_inv content handle n'"
    "\<forall>a rfd. (a, rfd) \<in> X \<longrightarrow> rfd \<noteq> 0 \<longrightarrow> owns E c fd a rfd" by blast
  ultimately show ?thesis
    unfolding call_frame_def by (intro conjI exI [of _ X] exI [of _ "{}"]) simp_all
qed

lemma remove_fd_call:
  assumes cl: "cluster_inv content handle n" and inv: "client_inv c" and hg: "mercury_ok hg"
    and g: "hvac_remove_fd (connect ops hg E) fd (n, c) = Inr (b, n', c')"
    and own: "\<And>a rfd s. owns E c fd a rfd \<Longrightarrow> n a = Some s \<Longrightarrow> handle (srv_os s) rfd \<noteq> None"
  shows "call_frame content handle E fd n c n' c'"
proof (cases "fd_map c fd")
  case None
  with g have "n' = n" "c' = c" by (auto simp: hvac_remove_fd_def hvac_remote_close_def fun_upd_idem)
  with cl inv show ?thesis by (simp add: call_frame_nothing)
next
  case (Some p)
  with g obtain host c2 where h: "host_of E c p = Inr host"
    and gc: "hvac_client_comm_gen_close_rpc (connect ops hg E) host fd (n, c) = Inr (n', c2)"
    and c': "c' = c2\<lparr>fd_map := (fd_map c2)(fd := None)\<rparr>"
    by (auto simp: hvac_remove_fd_def hvac_remote_close_def bind_run_eq_Inr)
  from gen_close_effect [OF gc] obtain x c1 where l: "lookup_server E host c = Inr (x, c1)" and ac: "address_cache c2 = address_cache c1"
    and n': "n' = n \<or> (\<exists>a s rfd. x = Some a \<and> n a = Some s \<and> fd_redir_map c fd = Some rfd \<and> rfd \<noteq> 0 \<and>
       n' = (case hvac_close_rpc_handler ops hg \<lparr>close_fd = rfd\<rparr> s of Inl e \<Rightarrow> n(a := None) | Inr s' \<Rightarrow> n(a \<mapsto> s')))"
    by blast
  from gen_close_frame [OF gc] obtain cache where c2: "c2 = c\<lparr>address_cache := cache,
      fd_redir_map := (if fd_redir_map c fd = Some 0 then fd_redir_map c else (fd_redir_map c)(fd := None)),
      fds := hvac_cleanup_fd_state fd (fds c)\<rparr>" by blast
  have cf: "client_frame E fd c c'"
    using resolves_lookup [OF _ l refl, of _ _ c'] ac ft.status_cleanup [OF client_invD(1) [OF inv]]
    unfolding client_frame_def by (auto simp: c' c2)
  have red: "fd_redir_map c' fd \<in> {None, Some 0}" by (simp add: c' c2)
  have "\<exists>X. cluster_frame content handle X X n n' \<and> (\<forall>a rfd. (a, rfd) \<in> X \<longrightarrow> owns E c fd a rfd) \<and> cluster_inv content handle n'"
    using n'
  proof (elim disjE exE conjE)
    assume "n' = n"
    with cl show ?thesis by (auto intro!: exI [of _ "{}"] cluster_frame_refl)
  next
    fix a s rfd
    assume x: "x = Some a" and s: "n a = Some s" and r: "fd_redir_map c fd = Some rfd" "rfd \<noteq> 0"
      and e: "n' = (case hvac_close_rpc_handler ops hg \<lparr>close_fd = rfd\<rparr> s of Inl e \<Rightarrow> n(a := None) | Inr s' \<Rightarrow> n(a \<mapsto> s'))"
    have o: "owns E c fd a rfd" using ownsI [OF Some h l [unfolded x] r] .
    from own [OF o s] close_handler_runs [OF hg, of s "\<lparr>close_fd = rfd\<rparr>"] obtain s' where
      hd: "hvac_close_rpc_handler ops hg \<lparr>close_fd = rfd\<rparr> s = Inr s'" by auto
    then have n': "n' = n(a \<mapsto> s')" using e by simp
    have "cluster_frame content handle {(a, rfd)} {(a, rfd)} n n'"
      unfolding n' using close_handler_sf [OF hd] by (intro cluster_frame_upd [of n a s, OF s]) simp
    moreover have "cluster_inv content handle n'" unfolding n' using server_step.on_close [OF hd] by (rule cluster_inv_upd [OF cl s])
    ultimately show ?thesis using o by (intro exI [of _ "{(a, rfd)}"]) auto
  qed
  then show ?thesis
    unfolding call_frame_def using cf red remove_fd_inv [OF inv g] by blast
qed

lemma open_handler_new:
  assumes "hvac_open_rpc_handler ops hg i s = Inr (\<lparr>open_ret_status = r\<rparr>, t)" and "0 < r"
  shows "handle (srv_os s) r = None \<and> handle (srv_os t) r \<noteq> None"
proof -
  obtain fd os' where o: "sys_open ops (srv_os s) (redirect_path s (open_path i)) O_RDONLY 0 = (fd, os')" by (metis surj_pair)
  with assms(1) have "fd = r" "srv_os t = os'" by (auto simp: hvac_open_rpc_handler_def assert_run_eq_Inr)
  with open_fd [OF o] assms(2) show ?thesis by simp
qed

lemma gen_open_call:
  assumes cl: "cluster_inv content handle n" and wf: "fd_table_wf (fds c)" and fd: "fd_in_range fd"
    and p: "fd_map c fd = Some p" and h: "host_of E c p = Inr host"
    and g: "hvac_client_comm_gen_open_rpc (connect ops hg E) host p fd (n, c) = Inr (r, n', c')"
  shows "client_frame E fd c c'" and "cluster_inv content handle n'" and "cluster_frame content handle {} {} n n'"
    and "0 < r \<Longrightarrow> \<exists>a s s'. owns E c' fd a r \<and> n a = Some s \<and> handle (srv_os s) r = None \<and> n' a = Some s' \<and> handle (srv_os s') r \<noteq> None"
proof -
  from gen_open_effect [OF g] obtain x c2 where l: "lookup_server E host (c\<lparr>fds := hvac_set_fd_opening fd (fds c)\<rparr>) = Inr (x, c2)"
    and ac: "address_cache c' = address_cache c2"
    and n': "n' = n \<and> r = -1 \<or> (\<exists>a s s'. x = Some a \<and> n a = Some s \<and> n' = n(a \<mapsto> s') \<and>
        hvac_open_rpc_handler ops hg \<lparr>open_path = p\<rparr> s = Inr (\<lparr>open_ret_status = r\<rparr>, s'))" by blast
  from gen_open_result [OF g fd] have c': "fd_map c' = fd_map c" "g_hvac_server_count c' = g_hvac_server_count c"
    "\<forall>y. y \<noteq> fd \<longrightarrow> fd_redir_map c' y = fd_redir_map c y \<and> fd_status_of (fds c') y = fd_status_of (fds c) y"
    "0 < r \<Longrightarrow> fd_redir_map c' fd = Some r"
    using ft.open_succeeds [OF wf] ft.open_fails [OF wf] by (auto split: if_splits)
  have res: "resolves E c' q b" if "resolves E c q b" for q b
    using resolves_lookup [OF that l _ ac c'(2)] by simp
  with c' show "client_frame E fd c c'" by (auto simp: client_frame_def)
  from n' show "cluster_inv content handle n'"
    using cl cluster_inv_upd [OF cl] server_step.on_open by fastforce
  from n' show "cluster_frame content handle {} {} n n'"
    using open_handler_sf cluster_frame_upd [where n = n] by (fastforce intro: cluster_frame_refl)
  show "\<exists>a s s'. owns E c' fd a r \<and> n a = Some s \<and> handle (srv_os s) r = None \<and> n' a = Some s' \<and> handle (srv_os s') r \<noteq> None"
    if r: "0 < r"
  proof -
    from n' r obtain a s s' where x: "x = Some a" and s: "n a = Some s" "n' = n(a \<mapsto> s')"
      and o: "hvac_open_rpc_handler ops hg \<lparr>open_path = p\<rparr> s = Inr (\<lparr>open_ret_status = r\<rparr>, s')" by auto
    from lookup_server_fields [OF l, of c] x obtain c3 where "lookup_server E host c = Inr (Some a, c3)" by auto
    with h have "resolves E c p a" by (auto simp: resolves_def)
    with res p c' r have "owns E c' fd a r" by (auto simp: owns_def)
    with s open_handler_new [OF o r] show ?thesis by (intro exI [of _ a] exI [of _ s] exI [of _ s']) simp
  qed
qed

lemma track_file_call:
  assumes cl: "cluster_inv content handle n" and inv: "client_inv c" and fd: "fd_in_range fd" and new: "fd_map c fd = None"
    and t: "hvac_track_file (connect ops hg E) path flags fd (n, c) = Inr (b, n', c')"
  shows "client_frame E fd c c' \<and> cluster_inv content handle n' \<and> cluster_frame content handle {} {} n n' \<and>
    (\<forall>rfd. fd_redir_map c' fd = Some rfd \<longrightarrow> rfd \<noteq> 0 \<longrightarrow>
       (\<exists>a s s'. owns E c' fd a rfd \<and> n a = Some s \<and> handle (srv_os s) rfd = None \<and> n' a = Some s' \<and> handle (srv_os s') rfd \<noteq> None))"
  using t
proof (cases rule: track_file_cases)
  case skipped
  moreover have "fd_redir_map c fd = Some rfd \<Longrightarrow> rfd = 0" for rfd using client_invD(4) [OF inv, of fd rfd] new by auto
  ultimately show ?thesis using cl by (auto simp: client_frame_def cluster_frame_refl)
next
  case (tracked p)
  with track_file_tracked [OF t] obtain host c1 r e m where
    c1: "c1 = c\<lparr>fd_map := (fd_map c)(fd \<mapsto> p), cl_engine := e, g_mercury_init := m\<rparr>"
    and h: "host_of (connect ops hg E) c1 p = Inr host"
    and g: "hvac_client_comm_gen_open_rpc (connect ops hg E) host p fd (n, c1) = Inr (r, n', c')" by metis
  have wf: "fd_table_wf (fds c1)" using client_invD(1) [OF inv] by (simp add: c1)
  have p: "fd_map c1 fd = Some p" by (simp add: c1)
  note G = gen_open_call [OF cl wf fd p h [unfolded connect_host] g]
  have "client_frame E fd c c1" unfolding client_frame_def c1 by (auto intro: resolves_fields)
  with G(1) have cf: "client_frame E fd c c'" unfolding client_frame_def by auto
  have "rfd = r \<and> 0 < r" if rfd: "fd_redir_map c' fd = Some rfd" "rfd \<noteq> 0" for rfd
  proof (cases "0 < r")
    case True
    with gen_open_result [OF g fd] rfd show ?thesis by auto
  next
    case False
    with gen_open_result [OF g fd] rfd have "fd_redir_map c fd = Some rfd" by (auto simp: c1)
    with client_invD(4) [OF inv, of fd rfd] new rfd show ?thesis by auto
  qed
  with cf G(2-4) show ?thesis by blast
qed

section \<open>Runs of the system\<close>

lemma call_frame_system:
  assumes inv: "system_inv content handle E n cs" and f: "call_frame content handle (E k) fd n (cs k) n' c'"
  shows "system_inv content handle E n' (cs(k := c'))"
proof -
  from f obtain X Y where X: "cluster_frame content handle X Y n n'" "Y \<subseteq> X"
    "\<forall>a rfd. (a, rfd) \<in> X \<longrightarrow> rfd \<noteq> 0 \<longrightarrow> owns (E k) (cs k) fd a rfd"
    and c: "fd_redir_map c' fd \<in> {None, Some 0} \<or>
         Y = {} \<and> fd_redir_map c' fd = fd_redir_map (cs k) fd \<and> (\<forall>a rfd. owns (E k) (cs k) fd a rfd \<longrightarrow> owns (E k) c' fd a rfd)"
    and k: "client_frame (E k) fd (cs k) c'" "cluster_inv content handle n'" "client_inv c'"
    unfolding call_frame_def by blast
  show ?thesis
  proof (rule system_inv_upd [OF inv k(1) X(1) k(2,3)])
    fix k' fd' a rfd assume o: "owns (E k') (cs k') fd' a rfd" "(k', fd') \<noteq> (k, fd)"
    then have "rfd \<noteq> 0" by (simp add: owns_def)
    with o X(2,3) system_invD(4) [OF inv o(1)] show "(a, rfd) \<notin> Y" by blast
  next
    fix rfd assume r: "fd_redir_map c' fd = Some rfd" "rfd \<noteq> 0"
    with c have y: "Y = {}" and r': "fd_redir_map (cs k) fd = Some rfd" and st: "\<forall>a rfd. owns (E k) (cs k) fd a rfd \<longrightarrow> owns (E k) c' fd a rfd"
      by auto
    from system_invD(3) [OF inv r' r(2)] obtain a where a: "owns (E k) (cs k) fd a rfd"
      "\<forall>s. n a = Some s \<longrightarrow> handle (srv_os s) rfd \<noteq> None" by blast
    with frame_keeps_open [OF X(1) a(2)] y st system_invD(4) [OF inv a(1)] show
      "\<exists>a. owns (E k) c' fd a rfd \<and> (\<forall>s. n' a = Some s \<longrightarrow> handle (srv_os s) rfd \<noteq> None) \<and>
        (\<forall>k' fd'. owns (E k') (cs k') fd' a rfd \<longrightarrow> (k', fd') = (k, fd))" by blast
  qed
qed

lemma call_frame_linked:
  assumes inv: "system_inv content handle E n cs" and f: "call_frame content handle (E k) fd n (cs k) n' c'"
    and l: "linked content handle (E k') n (cs k') fd' p off d" and ne: "(k', fd') \<noteq> (k, fd)"
  shows "linked content handle (E k') n' ((cs(k := c')) k') fd' p off d"
proof -
  from f obtain X Y where X: "cluster_frame content handle X Y n n'"
    "\<forall>a rfd. (a, rfd) \<in> X \<longrightarrow> rfd \<noteq> 0 \<longrightarrow> owns (E k) (cs k) fd a rfd" and cf: "client_frame (E k) fd (cs k) c'"
    unfolding call_frame_def by blast
  show ?thesis
  proof (rule linked_frames [OF l X(1)])
    fix a rfd assume r: "resolves (E k') (cs k') p a" "fd_redir_map (cs k') fd' = Some rfd" "rfd \<noteq> 0"
    with l have "owns (E k') (cs k') fd' a rfd" by (auto simp: owns_def linked_def)
    from system_invD(4) [OF inv this] X(2) r(3) ne show "(a, rfd) \<notin> X" by blast
  qed (use cf ne in \<open>auto simp: client_frame_def\<close>)
qed

lemma track_file_system:
  assumes inv: "system_inv content handle E n cs" and fd: "fd_in_range fd" and new: "fd_map (cs k) fd = None"
    and t: "hvac_track_file (connect ops hg (E k)) path flags fd (n, cs k) = Inr (b, n', c')"
  shows "system_inv content handle E n' (cs(k := c'))"
    and "linked content handle (E k') n (cs k') fd' p off d \<Longrightarrow> (k', fd') \<noteq> (k, fd) \<Longrightarrow>
      linked content handle (E k') n' ((cs(k := c')) k') fd' p off d"
proof -
  note T = track_file_call [OF system_invD(1,2) [OF inv] fd new t]
  then have cf: "client_frame (E k) fd (cs k) c'" and ci: "cluster_inv content handle n'"
    and nf: "cluster_frame content handle {} {} n n'" by simp_all
  show "system_inv content handle E n' (cs(k := c'))"
  proof (rule system_inv_upd [OF inv cf nf ci track_file_inv [OF system_invD(2) [OF inv] t fd]])
    fix rfd assume r: "fd_redir_map c' fd = Some rfd" "rfd \<noteq> 0"
    with T obtain a s s' where a: "owns (E k) c' fd a rfd" "n a = Some s" "handle (srv_os s) rfd = None" "n' a = Some s'"
      "handle (srv_os s') rfd \<noteq> None" by blast
    have "\<not> owns (E k2) (cs k2) f2 a rfd" for k2 f2
    proof
      assume o: "owns (E k2) (cs k2) f2 a rfd"
      from owner_open [OF inv o a(2)] a(3) show False by simp
    qed
    then show "\<exists>a. owns (E k) c' fd a rfd \<and> (\<forall>s. n' a = Some s \<longrightarrow> handle (srv_os s) rfd \<noteq> None) \<and>
        (\<forall>k' fd'. owns (E k') (cs k') fd' a rfd \<longrightarrow> (k', fd') = (k, fd))"
      using a by (intro exI [of _ a]) simp
  qed simp
  show "linked content handle (E k') n' ((cs(k := c')) k') fd' p off d"
    if l: "linked content handle (E k') n (cs k') fd' p off d" and ne: "(k', fd') \<noteq> (k, fd)"
    by (rule linked_frames [OF l nf]) (use cf ne in \<open>auto simp: client_frame_def\<close>)
qed

lemma mover_cluster_frame:
  assumes "n a = Some s" and "mover_step ops nv s s'"
  shows "cluster_frame content handle {} {} n (n(a \<mapsto> s'))"
  using mover_step_sf [OF assms(2)] by (intro cluster_frame_upd [of n a s, OF assms(1)]) simp

lemma mover_system:
  assumes inv: "system_inv content handle E n cs" and s: "n a = Some s" and m: "mover_step ops nv s s'"
  shows "system_inv content handle E (n(a \<mapsto> s')) cs"
proof -
  note nf = mover_cluster_frame [of n a s, OF s m]
  have cl: "cluster_inv content handle (n(a \<mapsto> s'))"
    using server_step.on_mover [OF m] by (rule cluster_inv_upd [OF system_invD(1) [OF inv] s])
  have "\<exists>b. owns (E k) (cs k) fd b rfd \<and> (\<forall>t. (n(a \<mapsto> s')) b = Some t \<longrightarrow> handle (srv_os t) rfd \<noteq> None)"
    if "fd_redir_map (cs k) fd = Some rfd" "rfd \<noteq> 0" for k fd rfd
    using system_invD(3) [OF inv that] frame_keeps_open [OF nf] by blast
  with cl inv show ?thesis unfolding system_inv_def by blast
qed

lemma remove_fd_system:
  assumes "system_inv content handle E n cs" and "mercury_ok hg"
    and "hvac_remove_fd (connect ops hg (E k)) fd (n, cs k) = Inr (b, n', c')"
  shows "call_frame content handle (E k) fd n (cs k) n' c'"
  by (rule remove_fd_call [OF system_invD(1,2) [OF assms(1)] assms(2,3)]) (rule owner_open [OF assms(1)])

lemma lost_system:
  assumes inv: "system_inv content handle E n cs"
  shows "system_inv content handle E (n(a := None)) cs"
proof -
  have cl: "cluster_inv content handle (n(a := None))"
    using system_invD(1) [OF inv] by (simp add: cluster_inv_def)
  have "\<exists>b. owns (E k) (cs k) fd b rfd \<and> (\<forall>t. (n(a := None)) b = Some t \<longrightarrow> handle (srv_os t) rfd \<noteq> None)"
    if "fd_redir_map (cs k) fd = Some rfd" "rfd \<noteq> 0" for k fd rfd
    using system_invD(3) [OF inv that] by (metis fun_upd_apply option.distinct(1))
  with cl inv show ?thesis unfolding system_inv_def by blast
qed

lemma lost_linked:
  "linked content handle E n c fd p off d \<Longrightarrow> \<not> resolves E c p a \<Longrightarrow> linked content handle E (n(a := None)) c fd p off d"
  unfolding linked_def by (metis fun_upd_other)

lemma system_step_inv:
  assumes "system_step ops hg E nvmepath l (n, cs) (n', cs')" and inv: "system_inv content handle E n cs" and hg: "mercury_ok hg"
  shows "system_inv content handle E n' cs'"
    and "linked content handle (E k) n (cs k) fd p off d \<Longrightarrow> l \<noteq> Call k fd \<Longrightarrow>
      (\<And>a. resolves (E k) (cs k) p a \<Longrightarrow> l \<noteq> Lost a) \<Longrightarrow> linked content handle (E k) n' (cs' k) fd p off d"
proof -
  note I = system_invD(1,2) [OF inv]
  have goal: "system_inv content handle E n' cs' \<and>
    (linked content handle (E k) n (cs k) fd p off d \<longrightarrow> l \<noteq> Call k fd \<longrightarrow> (\<forall>a. resolves (E k) (cs k) p a \<longrightarrow> l \<noteq> Lost a) \<longrightarrow>
       linked content handle (E k) n' (cs' k) fd p off d)"
    using assms(1)
  proof cases
    case (sys_track j path flags x b c')
    then show ?thesis using track_file_system [OF inv sys_track(4,5,3)] by blast
  next
    case (sys_read j x buf_ok count wk r c')
    with call_frame_system [OF inv] call_frame_linked [OF inv] remote_read_call [OF I sys_read(3)] show ?thesis by blast
  next
    case (sys_pread j x buf_ok count poff wk r c')
    with call_frame_system [OF inv] call_frame_linked [OF inv] remote_pread_call [OF I sys_pread(3)] show ?thesis by blast
  next
    case (sys_lseek j x loff whence pos c')
    with call_frame_system [OF inv] call_frame_linked [OF inv] remote_lseek_call [OF I hg sys_lseek(3)] show ?thesis by blast
  next
    case (sys_remove j x b c')
    with call_frame_system [OF inv] call_frame_linked [OF inv] remove_fd_system [OF inv hg sys_remove(3)] show ?thesis by blast
  next
    case (sys_mover a s s')
    have "linked content handle (E k) (n(a \<mapsto> s')) (cs k) fd p off d" if "linked content handle (E k) n (cs k) fd p off d"
      by (rule linked_frames [OF that mover_cluster_frame [of n a s, OF sys_mover(4,5)]]) simp_all
    with sys_mover mover_system [OF inv sys_mover(4,5)] show ?thesis by simp
  next
    case (sys_lost a)
    then show ?thesis using lost_system [OF inv] lost_linked by blast
  qed
  then show "system_inv content handle E n' cs'"
    "linked content handle (E k) n (cs k) fd p off d \<Longrightarrow> l \<noteq> Call k fd \<Longrightarrow>
      (\<And>a. resolves (E k) (cs k) p a \<Longrightarrow> l \<noteq> Lost a) \<Longrightarrow> linked content handle (E k) n' (cs' k) fd p off d"
    by blast+
qed

lemma system_step_resolves:
  assumes "system_step ops hg E nvmepath l (n, cs) (n', cs')" and inv: "system_inv content handle E n cs" and hg: "mercury_ok hg"
    and "resolves (E k) (cs k) p a"
  shows "resolves (E k) (cs' k) p a"
proof -
  note I = system_invD(1,2) [OF inv]
  have cf: "resolves (E k) ((cs(j := c')) k) p a" if "client_frame (E j) x (cs j) c'" for j x c'
    using that assms(4) by (auto simp: client_frame_def)
  show ?thesis
    using assms(1)
  proof cases
    case (sys_track j path flags x b c')
    then show ?thesis using track_file_call [OF I sys_track(4,5,3)] cf by blast
  next
    case (sys_read j x buf_ok count wk r c')
    then show ?thesis using remote_read_call [OF I sys_read(3)] cf unfolding call_frame_def by blast
  next
    case (sys_pread j x buf_ok count poff wk r c')
    then show ?thesis using remote_pread_call [OF I sys_pread(3)] cf unfolding call_frame_def by blast
  next
    case (sys_lseek j x loff whence pos c')
    then show ?thesis using remote_lseek_call [OF I hg sys_lseek(3)] cf unfolding call_frame_def by blast
  next
    case (sys_remove j x b c')
    then show ?thesis using remove_fd_system [OF inv hg sys_remove(3)] cf unfolding call_frame_def by blast
  qed (use assms(4) in simp_all)
qed

lemma system_run_inv:
  assumes "system_run ops hg E nvmepath ls (n, cs) (n', cs')" and "system_inv content handle E n cs" and "mercury_ok hg"
  shows "system_inv content handle E n' cs'"
  using assms
proof (induction ls "(n, cs)" "(n', cs')" arbitrary: n' cs' rule: system_run.induct)
  case (sys_snoc ls y l n' cs')
  obtain n1 cs1 where y: "y = (n1, cs1)" by (cases y)
  with sys_snoc system_step_inv(1) [of hg E nvmepath l n1 cs1 n' cs'] show ?case by auto
qed simp

lemma system_run_linked:
  assumes "system_run ops hg E nvmepath ls (n, cs) (n', cs')" and "system_inv content handle E n cs" and "mercury_ok hg"
    and "linked content handle (E k) n (cs k) fd p off d" and "resolves (E k) (cs k) p a"
    and "Call k fd \<notin> set ls" and "Lost a \<notin> set ls"
  shows "linked content handle (E k) n' (cs' k) fd p off d \<and> resolves (E k) (cs' k) p a"
  using assms
proof (induction ls "(n, cs)" "(n', cs')" arbitrary: n' cs' rule: system_run.induct)
  case (sys_snoc ls y l n' cs')
  obtain n1 cs1 where y: "y = (n1, cs1)" by (cases y)
  from sys_snoc y have l: "linked content handle (E k) n1 (cs1 k) fd p off d" "resolves (E k) (cs1 k) p a"
    and inv: "system_inv content handle E n1 cs1" using system_run_inv [of hg E nvmepath ls n cs n1 cs1] by simp_all
  have st: "system_step ops hg E nvmepath l (n1, cs1) (n', cs')" using sys_snoc.hyps(3) y by simp
  have "b = a" if "resolves (E k) (cs1 k) p b" for b using resolves_unique [OF that l(2)] .
  with system_step_inv(2) [OF st inv assms(3) l(1)] system_step_resolves [OF st inv assms(3) l(2)] sys_snoc.prems(5,6)
  show ?case by auto
qed simp

end

lemma system_inv_start:
  assumes "cluster_inv content handle n" and "\<And>k. client_inv (cs k)" and "\<And>k. fd_redir_map (cs k) = Map.empty"
  shows "system_inv content handle E n cs"
  using assms by (simp add: system_inv_def owns_def)

section \<open>Properties\<close>

text \<open>
  C4: clients do not disturb each other as long as the server they share is up. Start from servers
  without open descriptors in use and clients that have not opened anything, and let any number of clients
  and movers work; other servers may be lost. A descriptor that is linked to a file at some moment is
  linked to the same file, with the same bytes and at the same position, after any further steps
  that are neither calls about this descriptor of this client nor the loss of the server of the file, and its
  next read returns the next bytes of the file.
\<close>

theorem clients_isolated:
  assumes "posix_files ops content handle" and "mercury_ok hg" and "client_ok (E k)"
    and "cluster_inv content handle n0" and "\<And>j. client_inv (cs0 j)" and "\<And>j. fd_redir_map (cs0 j) = Map.empty"
    and "system_run ops hg E nvmepath ls1 (n0, cs0) (n, cs)" and "linked content handle (E k) n (cs k) fd p off d"
    and "system_run ops hg E nvmepath ls2 (n, cs) (n', cs')" and "Call k fd \<notin> set ls2"
    and "resolves (E k) (cs k) p a" and "Lost a \<notin> set ls2" and "0 \<le> int32 count"
  shows "linked content handle (E k) n' (cs' k) fd p off d \<and>
    (\<exists>n2 c2. hvac_remote_read (connect ops hg (E k)) fd True count wk (n', cs' k) =
       Inr ((int (length (chunk d off (int32 count))), chunk d off (int32 count)), n2, c2))"
proof -
  have inv: "system_inv content handle E n cs"
    by (rule posix_files.system_run_inv [OF assms(1,7) system_inv_start [OF assms(4-6)] assms(2)])
  have l: "linked content handle (E k) n' (cs' k) fd p off d"
    using posix_files.system_run_linked [OF assms(1,9) inv assms(2,8,11,10,12)] by blast
  have inv': "system_inv content handle E n' cs'" by (rule posix_files.system_run_inv [OF assms(1,9) inv assms(2)])
  from posix_files.remote_read_linked [OF assms(1) system_invD(2) [OF inv'] assms(2,3) l assms(13), of wk] l
  show ?thesis by blast
qed

text \<open>
  C19: a descriptor of a server has one owner. In every state the clients can reach, also after the
  loss of servers, no two local descriptors, of one client or of two, are redirected to the same descriptor
  of the same server, and the remote descriptor a local descriptor is redirected to is open on the
  server of its path as long as this server is up.
\<close>

theorem remote_descriptors_owned_once:
  assumes "posix_files ops content handle" and "mercury_ok hg"
    and "cluster_inv content handle n0" and "\<And>j. client_inv (cs0 j)" and "\<And>j. fd_redir_map (cs0 j) = Map.empty"
    and "system_run ops hg E nvmepath ls (n0, cs0) (n, cs)" and "owns (E k) (cs k) fd a rfd"
  shows "(\<forall>s. n a = Some s \<longrightarrow> handle (srv_os s) rfd \<noteq> None) \<and>
    (\<forall>k' fd'. owns (E k') (cs k') fd' a rfd \<longrightarrow> k' = k \<and> fd' = fd)"
proof -
  have inv: "system_inv content handle E n cs"
    by (rule posix_files.system_run_inv [OF assms(1,6) system_inv_start [OF assms(3-5)] assms(2)])
  from owner_open [OF inv assms(7)] system_invD(4) [OF inv assms(7)] show ?thesis by blast
qed

section \<open>Two sample clients\<close>

lemma sample_second_track:
  "\<exists>n' c'. hvac_track_file sample_net ''/data/a'' O_RDONLY 5 (sample_cluster (opened_server Mover_Locking), sample_client) =
     Inr (True, n', c')"
proof -
  have p: "track_path (sample_env 0 :: linux cluster client_env) sample_client ''/data/a'' = Some ''/data/a''"
    by (rule sample_track_path) (simp add: sample_path)
  have "fd_map sample_client = Map.empty" by (simp add: sample_client_def client_initial_def)
  moreover have "free_fd (sample_os\<lparr>fdt := [3 \<mapsto> (''/data/a'', 0)]\<rparr>) = Some 4"
    by (simp add: free_fd_def sample_os_def upt_rec)
  then have "\<exists>s'. hvac_open_rpc_handler linux_ops sample_mercury \<lparr>open_path = ''/data/a''\<rparr> (opened_server Mover_Locking) =
      Inr (\<lparr>open_ret_status = 4\<rparr>, s')"
    by (simp add: hvac_open_rpc_handler_def sample_mercury_def redirect_path_def opened_server_def linux_ops_def linux_open_def)
      (simp add: sample_os_def)
  then have "\<exists>n' c'. hvac_client_comm_gen_open_rpc sample_net 0 ''/data/a'' 5
      (sample_cluster (opened_server Mover_Locking), sample_opening ''/data/a'') = Inr (4, n', c')"
    by (auto simp: hvac_client_comm_gen_open_rpc_def sample_lookup client_ops HG_SUCCESS_def int32_id Let_def
        deliver_def sample_cluster_def)
  ultimately show ?thesis
    using p sample_flags by (auto simp: hvac_track_file_def sample_ensure sample_host)
qed

abbreviation sample_clients :: "nat \<Rightarrow> client" where
  "sample_clients \<equiv> (\<lambda>k. sample_client)"

lemma sample_start: "client_inv sample_client" "fd_redir_map sample_client = Map.empty" "fd_map sample_client = Map.empty"
  by (rule sample_client_inv) (simp_all add: sample_client_def client_initial_def)

lemma sample_system_run:
  "system_run linux_ops sample_mercury (\<lambda>k. sample_env 0) (\<lambda>a. ''/bb/XXXXXX'') [Call 0 5]
     (sample_cluster (server_init sample_os), sample_clients)
     (sample_cluster (opened_server Mover_Locking), sample_clients(0 := sample_tracked ''/data/a'' 3))"
proof -
  have "system_step linux_ops sample_mercury (\<lambda>k. sample_env 0) (\<lambda>a. ''/bb/XXXXXX'') (Call 0 5)
     (sample_cluster (server_init sample_os), sample_clients)
     (sample_cluster (opened_server Mover_Locking), sample_clients(0 := sample_tracked ''/data/a'' 3))"
    using sys_track [where E = "\<lambda>k. sample_env 0" and k = 0 and cs = sample_clients, OF sample_cluster_track]
    by (simp add: fd_in_range_def sample_start)
  from sys_snoc [OF sys_nil this] show ?thesis by simp
qed

lemma sample_tracked_resolves: "resolves (sample_env 0 :: linux cluster client_env) (sample_tracked ''/data/a'' 3) ''/data/a'' ''tcp:a''"
  using sample_tracked_host unfolding resolves_def by blast

theorem clients_isolated_witness:
  "\<exists>n' cs' n2 c2. system_run linux_ops sample_mercury (\<lambda>k. sample_env 0) (\<lambda>a. ''/bb/XXXXXX'') [Call 1 5]
     (sample_cluster (opened_server Mover_Locking), sample_clients(0 := sample_tracked ''/data/a'' 3)) (n', cs') \<and>
   hvac_remote_read sample_net 5 True 2 [] (n', cs' 0) = Inr ((2, [10, 20]), n2, c2)"
proof -
  let ?cs = "sample_clients(0 := sample_tracked ''/data/a'' 3)"
  from sample_second_track obtain n' c' where t: "hvac_track_file sample_net ''/data/a'' O_RDONLY 5
      (sample_cluster (opened_server Mover_Locking), ?cs 1) = Inr (True, n', c')" by auto
  have "system_step linux_ops sample_mercury (\<lambda>k. sample_env 0) (\<lambda>a. ''/bb/XXXXXX'') (Call 1 5)
     (sample_cluster (opened_server Mover_Locking), ?cs) (n', ?cs(1 := c'))"
    using sys_track [where E = "\<lambda>k. sample_env 0" and k = 1 and cs = ?cs, OF t] by (simp add: fd_in_range_def sample_start)
  from sys_snoc [OF sys_nil this] have r: "system_run linux_ops sample_mercury (\<lambda>k. sample_env 0) (\<lambda>a. ''/bb/XXXXXX'') [Call 1 5]
     (sample_cluster (opened_server Mover_Locking), ?cs) (n', ?cs(1 := c'))" by simp
  have l: "linked files fdt (sample_env 0) (sample_cluster (opened_server Mover_Locking)) (?cs 0) 5 ''/data/a'' 0 [10, 20, 30, 40, 50]"
    using sample_linked by simp
  from clients_isolated [OF lx.posix_files_axioms sample_mercury_ok(1) sample_client_ok sample_cluster_inv
      sample_start(1,2) sample_system_run l r, of "''tcp:a''" 2 "[]"] sample_tracked_resolves
  obtain n2 c2 where "hvac_remote_read sample_net 5 True 2 [] (n', (?cs(1 := c')) 0) = Inr ((2, [10, 20]), n2, c2)"
    by (auto simp: int32_id chunk_def MAX_RW_COUNT_def numeral_2_eq_2)
  with r show ?thesis by blast
qed

theorem remote_descriptors_owned_once_witness:
  "owns (sample_env 0 :: linux cluster client_env) ((sample_clients(0 := sample_tracked ''/data/a'' 3)) 0) 5 ''tcp:a'' 3 \<and>
   \<not> owns (sample_env 0 :: linux cluster client_env) ((sample_clients(0 := sample_tracked ''/data/a'' 3)) 0) 6 ''tcp:a'' 3 \<and>
   \<not> owns (sample_env 0 :: linux cluster client_env) ((sample_clients(0 := sample_tracked ''/data/a'' 3)) 1) 5 ''tcp:a'' 3"
proof -
  let ?E = "sample_env 0 :: linux cluster client_env" and ?cs = "sample_clients(0 := sample_tracked ''/data/a'' 3)"
  have o: "owns ?E (?cs 0) 5 ''tcp:a'' 3"
    using ownsI [OF sample_tracked_fields(1) sample_tracked_host(1,2) sample_tracked_fields(3)] by simp
  from remote_descriptors_owned_once [OF lx.posix_files_axioms sample_mercury_ok(1) sample_cluster_inv sample_start(1,2)
      sample_system_run o]
  have u: "k' = 0 \<and> fd' = 5" if "owns ?E (?cs k') fd' ''tcp:a'' 3" for k' fd' using that by blast
  from o u [of 0 6] u [of 1 5] show ?thesis by auto
qed

end
