(* ===== verification/HVAC_Application.thy ===== *)
theory HVAC_Application
  imports HVAC_Isolation
begin

text \<open>
  The application on top of the library. Its calls go to the operating system alone (\<open>real_call\<close>) or
  through the wrappers of \<open>wrappers.c\<close> (\<open>wrapped_call\<close>), the latter together with the servers, their
  movers and any number of other clients (\<open>app_run\<close>). The second half of the theory defines when a
  state of the one mirrors a state of the other, and shows what every call of the library keeps of it.
\<close>

section \<open>Systems that differ in file positions\<close>

text \<open>
  Remote reads leave the position of the local descriptor where it is. What the code relies on is
  that nothing else of the operating system depends on positions: two states that are the \<open>same\<close> up to
  positions give out the same descriptors and stay the same under every call.
\<close>

locale posix_positions = posix_files +
  fixes same :: "'a \<Rightarrow> 'a \<Rightarrow> bool"
  assumes same_refl: "same s s"
    and same_sym: "same s t \<Longrightarrow> same t s"
    and same_state: "same s t \<Longrightarrow> content s = content t \<and> map_option fst (handle s fd) = map_option fst (handle t fd)"
    and same_open: "same s t \<Longrightarrow> sys_open ops s p O_RDONLY m = (fd, s') \<Longrightarrow>
        \<exists>t'. sys_open ops t p O_RDONLY m = (fd, t') \<and> same s' t'"
    and same_read: "same s t \<Longrightarrow> same (snd (sys_read ops s fd n)) t"
    and same_pread: "same s t \<Longrightarrow> same (snd (sys_pread ops s fd n pos)) t"
    and same_close: "same s t \<Longrightarrow> sys_close ops s fd = (r, s') \<Longrightarrow> \<exists>t'. sys_close ops t fd = (r, t') \<and> same s' t'"
begin

lemma same_handle_None: "same s t \<Longrightarrow> handle s fd = None \<longleftrightarrow> handle t fd = None"
  using same_state [of s t fd] by (cases "handle s fd"; cases "handle t fd") auto

lemma same_read_both: "same s t \<Longrightarrow> same (snd (sys_read ops s fd n)) (snd (sys_read ops t fd n))"
  using same_read same_sym by blast

lemma same_pread_both: "same s t \<Longrightarrow> same (snd (sys_pread ops s fd n pos)) (snd (sys_pread ops t fd n pos))"
  using same_pread same_sym by blast

end

definition linux_same :: "linux \<Rightarrow> linux \<Rightarrow> bool" where
  "linux_same s t \<longleftrightarrow> s\<lparr>fdt := Map.empty\<rparr> = t\<lparr>fdt := Map.empty\<rparr> \<and>
     (\<forall>fd. map_option fst (fdt s fd) = map_option fst (fdt t fd))"

lemma linux_same_fields:
  assumes "linux_same s t"
  shows "files s = files t" and "dirs s = dirs t" and "nofile s = nofile t" and "free_bytes s = free_bytes t"
    and "suffixes s = suffixes t" and "fdt s fd = None \<longleftrightarrow> fdt t fd = None"
proof -
  from assms have e: "s\<lparr>fdt := Map.empty\<rparr> = t\<lparr>fdt := Map.empty\<rparr>" by (simp add: linux_same_def)
  from arg_cong [OF e, of files] arg_cong [OF e, of dirs] arg_cong [OF e, of nofile] arg_cong [OF e, of free_bytes]
    arg_cong [OF e, of suffixes]
  show "files s = files t" "dirs s = dirs t" "nofile s = nofile t" "free_bytes s = free_bytes t" "suffixes s = suffixes t"
    by simp_all
  from assms have "map_option fst (fdt s fd) = map_option fst (fdt t fd)" by (simp add: linux_same_def)
  then show "fdt s fd = None \<longleftrightarrow> fdt t fd = None" by (cases "fdt s fd"; cases "fdt t fd") auto
qed

lemma linux_sameI:
  "files s = files t \<Longrightarrow> dirs s = dirs t \<Longrightarrow> nofile s = nofile t \<Longrightarrow> free_bytes s = free_bytes t \<Longrightarrow>
     suffixes s = suffixes t \<Longrightarrow> (\<And>fd. map_option fst (fdt s fd) = map_option fst (fdt t fd)) \<Longrightarrow> linux_same s t"
  by (simp add: linux_same_def)

lemma linux_same_free_fd: "linux_same s t \<Longrightarrow> free_fd s = free_fd t"
  by (simp add: free_fd_def linux_same_fields(3,6))

interpretation lxp: posix_positions linux_ops files fdt linux_same
proof (unfold_locales, goal_cases)
  case (1 s)
  show ?case by (simp add: linux_same_def)
next
  case (2 s t)
  then show ?case unfolding linux_same_def by metis
next
  case (3 s t fd)
  from linux_same_fields(1) [OF 3] 3 show ?case unfolding linux_same_def by blast
next
  case (4 s t p m fd s')
  note F = linux_same_fields [OF 4(1)] linux_same_free_fd [OF 4(1)]
  have h: "map_option fst (fdt s x) = map_option fst (fdt t x)" for x using 4(1) unfolding linux_same_def by blast
  show ?case
  proof (cases "free_fd s")
    case None
    with 4 F(7) show ?thesis by (simp add: linux_ops_def linux_open_def)
  next
    case (Some f)
    show ?thesis
    proof (cases "files s p")
      case None
      with Some 4 F show ?thesis by (simp add: linux_ops_def linux_open_def O_RDONLY_def)
    next
      case (Some c)
      with \<open>free_fd s = Some f\<close> 4(2) have e: "fd = f" "s' = s\<lparr>fdt := (fdt s)(f \<mapsto> (p, 0)), files := (files s)(p \<mapsto> c)\<rparr>"
        by (auto simp: linux_ops_def linux_open_def O_RDONLY_def)
      have "linux_same s' (t\<lparr>fdt := (fdt t)(f \<mapsto> (p, 0)), files := (files t)(p \<mapsto> c)\<rparr>)"
        unfolding e by (rule linux_sameI) (simp_all add: F(1-5) h)
      with Some \<open>free_fd s = Some f\<close> F(1,7) e(1) show ?thesis by (simp add: linux_ops_def linux_open_def O_RDONLY_def)
    qed
  qed
next
  case (5 s t fd n)
  note F = linux_same_fields [OF 5]
  have h: "map_option fst (fdt s x) = map_option fst (fdt t x)" for x using 5 unfolding linux_same_def by blast
  show ?case
  proof (cases "fdt s fd")
    case None
    with 5 show ?thesis by (simp add: linux_ops_def linux_read_def)
  next
    case (Some q)
    obtain p off where q: "q = (p, off)" by (cases q)
    show ?thesis
    proof (cases "files s p")
      case None
      with Some q 5 show ?thesis by (simp add: linux_ops_def linux_read_def)
    next
      case (Some c)
      have "linux_same (s\<lparr>fdt := (fdt s)(fd \<mapsto> (p, off + length (chunk c off n)))\<rparr>) t"
        using h [of fd] \<open>fdt s fd = Some q\<close> q by (intro linux_sameI) (simp_all add: F(1-5) h)
      with Some \<open>fdt s fd = Some q\<close> q show ?thesis by (simp add: linux_ops_def linux_read_def)
    qed
  qed
next
  case (6 s t fd n pos)
  then show ?case by (auto simp: linux_ops_def linux_pread_def split: option.split)
next
  case (7 s t fd r s')
  note F = linux_same_fields [OF 7(1)]
  have h: "map_option fst (fdt s x) = map_option fst (fdt t x)" for x using 7(1) unfolding linux_same_def by blast
  have "linux_same (s\<lparr>fdt := (fdt s)(fd := None)\<rparr>) (t\<lparr>fdt := (fdt t)(fd := None)\<rparr>)"
    by (rule linux_sameI) (simp_all add: F(1-5) h)
  with 7 F(6) [of fd] show ?case by (auto simp: linux_ops_def linux_close_def split: if_splits)
qed

section \<open>The application without the library\<close>

text \<open>The calls of an application that reads files, and what they return.\<close>

datatype posix_call =
    Open_File string
  | Read_File int int
  | Pread_File int int int
  | Close_File int

datatype posix_result =
    Descriptor int
  | Bytes_Read int "byte list"
  | Status int

fun real_call :: "'l posix_ops \<Rightarrow> posix_call \<Rightarrow> 'l \<Rightarrow> posix_result \<times> 'l" where
  "real_call ops (Open_File path) s = (case sys_open ops s path O_RDONLY 0 of (fd, s') \<Rightarrow> (Descriptor fd, s'))"
| "real_call ops (Read_File fd count) s = (case sys_read ops s fd count of ((r, b), s') \<Rightarrow> (Bytes_Read r b, s'))"
| "real_call ops (Pread_File fd count off) s = (case sys_pread ops s fd count off of ((r, b), s') \<Rightarrow> (Bytes_Read r b, s'))"
| "real_call ops (Close_File fd) s = (case sys_close ops s fd of (r, s') \<Rightarrow> (Status r, s'))"

fun real_run :: "'l posix_ops \<Rightarrow> posix_call list \<Rightarrow> 'l \<Rightarrow> posix_result list \<times> 'l" where
  "real_run ops [] s = ([], s)"
| "real_run ops (c # cs) s = (case real_call ops c s of (r, s1) \<Rightarrow> case real_run ops cs s1 of (rs, s2) \<Rightarrow> (r # rs, s2))"

text \<open>Counts below two gigabytes and offsets that are not negative.\<close>

fun valid_call :: "posix_call \<Rightarrow> bool" where
  "valid_call (Open_File path) = True"
| "valid_call (Read_File fd count) = (0 \<le> count \<and> count < 2 ^ 31)"
| "valid_call (Pread_File fd count off) = (0 \<le> count \<and> count < 2 ^ 31 \<and> 0 \<le> off)"
| "valid_call (Close_File fd) = True"

section \<open>The application with the library\<close>

fun wrapped_call ::
    "'n client_env \<Rightarrow> 'l posix_ops \<Rightarrow> (string \<Rightarrow> bool) \<Rightarrow> timespec \<Rightarrow> timespec \<Rightarrow> wakeup list \<Rightarrow> posix_call \<Rightarrow>
     ('n, 'l) world \<Rightarrow> (posix_result \<times> ('n, 'l) world) run" where
  "wrapped_call E ops dlsym start end wk (Open_File path) w =
     bind_run (wrap_open E ops dlsym start end path O_RDONLY 0 w) (\<lambda>(fd, w'). Inr (Descriptor fd, w'))"
| "wrapped_call E ops dlsym start end wk (Read_File fd count) w =
     bind_run (wrap_read E ops dlsym start end wk fd True count w) (\<lambda>((r, b), w'). Inr (Bytes_Read r b, w'))"
| "wrapped_call E ops dlsym start end wk (Pread_File fd count off) w =
     bind_run (wrap_pread E ops dlsym start end wk fd True count off w) (\<lambda>((r, b), w'). Inr (Bytes_Read r b, w'))"
| "wrapped_call E ops dlsym start end wk (Close_File fd) w =
     bind_run (wrap_close E ops dlsym start end fd w) (\<lambda>(r, w'). Inr (Status r, w'))"

text \<open>The servers, all clients, and the operating system and statistics of the application.\<close>

record ('o, 'l) app_system =
  as_net :: "'o cluster"
  as_clients :: "nat \<Rightarrow> client"
  as_os :: 'l
  as_stats :: wrapper_stats

definition app_world :: "nat \<Rightarrow> ('o, 'l) app_system \<Rightarrow> ('o cluster, 'l) world" where
  "app_world k x = \<lparr>w_net = as_net x, w_client = as_clients x k, w_os = as_os x, w_stats = as_stats x\<rparr>"

definition after_call :: "nat \<Rightarrow> ('o, 'l) app_system \<Rightarrow> ('o cluster, 'l) world \<Rightarrow> ('o, 'l) app_system" where
  "after_call k x w = \<lparr>as_net = w_net w, as_clients = (as_clients x)(k := w_client w), as_os = w_os w, as_stats = w_stats w\<rparr>"

text \<open>
  Calls of client \<open>k\<close>, with their results, interleaved with steps of the movers and other clients and
  with the loss of servers. The set collects the servers that have been lost.
\<close>

inductive app_run ::
    "'o posix_ops \<Rightarrow> mercury \<Rightarrow> (nat \<Rightarrow> 'o cluster client_env) \<Rightarrow> (string \<Rightarrow> string) \<Rightarrow> 'l posix_ops \<Rightarrow> (string \<Rightarrow> bool) \<Rightarrow> nat \<Rightarrow>
     (posix_call \<times> posix_result) list \<Rightarrow> string set \<Rightarrow> ('o, 'l) app_system \<Rightarrow> ('o, 'l) app_system \<Rightarrow> bool"
  for ops hg E nvmepath lops dlsym k where
  app_nil: "app_run ops hg E nvmepath lops dlsym k [] {} x x"
| app_call: "app_run ops hg E nvmepath lops dlsym k tr lost x y \<Longrightarrow>
    wrapped_call (connect ops hg (E k)) lops dlsym start end wk call (app_world k y) = Inr (r, w) \<Longrightarrow>
    app_run ops hg E nvmepath lops dlsym k (tr @ [(call, r)]) lost x (after_call k y w)"
| app_others: "app_run ops hg E nvmepath lops dlsym k tr lost x y \<Longrightarrow>
    system_step ops hg E nvmepath l (as_net y, as_clients y) (n, cs) \<Longrightarrow> (\<And>fd. l \<noteq> Call k fd) \<Longrightarrow>
    app_run ops hg E nvmepath lops dlsym k tr (lost \<union> {a. l = Lost a}) x (y\<lparr>as_net := n, as_clients := cs\<rparr>)"

section \<open>The simulation relation\<close>

text \<open>
  The client can reach a server for every path, can bring up Mercury, and has redirection on; it
  stays ready as long as it keeps its settings.
\<close>

definition client_ready :: "'n client_env \<Rightarrow> client \<Rightarrow> bool" where
  "client_ready E c \<longleftrightarrow> (\<forall>p. \<exists>a. resolves E c p a) \<and> (\<exists>c'. ensure_mercury E c = Inr c') \<and> \<not> redirect_off c"

text \<open>The servers the client sends its requests to are in \<open>U\<close>, and those in \<open>U\<close> are running.\<close>

definition servers_up :: "'n client_env \<Rightarrow> string set \<Rightarrow> 'o cluster \<Rightarrow> client \<Rightarrow> bool" where
  "servers_up E U n c \<longleftrightarrow> (\<forall>p a. resolves E c p a \<longrightarrow> a \<in> U) \<and> (\<forall>a \<in> U. n a \<noteq> None)"

definition keeps_settings :: "client \<Rightarrow> client \<Rightarrow> bool" where
  "keeps_settings c c' \<longleftrightarrow> hvac_data_dir c' = hvac_data_dir c \<and> redirect_off c' = redirect_off c \<and>
     (g_mercury_init c' \<or> g_mercury_init c' = g_mercury_init c \<and> cl_engine c' = cl_engine c)"

text \<open>Every running server has the files of the data set as the application sees them.\<close>

definition data_served ::
    "('o \<Rightarrow> string \<rightharpoonup> byte list) \<Rightarrow> 'n client_env \<Rightarrow> 'o cluster \<Rightarrow> client \<Rightarrow> (string \<rightharpoonup> byte list) \<Rightarrow> bool" where
  "data_served content E n c fs \<longleftrightarrow>
     (\<forall>q p d a s. track_path E c q = Some p \<longrightarrow> fs q = Some d \<longrightarrow> n a = Some s \<longrightarrow> content (srv_os s) p = Some d)"

definition open_files_exist :: "('l \<Rightarrow> string \<rightharpoonup> byte list) \<Rightarrow> ('l \<Rightarrow> int \<rightharpoonup> (string \<times> nat)) \<Rightarrow> 'l \<Rightarrow> bool" where
  "open_files_exist lcontent lhandle s \<longleftrightarrow> (\<forall>fd q off. lhandle s fd = Some (q, off) \<longrightarrow> lcontent s q \<noteq> None)"

text \<open>
  A descriptor that is ready is linked to the bytes and the position the descriptor of the
  specification has; any other is the same local descriptor on both sides.
\<close>

definition mirrored_fd ::
    "('l \<Rightarrow> string \<rightharpoonup> byte list) \<Rightarrow> ('l \<Rightarrow> int \<rightharpoonup> (string \<times> nat)) \<Rightarrow>
     ('o \<Rightarrow> string \<rightharpoonup> byte list) \<Rightarrow> ('o \<Rightarrow> int \<rightharpoonup> (string \<times> nat)) \<Rightarrow> 'n client_env \<Rightarrow>
     'o cluster \<Rightarrow> client \<Rightarrow> 'l \<Rightarrow> 'l \<Rightarrow> int \<Rightarrow> bool" where
  "mirrored_fd lcontent lhandle content handle E n c lo ro fd \<longleftrightarrow>
     (if fd_status_of (fds c) fd = Some HVAC_FD_READY
      then \<exists>p q off d. lhandle ro fd = Some (q, off) \<and> lcontent ro q = Some d \<and> linked content handle E n c fd p off d
      else lhandle lo fd = lhandle ro fd)"

definition mirror ::
    "('l \<Rightarrow> string \<rightharpoonup> byte list) \<Rightarrow> ('l \<Rightarrow> int \<rightharpoonup> (string \<times> nat)) \<Rightarrow> ('l \<Rightarrow> 'l \<Rightarrow> bool) \<Rightarrow>
     ('o \<Rightarrow> string \<rightharpoonup> byte list) \<Rightarrow> ('o \<Rightarrow> int \<rightharpoonup> (string \<times> nat)) \<Rightarrow> (nat \<Rightarrow> 'n client_env) \<Rightarrow> string set \<Rightarrow> nat \<Rightarrow>
     'o cluster \<Rightarrow> (nat \<Rightarrow> client) \<Rightarrow> 'l \<Rightarrow> 'l \<Rightarrow> bool" where
  "mirror lcontent lhandle same content handle E U k n cs lo ro \<longleftrightarrow>
     system_inv content handle E n cs \<and> client_ready (E k) (cs k) \<and> servers_up (E k) U n (cs k) \<and> data_served content (E k) n (cs k) (lcontent ro) \<and>
     same lo ro \<and> open_files_exist lcontent lhandle ro \<and>
     (\<forall>fd. fd_map (cs k) fd \<noteq> None \<longrightarrow> lhandle ro fd \<noteq> None) \<and>
     (\<forall>fd. mirrored_fd lcontent lhandle content handle (E k) n (cs k) lo ro fd)"

section \<open>What calls keep\<close>

lemma keeps_settings_same:
  "hvac_data_dir c' = hvac_data_dir c \<Longrightarrow> g_disable_redirect c' = g_disable_redirect c \<Longrightarrow>
     tl_disable_redirect c' = tl_disable_redirect c \<Longrightarrow> g_mercury_init c' = g_mercury_init c \<Longrightarrow>
     cl_engine c' = cl_engine c \<Longrightarrow> keeps_settings c c'"
  by (simp add: keeps_settings_def redirect_off_def)

lemma client_ready_keeps:
  assumes "client_ready E c" and "client_frame E fd c c'" and "keeps_settings c c'"
  shows "client_ready E c'"
proof -
  have "\<exists>d. ensure_mercury E c' = Inr d"
  proof (cases "g_mercury_init c'")
    case True
    then show ?thesis by (simp add: ensure_mercury_def)
  next
    case False
    with assms(3) have "\<not> g_mercury_init c" "cl_engine c' = cl_engine c" by (auto simp: keeps_settings_def)
    with assms(1) False show ?thesis by (auto simp: client_ready_def ensure_mercury_def bind_run_eq_Inr)
  qed
  with assms show ?thesis unfolding client_ready_def client_frame_def keeps_settings_def by metis
qed

lemma servers_up_keeps:
  assumes up: "servers_up E U n c" and ready: "client_ready E c"
    and cf: "client_frame E fd c c'" and nf: "cluster_frame content handle X Y n n'"
  shows "servers_up E U n' c'"
proof -
  have "a \<in> U" if a: "resolves E c' p a" for p a
  proof -
    from ready obtain b where b: "resolves E c p b" unfolding client_ready_def by blast
    with cf have "resolves E c' p b" unfolding client_frame_def by blast
    with a have "a = b" by (rule resolves_unique)
    with up b show ?thesis unfolding servers_up_def by blast
  qed
  moreover have "n' a \<noteq> None" if "a \<in> U" for a
    using that up nf unfolding servers_up_def cluster_frame_def by blast
  ultimately show ?thesis unfolding servers_up_def by blast
qed

lemma track_path_keeps: "keeps_settings c c' \<Longrightarrow> track_path E c' = track_path E c"
  by (simp add: track_path_def keeps_settings_def fun_eq_iff cong: option.case_cong)

lemma ensure_mercury_init: "ensure_mercury E c = Inr c' \<Longrightarrow> g_mercury_init c'"
  by (auto simp: ensure_mercury_def bind_run_eq_Inr split: if_splits)

lemma track_file_keeps:
  assumes "hvac_track_file E path flags fd (n, c) = Inr (b, n', c')" and "fd_in_range fd"
  shows "keeps_settings c c'"
  using assms(1)
proof (cases rule: track_file_cases)
  case skipped
  then show ?thesis by (simp add: keeps_settings_same)
next
  case (tracked p)
  with assms(1) obtain c1 host r where m: "ensure_mercury E (c\<lparr>fd_map := (fd_map c)(fd \<mapsto> p)\<rparr>) = Inr c1"
    and g: "hvac_client_comm_gen_open_rpc E host p fd (n, c1) = Inr (r, n', c')"
    by (auto simp: hvac_track_file_def bind_run_eq_Inr)
  from ensure_mercury_frame [OF m] ensure_mercury_init [OF m] gen_open_result [OF g assms(2)] show ?thesis
    by (auto simp: keeps_settings_def redirect_off_def split: if_splits)
qed

lemma remote_read_keeps:
  "client_inv c \<Longrightarrow> hvac_remote_read E fd buf_ok count wk (n, c) = Inr (res, n', c') \<Longrightarrow> keeps_settings c c'"
  by (auto simp: hvac_remote_read_def bind_run_eq_Inr keeps_settings_same split: option.splits dest!: gen_read_frame)

lemma remote_pread_keeps:
  assumes "client_inv c" and "hvac_remote_pread E fd buf_ok count off wk (n, c) = Inr (res, n', c')"
  shows "keeps_settings c c'"
  using assms(2)
  by (auto simp: hvac_remote_pread_def bind_run_eq_Inr keeps_settings_same Let_def split: option.splits if_splits
      dest!: gen_read_frame [OF client_inv_index_insert [OF assms(1)]])

lemma remove_fd_keeps:
  assumes "hvac_remove_fd E fd (n, c) = Inr (b, n', c')"
  shows "keeps_settings c c'"
proof (cases "fd_map c fd")
  case None
  with assms show ?thesis by (auto simp: hvac_remove_fd_def hvac_remote_close_def keeps_settings_same)
next
  case (Some p)
  with remove_fd_result [OF assms] show ?thesis by (auto simp: keeps_settings_same)
qed

lemma real_run_snoc:
  "real_run ops (cs @ [c]) s =
     (case real_run ops cs s of (rs, s1) \<Rightarrow> case real_call ops c s1 of (r, s2) \<Rightarrow> (rs @ [r], s2))"
  by (induction cs arbitrary: s) (auto split: prod.splits)

lemma data_served_keeps:
  assumes "data_served content E n c fs" and "cluster_frame content handle X Y n n'" and "keeps_settings c c'"
  shows "data_served content E n' c' fs"
  unfolding data_served_def
proof (intro allI impI)
  fix q p d a s'
  assume t: "track_path E c' q = Some p" "fs q = Some d" and a: "n' a = Some s'"
  with assms(2) obtain s where s: "n a = Some s" unfolding cluster_frame_def by (metis not_None_eq)
  with assms(1) t have "content (srv_os s) p = Some d" by (auto simp: data_served_def track_path_keeps [OF assms(3)])
  with s a assms(2) show "content (srv_os s') p = Some d" by (fastforce simp: cluster_frame_def server_frame_def)
qed

text \<open>What a call about \<open>fd\<close> does to the system, with the links of the other descriptors.\<close>

definition quiet_call ::
    "('o \<Rightarrow> string \<rightharpoonup> byte list) \<Rightarrow> ('o \<Rightarrow> int \<rightharpoonup> (string \<times> nat)) \<Rightarrow> (nat \<Rightarrow> 'n client_env) \<Rightarrow> nat \<Rightarrow> int \<Rightarrow>
     'o cluster \<Rightarrow> (nat \<Rightarrow> client) \<Rightarrow> 'o cluster \<Rightarrow> client \<Rightarrow> bool" where
  "quiet_call content handle E k fd n cs n' c' \<longleftrightarrow>
     system_inv content handle E n' (cs(k := c')) \<and> client_frame (E k) fd (cs k) c' \<and> keeps_settings (cs k) c' \<and>
     (\<exists>X Y. cluster_frame content handle X Y n n') \<and>
     (\<forall>x p off d. x \<noteq> fd \<longrightarrow> linked content handle (E k) n (cs k) x p off d \<longrightarrow> linked content handle (E k) n' c' x p off d)"

lemma quiet_refl: "system_inv content handle E n cs \<Longrightarrow> quiet_call content handle E k fd n cs n (cs k)"
  unfolding quiet_call_def client_frame_def by (auto simp: keeps_settings_same intro: cluster_frame_refl)

lemma chunk_in_int: "int (length (chunk d off n)) < 2 ^ 31"
  by (rule le_less_trans [OF chunk_length]) (simp add: MAX_RW_COUNT_def)

context posix_files
begin

lemma quiet_frame:
  assumes "system_inv content handle E n cs" and "call_frame content handle (E k) fd n (cs k) n' c'"
    and "keeps_settings (cs k) c'"
  shows "quiet_call content handle E k fd n cs n' c'"
proof -
  have "linked content handle (E k) n' c' x p off d" if "linked content handle (E k) n (cs k) x p off d" "x \<noteq> fd" for x p off d
    using call_frame_linked [of E n cs k fd n' c' k x p off d] assms(1,2) that by simp
  with call_frame_system [OF assms(1,2)] assms(2,3) show ?thesis unfolding quiet_call_def call_frame_def by blast
qed

lemma quiet_read:
  assumes "system_inv content handle E n cs" and "hvac_remote_read (connect ops hg (E k)) fd b count wk (n, cs k) = Inr (r, n', c')"
  shows "quiet_call content handle E k fd n cs n' c'"
  using quiet_frame [OF assms(1) remote_read_call [OF system_invD(1,2) [OF assms(1)] assms(2)]]
    remote_read_keeps [OF system_invD(2) [OF assms(1)] assms(2)] .

lemma quiet_pread:
  assumes "system_inv content handle E n cs"
    and "hvac_remote_pread (connect ops hg (E k)) fd b count off wk (n, cs k) = Inr (r, n', c')"
  shows "quiet_call content handle E k fd n cs n' c'"
  using quiet_frame [OF assms(1) remote_pread_call [OF system_invD(1,2) [OF assms(1)] assms(2)]]
    remote_pread_keeps [OF system_invD(2) [OF assms(1)] assms(2)] .

lemma quiet_remove:
  assumes "system_inv content handle E n cs" and "mercury_ok hg"
    and "hvac_remove_fd (connect ops hg (E k)) fd (n, cs k) = Inr (r, n', c')"
  shows "quiet_call content handle E k fd n cs n' c'"
  by (rule quiet_frame [OF assms(1) remove_fd_system [OF assms] remove_fd_keeps [OF assms(3)]])

lemma quiet_track:
  assumes inv: "system_inv content handle E n cs" and fd: "fd_in_range fd" "fd_map (cs k) fd = None"
    and t: "hvac_track_file (connect ops hg (E k)) path flags fd (n, cs k) = Inr (b, n', c')"
  shows "quiet_call content handle E k fd n cs n' c'"
proof -
  have "linked content handle (E k) n' c' x p off d" if "linked content handle (E k) n (cs k) x p off d" "x \<noteq> fd" for x p off d
    using track_file_system(2) [of E n cs fd k hg path flags b n' c' k x p off d] inv fd t that by simp
  with track_file_system(1) [OF inv fd t] track_file_call [OF system_invD(1,2) [OF inv] fd t]
    track_file_keeps [OF t fd(1)] show ?thesis unfolding quiet_call_def by blast
qed

lemma system_step_frame:
  assumes "system_step ops hg E nvmepath l (n, cs) (n', cs')" and inv: "system_inv content handle E n cs" and hg: "mercury_ok hg"
    and up: "\<And>a. l \<noteq> Lost a"
  shows "\<exists>X Y. cluster_frame content handle X Y n n'"
  using assms(1)
proof cases
  case (sys_track j path flags x b c')
  then show ?thesis using track_file_call [OF system_invD(1,2) [OF inv] sys_track(4,5,3)] by blast
next
  case (sys_read j x buf_ok count wk r c')
  then show ?thesis using remote_read_call [OF system_invD(1,2) [OF inv] sys_read(3)] unfolding call_frame_def by blast
next
  case (sys_pread j x buf_ok count poff wk r c')
  then show ?thesis using remote_pread_call [OF system_invD(1,2) [OF inv] sys_pread(3)] unfolding call_frame_def by blast
next
  case (sys_lseek j x loff whence pos c')
  then show ?thesis using remote_lseek_call [OF system_invD(1,2) [OF inv] hg sys_lseek(3)] unfolding call_frame_def by blast
next
  case (sys_remove j x b c')
  then show ?thesis using quiet_remove [OF inv hg sys_remove(3)] unfolding quiet_call_def by blast
next
  case (sys_mover a s s')
  then show ?thesis using mover_cluster_frame [of n a s, OF sys_mover(4,5)] by blast
qed (use up in simp)

text \<open>A client that is ready gets an answer.\<close>

lemma gen_open_total:
  assumes "mercury_ok hg" and "client_ok E" and "n a \<noteq> None"
    and "lookup_server E h (c\<lparr>fds := hvac_set_fd_opening fd (fds c)\<rparr>) = Inr (Some a, c2)"
  shows "\<exists>r n' c'. hvac_client_comm_gen_open_rpc (connect ops hg E) h p fd (n, c) = Inr (r, n', c')"
proof -
  from assms(3) obtain s where s: "n a = Some s" by blast
  obtain fd os' where "sys_open ops (srv_os s) (redirect_path s p) O_RDONLY 0 = (fd, os')" by (metis surj_pair)
  with assms(1) obtain out s' where "hvac_open_rpc_handler ops hg \<lparr>open_path = p\<rparr> s = Inr (out, s')"
    by (simp add: hvac_open_rpc_handler_def mercury_ok_def)
  with s assms(1,2,4) show ?thesis
    by (simp add: hvac_client_comm_gen_open_rpc_def client_ops deliver_def client_ok_def HG_SUCCESS_def Let_def)
qed

lemma track_file_total:
  assumes "client_ready E c" and "mercury_ok hg" and "client_ok E" and "servers_up E U n c"
  shows "\<exists>b n' c'. hvac_track_file (connect ops hg E) path flags fd (n, c) = Inr (b, n', c')"
proof (cases "contains_str ''.ports.cfg.'' path \<or> and flags O_ACCMODE = O_WRONLY \<or> and flags O_APPEND \<noteq> 0 \<or> track_path E c path = None")
  case True
  then show ?thesis using track_file_skip [of path flags "connect ops hg E" c fd n] by auto
next
  case False
  then obtain p where p: "track_path E c path = Some p" by auto
  let ?c = "c\<lparr>fd_map := (fd_map c)(fd \<mapsto> p)\<rparr>"
  from assms(1) obtain c0 where "ensure_mercury E c = Inr c0" by (auto simp: client_ready_def)
  then obtain c1 where m: "ensure_mercury E ?c = Inr c1" by (auto simp: ensure_mercury_def bind_run_eq_Inr split: if_splits)
  from ensure_mercury_frame [OF m] obtain e i where c1: "c1 = ?c\<lparr>cl_engine := e, g_mercury_init := i\<rparr>" by blast
  from assms(1) obtain a where a: "resolves E c p a" by (auto simp: client_ready_def)
  have "resolves E c1 p a" by (rule resolves_fields [OF a]) (simp_all add: c1)
  then obtain host where h: "host_of E c1 p = Inr host" by (auto simp: resolves_def)
  have "resolves E (c1\<lparr>fds := hvac_set_fd_opening fd (fds c1)\<rparr>) p a" by (rule resolves_fields [OF a]) (simp_all add: c1)
  with h obtain c2 where "lookup_server E host (c1\<lparr>fds := hvac_set_fd_opening fd (fds c1)\<rparr>) = Inr (Some a, c2)"
    by (auto simp: resolves_def host_of_def split: if_splits)
  from gen_open_total [OF assms(2,3) _ this] a assms(4) obtain r n' c' where
    "hvac_client_comm_gen_open_rpc (connect ops hg E) host p fd (n, c1) = Inr (r, n', c')"
    unfolding servers_up_def by blast
  with False p m h show ?thesis by (simp add: hvac_track_file_def)
qed

lemma remove_fd_total:
  assumes "client_ready E c" and "client_ok E"
  shows "\<exists>b n' c'. hvac_remove_fd (connect ops hg E) fd (n, c) = Inr (b, n', c')"
proof (cases "fd_map c fd")
  case None
  then show ?thesis by (intro exI [of _ False]) (simp add: hvac_remove_fd_def hvac_remote_close_def)
next
  case (Some p)
  from assms(1) obtain a where "resolves E c p a" unfolding client_ready_def by blast
  then obtain host c1 where "host_of E c p = Inr host" "lookup_server E host c = Inr (Some a, c1)"
    by (auto simp: resolves_def)
  with Some assms(2) show ?thesis
    by (auto simp: hvac_remove_fd_def hvac_remote_close_def hvac_client_comm_gen_close_rpc_def client_ops client_ok_def
        HG_SUCCESS_def Let_def split: prod.splits option.splits)
qed

end

lemma remote_read_refused:
  assumes "client_ready E c" and "client_inv c" and "fd_status_of (fds c) fd \<noteq> Some HVAC_FD_READY"
  shows "hvac_remote_read (connect ops hg E) fd b count wk (n, c) = Inr ((-1, []), n, c)"
  using assms by (auto simp: hvac_remote_read_def gen_read_not_ready client_ready_def resolves_def split: option.splits)
    (metis bind_run_Inr)

lemma remote_pread_refused:
  assumes "client_ready E c" and "client_inv c" and "fd_status_of (fds c) fd \<noteq> Some HVAC_FD_READY"
  shows "\<exists>c'. hvac_remote_pread (connect ops hg E) fd b count off wk (n, c) = Inr ((-1, []), n, c') \<and> fds c' = fds c \<and> fd_map c' = fd_map c"
proof (cases "fd_map c fd")
  case None
  then show ?thesis by (simp add: hvac_remote_pread_def)
next
  case (Some p)
  let ?c = "c\<lparr>fd_redir_map := index_insert 0 (fd_redir_map c) fd\<rparr>"
  from assms(1) obtain a where "resolves E c p a" by (auto simp: client_ready_def)
  then obtain host where "host_of E ?c p = Inr host" by (auto simp: resolves_def host_of_def split: if_splits)
  moreover have "hvac_client_comm_gen_read_rpc (connect ops hg E) h fd b (int64 count) off wk (n, ?c) = Inr ((-1, []), n, ?c)" for h
    using assms(3) by (intro gen_read_not_ready client_inv_index_insert assms(2)) simp
  ultimately show ?thesis using Some by (simp add: hvac_remote_pread_def Let_def)
qed

end
