(* ===== verification/HVAC_Transparency.thy ===== *)
theory HVAC_Transparency
  imports HVAC_Application
begin

text \<open>
  The library as a whole, seen from the application: a forward simulation between the application
  on the operating system alone and the same application with its calls intercepted. The application
  cannot tell the difference, as long as the servers have the files of the data set that the
  application sees.
\<close>

section \<open>The simulation, call by call\<close>

locale mirrored_storage =
  app: posix_positions lops lcontent lhandle same + srv: posix_files ops content handle
  for lops :: "'l posix_ops" and lcontent lhandle same
    and ops :: "'o posix_ops" and content handle
begin

abbreviation "mir \<equiv> mirror lcontent lhandle same content handle"
abbreviation "mfd \<equiv> mirrored_fd lcontent lhandle content handle"

lemma mirrorD:
  assumes "mir E U k n cs lo ro"
  shows "system_inv content handle E n cs" and "client_ready (E k) (cs k)" and "data_served content (E k) n (cs k) (lcontent ro)"
    and "same lo ro" and "open_files_exist lcontent lhandle ro" and "fd_map (cs k) fd \<noteq> None \<Longrightarrow> lhandle ro fd \<noteq> None"
    and "mfd (E k) n (cs k) lo ro fd" and "client_inv (cs k)" and "servers_up (E k) U n (cs k)"
  using assms system_invD(2) unfolding mirror_def by blast+

lemma mirror_upd:
  assumes M: "mir E U k n cs lo ro" and Q: "quiet_call content handle E k fd n cs n' c'"
    and os: "same lo' ro'" "lcontent ro' = lcontent ro"
      "\<And>x. x \<noteq> fd \<Longrightarrow> lhandle lo' x = lhandle lo x \<and> lhandle ro' x = lhandle ro x"
    and fd: "\<And>q off. lhandle ro' fd = Some (q, off) \<Longrightarrow> lcontent ro q \<noteq> None"
      "fd_map c' fd \<noteq> None \<Longrightarrow> lhandle ro' fd \<noteq> None" "mfd (E k) n' c' lo' ro' fd"
  shows "mir E U k n' (cs(k := c')) lo' ro'"
proof -
  note D = mirrorD [OF M]
  from Q obtain X Y where Q': "system_inv content handle E n' (cs(k := c'))" "client_frame (E k) fd (cs k) c'"
    "keeps_settings (cs k) c'" "cluster_frame content handle X Y n n'"
    "\<And>x p off d. x \<noteq> fd \<Longrightarrow> linked content handle (E k) n (cs k) x p off d \<Longrightarrow> linked content handle (E k) n' c' x p off d"
    unfolding quiet_call_def by blast
  have x: "mfd (E k) n' c' lo' ro' x" if "x \<noteq> fd" for x
    using D(7) [of x] Q'(5) [OF that] os(2) os(3) [OF that] Q'(2) that
    unfolding mirrored_fd_def client_frame_def by (auto split: if_splits) blast
  have "mfd (E k) n' c' lo' ro' x" for x using x fd(3) by (cases "x = fd") simp_all
  moreover have "lhandle ro' x \<noteq> None" if "fd_map c' x \<noteq> None" for x
    using that fd(2) D(6) [of x] os(3) [of x] Q'(2) by (cases "x = fd") (auto simp: client_frame_def)
  moreover have "open_files_exist lcontent lhandle ro'"
    using D(5) fd(1) os(2,3) unfolding open_files_exist_def by metis
  moreover note client_ready_keeps [OF D(2) Q'(2,3)] data_served_keeps [OF D(3) Q'(4,3)] Q'(1) os(1)
    servers_up_keeps [OF D(9,2) Q'(2,4)]
  ultimately show ?thesis unfolding mirror_def fun_upd_same os(2) by blast
qed

lemma mirror_os:
  assumes M: "mir E U k n cs lo ro" and os: "same lo' ro'" "lcontent ro' = lcontent ro" "lhandle lo' = lhandle lo" "lhandle ro' = lhandle ro"
  shows "mir E U k n cs lo' ro'"
proof -
  have "mfd (E k) n (cs k) lo' ro' x = mfd (E k) n (cs k) lo ro x" for x by (simp add: mirrored_fd_def os)
  with M os(1) show ?thesis unfolding mirror_def open_files_exist_def os(2-4) by blast
qed

text \<open>Where the library leaves the call to the operating system, both sides are asked the same.\<close>

lemma local_fd:
  assumes "mir E U k n cs lo ro" and "fd_status_of (fds (cs k)) fd \<noteq> Some HVAC_FD_READY"
  shows "lhandle lo fd = lhandle ro fd" and "lcontent lo = lcontent ro"
    and "lhandle ro fd = Some (q, off) \<Longrightarrow> \<exists>d. lcontent ro q = Some d"
  using mirrorD(7) [OF assms(1), of fd] mirrorD(4,5) [OF assms(1)] app.same_state assms(2)
  by (auto simp: mirrored_fd_def open_files_exist_def)

lemma local_read:
  assumes M: "mir E U k n cs lo ro" and st: "fd_status_of (fds (cs k)) fd \<noteq> Some HVAC_FD_READY" and count: "0 \<le> count"
  obtains r b lo' ro' where "sys_read lops lo fd count = ((r, b), lo')" and "sys_read lops ro fd count = ((r, b), ro')"
    and "- 1 \<le> r" and "r < 2 ^ 31" and "mir E U k n cs lo' ro'"
proof (cases "lhandle ro fd")
  case None
  with local_fd(1) [OF M st] app.bad_fd that [of "-1" "[]" lo ro] M show thesis by simp
next
  case (Some x)
  then obtain q off d where h: "lhandle ro fd = Some (q, off)" "lcontent ro q = Some d"
    using local_fd(3) [OF M st] by (cases x) auto
  let ?b = "chunk d off count"
  from app.read_ok [OF h count] obtain ro' where
    ro': "sys_read lops ro fd count = ((int (length ?b), ?b), ro')" "lhandle ro' = (lhandle ro)(fd \<mapsto> (q, off + length ?b))"
      "lcontent ro' = lcontent ro" by blast
  from local_fd(1,2) [OF M st] h have "lhandle lo fd = Some (q, off)" "lcontent lo q = Some d" by simp_all
  from app.read_ok [OF this count] obtain lo' where
    lo': "sys_read lops lo fd count = ((int (length ?b), ?b), lo')" "lhandle lo' = (lhandle lo)(fd \<mapsto> (q, off + length ?b))"
    by blast
  have "same lo' ro'" using app.same_read_both [OF mirrorD(4) [OF M], of fd count] lo'(1) ro'(1) by simp
  then have "mir E U k n (cs(k := cs k)) lo' ro'"
    by (rule mirror_upd [OF M quiet_refl [OF mirrorD(1) [OF M]]]) (use ro' lo' h st in \<open>auto simp: mirrored_fd_def\<close>)
  then have "mir E U k n cs lo' ro'" by simp
  from that [OF lo'(1) ro'(1) _ chunk_in_int this] show thesis by linarith
qed

lemma local_pread:
  assumes M: "mir E U k n cs lo ro" and st: "fd_status_of (fds (cs k)) fd \<noteq> Some HVAC_FD_READY" and count: "0 \<le> count" "0 \<le> pos"
  obtains res lo' ro' where "sys_pread lops lo fd count pos = (res, lo')" and "sys_pread lops ro fd count pos = (res, ro')"
    and "same lo' ro'" and "lcontent ro' = lcontent ro" and "lhandle lo' = lhandle lo" and "lhandle ro' = lhandle ro"
proof (cases "lhandle ro fd")
  case None
  with local_fd(1) [OF M st] app.bad_fd that [of "(-1, [])" lo ro] mirrorD(4) [OF M] show thesis by simp
next
  case (Some x)
  then obtain q off d where h: "lhandle ro fd = Some (q, off)" "lcontent ro q = Some d"
    using local_fd(3) [OF M st] by (cases x) auto
  from app.pread_ok [OF h count] obtain ro' where
    ro': "sys_pread lops ro fd count pos = ((int (length (chunk d (nat pos) count)), chunk d (nat pos) count), ro')"
      "lhandle ro' = lhandle ro" "lcontent ro' = lcontent ro" by blast
  from local_fd(1,2) [OF M st] h have "lhandle lo fd = Some (q, off)" "lcontent lo q = Some d" by simp_all
  from app.pread_ok [OF this count] obtain lo' where
    lo': "sys_pread lops lo fd count pos = ((int (length (chunk d (nat pos) count)), chunk d (nat pos) count), lo')"
      "lhandle lo' = lhandle lo" by blast
  have "same lo' ro'" using app.same_pread_both [OF mirrorD(4) [OF M], of fd count pos] lo'(1) ro'(1) by simp
  with that lo' ro' show thesis by blast
qed

text \<open>A descriptor that is ready, with what both sides know of it.\<close>

lemma ready_fd:
  assumes "mir E U k n cs lo ro" and "fd_status_of (fds (cs k)) fd = Some HVAC_FD_READY"
  obtains p q off d where "lhandle ro fd = Some (q, off)" and "lcontent ro q = Some d"
    and "linked content handle (E k) n (cs k) fd p off d"
  using mirrorD(7) [OF assms(1), of fd] assms(2) by (auto simp: mirrored_fd_def)

lemma mirrored_linked:
  assumes "linked content handle E n c fd p off d" and "lhandle ro fd = Some (q, off)" and "lcontent ro q = Some d"
  shows "mfd E n c lo ro fd"
  using assms unfolding mirrored_fd_def linked_def by auto

lemma read_mirrored:
  assumes M: "mir E U k n cs lo ro" and ok: "mercury_ok hg" "client_ok (E k)" and sym: "dlsym ''read''"
    and count: "0 \<le> count" "count < 2 ^ 31" and v: "w_net v = n" "w_client v = cs k" "w_os v = lo"
    and real: "sys_read lops ro fd count = (res, ro')"
  shows "\<exists>w. wrap_read (connect ops hg (E k)) lops dlsym start end wk fd True count v = Inr (res, w) \<and>
    mir E U k (w_net w) (cs(k := w_client w)) (w_os w) ro'"
proof (cases "fd_status_of (fds (cs k)) fd = Some HVAC_FD_READY")
  case False
  from local_read [OF M False count(1)] real obtain r b lo' where
    l: "sys_read lops lo fd count = ((r, b), lo')" "res = (r, b)" "- 1 \<le> r" "r < 2 ^ 31" "mir E U k n cs lo' ro'"
    by (metis prod.inject)
  from remote_read_refused [OF mirrorD(2,8) [OF M] False] v
  have "hvac_remote_read (connect ops hg (E k)) fd True count wk (w_net v, w_client v) = Inr ((-1, []), n, cs k)" by simp
  from wrap_read_local [where dlsym = dlsym, OF sym this, of lops r b lo'] l v obtain st where
    "wrap_read (connect ops hg (E k)) lops dlsym start end wk fd True count v =
      Inr ((r, b), v\<lparr>w_net := n, w_client := cs k, w_os := lo', w_stats := st\<rparr>)" by auto
  with l show ?thesis by simp
next
  case True
  with M obtain p q off d where h: "lhandle ro fd = Some (q, off)" "lcontent ro q = Some d"
    and l: "linked content handle (E k) n (cs k) fd p off d" by (rule ready_fd)
  have i: "int32 count = count" using count by (simp add: int32_id)
  from app.read_ok [OF h count(1)] real have res: "res = (int (length (chunk d off count)), chunk d off count)"
    and ro': "lhandle ro' = (lhandle ro)(fd \<mapsto> (q, off + length (chunk d off count)))" "lcontent ro' = lcontent ro" by auto
  from srv.remote_read_linked [OF mirrorD(8) [OF M] ok l, of count wk] count obtain n' c' where
    r: "hvac_remote_read (connect ops hg (E k)) fd True count wk (n, cs k) = Inr (res, n', c')"
    and l': "linked content handle (E k) n' c' fd p (off + length (chunk d off count)) d" by (auto simp: i res)
  from app.same_read [OF app.same_sym [OF mirrorD(4) [OF M]], of fd count] real have "same lo ro'"
    by (simp add: app.same_sym)
  then have "mir E U k n' (cs(k := c')) lo ro'"
    by (rule mirror_upd [OF M srv.quiet_read [OF mirrorD(1) [OF M] r]]) (use ro' h l' in \<open>auto intro: mirrored_linked\<close>)
  moreover have "\<exists>st. wrap_read (connect ops hg (E k)) lops dlsym start end wk fd True count v =
      Inr (res, v\<lparr>w_net := n', w_client := c', w_stats := st\<rparr>)"
    unfolding res by (rule wrap_read_remote [where dlsym = dlsym, OF sym r [folded v(1,2), unfolded res] _ chunk_in_int]) linarith
  ultimately show ?thesis using v by auto
qed

lemma pread_mirrored:
  assumes M: "mir E U k n cs lo ro" and ok: "mercury_ok hg" "client_ok (E k)" and sym: "dlsym ''pread''"
    and count: "0 \<le> count" "count < 2 ^ 31" and pos: "0 \<le> pos" and v: "w_net v = n" "w_client v = cs k" "w_os v = lo"
    and real: "sys_pread lops ro fd count pos = (res, ro')"
  shows "\<exists>w. wrap_pread (connect ops hg (E k)) lops dlsym start end wk fd True count pos v = Inr (res, w) \<and>
    mir E U k (w_net w) (cs(k := w_client w)) (w_os w) ro'"
proof (cases "fd_status_of (fds (cs k)) fd = Some HVAC_FD_READY")
  case False
  from local_pread [OF M False count(1) pos] real obtain lo' where
    l: "sys_pread lops lo fd count pos = (res, lo')" "same lo' ro'" "lcontent ro' = lcontent ro"
      "lhandle lo' = lhandle lo" "lhandle ro' = lhandle ro" by (metis prod.inject)
  from remote_pread_refused [OF mirrorD(2,8) [OF M] False] obtain c' where
    r: "hvac_remote_pread (connect ops hg (E k)) fd True count pos wk (n, cs k) = Inr ((-1, []), n, c')"
    and c': "fds c' = fds (cs k)" "fd_map c' = fd_map (cs k)" by blast
  note D = mirrorD [OF M]
  have m1: "mir E U k n (cs(k := c')) lo' ro'"
    by (rule mirror_upd [OF M srv.quiet_pread [OF D(1) r] l(2,3)])
      (use D(5,6) l False c' local_fd(1) [OF M False] in \<open>auto simp: mirrored_fd_def open_files_exist_def\<close>)
  have m2: "mir E U k n (cs(k := cs k)) lo' ro'" using mirror_os [OF M l(2-5)] by simp
  show ?thesis
    using sym v r l(1) m1 m2
    by (cases "fd_map (cs k) fd") (simp_all add: wrap_pread_def map_or_fail_def hvac_get_path_def)
next
  case True
  with M obtain p q off d where h: "lhandle ro fd = Some (q, off)" "lcontent ro q = Some d"
    and l: "linked content handle (E k) n (cs k) fd p off d" by (rule ready_fd)
  have i: "int32 count = count" using count by (simp add: int32_id)
  let ?b = "chunk d (nat pos) count"
  from app.pread_ok [OF h count(1) pos] real have res: "res = (int (length ?b), ?b)"
    and ro': "lhandle ro' = lhandle ro" "lcontent ro' = lcontent ro" by auto
  from srv.remote_pread_linked [OF mirrorD(8) [OF M] ok l, of count pos wk] count pos obtain n' c' where
    r: "hvac_remote_pread (connect ops hg (E k)) fd True count pos wk (n, cs k) = Inr (res, n', c')"
    and l': "linked content handle (E k) n' c' fd p off d" by (auto simp: i res)
  from app.same_pread [OF app.same_sym [OF mirrorD(4) [OF M]], of fd count pos] real have "same lo ro'"
    by (simp add: app.same_sym)
  then have "mir E U k n' (cs(k := c')) lo ro'"
    by (rule mirror_upd [OF M srv.quiet_pread [OF mirrorD(1) [OF M] r]]) (use ro' h l' in \<open>auto intro: mirrored_linked\<close>)
  moreover have "fd_map (cs k) fd = Some p" using l by (simp add: linked_def)
  ultimately show ?thesis using v r sym by (simp add: wrap_pread_def map_or_fail_def hvac_get_path_def res)
qed

lemma open_mirrored:
  assumes M: "mir E U k n cs lo ro" and ok: "mercury_ok hg" "client_ok (E k)" and sym: "dlsym ''open''"
    and v: "w_net v = n" "w_client v = cs k" "w_os v = lo" and real: "sys_open lops ro path O_RDONLY 0 = (fd, ro')"
  shows "\<exists>w. wrap_open (connect ops hg (E k)) lops dlsym start end path O_RDONLY 0 v = Inr (fd, w) \<and>
    mir E U k (w_net w) (cs(k := w_client w)) (w_os w) ro'"
proof -
  note D = mirrorD [OF M]
  from app.same_open [OF app.same_sym [OF D(4)] real] obtain lo' where
    lo': "sys_open lops lo path O_RDONLY 0 = (fd, lo')" and same: "same lo' ro'" using app.same_sym by blast
  from D(2) have on: "\<not> redirect_off (cs k)" by (simp add: client_ready_def)
  show ?thesis
  proof (cases "fd = -1")
    case True
    with app.open_error [of ro path 0 ro'] app.open_error [of lo path 0 lo'] real lo' mirror_os [OF M same]
    have "mir E U k n (cs(k := cs k)) lo' ro'" by simp
    with True lo' sym on v show ?thesis by (simp add: wrap_open_def map_or_fail_def O_RDONLY_def)
  next
    case False
    from app.open_fd [OF real False] app.open_fd [OF lo' False] obtain d where
      h: "lhandle ro fd = None" "lhandle ro' = (lhandle ro)(fd \<mapsto> (path, 0))" "lhandle lo' = (lhandle lo)(fd \<mapsto> (path, 0))"
        "lcontent ro path = Some d" "lcontent ro' = lcontent ro" and fd: "fd_in_range fd" by (auto simp: fd_in_range_def)
    from D(6) [of fd] h(1) have new: "fd_map (cs k) fd = None" by blast
    from srv.track_file_total [OF D(2) ok D(9)] obtain b n' c' where
      t: "hvac_track_file (connect ops hg (E k)) path O_RDONLY fd (n, cs k) = Inr (b, n', c')" by blast
    have "mfd (E k) n' c' lo' ro' fd"
    proof (cases "fd_status_of (fds c') fd = Some HVAC_FD_READY")
      case False
      with h show ?thesis by (simp add: mirrored_fd_def)
    next
      case True
      have "c' \<noteq> cs k" using client_invD(2) [OF D(8), of fd] True new by auto
      with t obtain p where p: "track_path (E k) (cs k) path = Some p" "\<not> contains_str ''.ports.cfg.'' path"
        "and O_RDONLY O_ACCMODE \<noteq> O_WRONLY" "and O_RDONLY O_APPEND = 0"
        by (cases rule: track_file_cases) auto
      from srv.track_file_linked [OF system_invD(1) [OF D(1)] D(8) fd t p True] obtain a s e where
        s: "n a = Some s" "content (srv_os s) p = Some e" and l: "linked content handle (E k) n' c' fd p 0 e" by blast
      from D(3) p(1) h(4) s have "e = d" by (auto simp: data_served_def)
      with l h show ?thesis by (intro mirrored_linked) simp_all
    qed
    with h have "mir E U k n' (cs(k := c')) lo' ro'"
      by (intro mirror_upd [OF M srv.quiet_track [OF D(1) fd new t] same]) auto
    moreover have "\<exists>w. wrap_open (connect ops hg (E k)) lops dlsym start end path O_RDONLY 0 v = Inr (fd, w) \<and>
        w_net w = n' \<and> w_client w = c' \<and> w_os w = lo'"
      using t sym on v lo' False by (simp add: wrap_open_def map_or_fail_def Let_def)
    ultimately show ?thesis by auto
  qed
qed

lemma close_mirrored:
  assumes M: "mir E U k n cs lo ro" and ok: "mercury_ok hg" "client_ok (E k)" and sym: "dlsym ''close''"
    and v: "w_net v = n" "w_client v = cs k" "w_os v = lo" and real: "sys_close lops ro fd = (r, ro')"
  shows "\<exists>w. wrap_close (connect ops hg (E k)) lops dlsym start end fd v = Inr (r, w) \<and>
    mir E U k (w_net w) (cs(k := w_client w)) (w_os w) ro'"
proof -
  note D = mirrorD [OF M]
  from app.same_close [OF app.same_sym [OF D(4)] real] obtain lo' where
    lo': "sys_close lops lo fd = (r, lo')" and same: "same lo' ro'" using app.same_sym by blast
  have h: "lhandle ro' = (lhandle ro)(fd := None) \<and> lhandle lo' = (lhandle lo)(fd := None) \<and> lcontent ro' = lcontent ro"
  proof (cases "lhandle ro fd")
    case None
    with app.same_handle_None [OF D(4), of fd] real lo' app.bad_fd show ?thesis by (auto simp: fun_upd_idem)
  next
    case (Some x)
    with app.same_handle_None [OF D(4), of fd] obtain y where "lhandle lo fd = Some y" by auto
    with Some real lo' app.close_ok [of ro fd x] app.close_ok [of lo fd y] show ?thesis by auto
  qed
  from D(2) have on: "\<not> redirect_off (cs k)" by (simp add: client_ready_def)
  obtain n' c' where Q: "quiet_call content handle E k fd n cs n' c'" and c': "fd_map c' fd = None" "fd_status_of (fds c') fd = None"
    and w: "(case hvac_get_path (w_client v) fd of None \<Rightarrow> Inr (w_net v, w_client v)
      | Some p \<Rightarrow> bind_run (hvac_remove_fd (connect ops hg (E k)) fd (w_net v, w_client v)) (\<lambda>(b, n, c). Inr (n, c))) = Inr (n', c')"
  proof (cases "fd_map (cs k) fd")
    case None
    then have "fd_status_of (fds (cs k)) fd = None" using client_invD(2) [OF D(8), of fd] by (cases "fd_status_of (fds (cs k)) fd") auto
    with None that [OF quiet_refl [OF D(1)]] v show thesis by (simp add: hvac_get_path_def)
  next
    case (Some p)
    from srv.remove_fd_total [OF D(2) ok(2)] obtain b n' c' where
      g: "hvac_remove_fd (connect ops hg (E k)) fd (n, cs k) = Inr (b, n', c')" by blast
    from remove_fd_result [OF g] Some have "fd_map c' fd = None" "fd_status_of (fds c') fd = None"
      using ft.status_cleanup [OF client_invD(1) [OF D(8)]] by auto
    with that [OF srv.quiet_remove [OF D(1) ok(1) g]] g Some v show thesis by (simp add: hvac_get_path_def)
  qed
  have "mir E U k n' (cs(k := c')) lo' ro'"
    by (rule mirror_upd [OF M Q same]) (use h c' in \<open>auto simp: mirrored_fd_def\<close>)
  moreover have "\<exists>w. wrap_close (connect ops hg (E k)) lops dlsym start end fd v = Inr (r, w) \<and>
      w_net w = n' \<and> w_client w = c' \<and> w_os w = lo'"
    using sym on lo' v unfolding wrap_close_def map_or_fail_def w by (cases "r = 0") auto
  ultimately show ?thesis by auto
qed

lemma call_mirrored:
  assumes "mir E U k n cs lo ro" and "mercury_ok hg" and "client_ok (E k)" and "\<forall>f. dlsym f" and "valid_call call"
    and "w_net v = n" "w_client v = cs k" "w_os v = lo" and "real_call lops call ro = (r, ro')"
  shows "\<exists>w. wrapped_call (connect ops hg (E k)) lops dlsym start end wk call v = Inr (r, w) \<and>
    mir E U k (w_net w) (cs(k := w_client w)) (w_os w) ro'"
proof (cases call)
  case (Open_File path)
  with assms(9) obtain fd where o: "sys_open lops ro path O_RDONLY 0 = (fd, ro')" "r = Descriptor fd" by (auto split: prod.splits)
  from open_mirrored [where dlsym = dlsym, OF assms(1-3) _ assms(6-8) o(1)] assms(4) obtain w where
    "wrap_open (connect ops hg (E k)) lops dlsym start end path O_RDONLY 0 v = Inr (fd, w) \<and> mir E U k (w_net w) (cs(k := w_client w)) (w_os w) ro'" by fastforce
  with Open_File o(2) show ?thesis by simp
next
  case (Read_File fd count)
  with assms(9) obtain i b where o: "sys_read lops ro fd count = ((i, b), ro')" "r = Bytes_Read i b" by (auto split: prod.splits)
  from assms(5) Read_File have c: "0 \<le> count" "count < 2 ^ 31" by simp_all
  from read_mirrored [where dlsym = dlsym, OF assms(1-3) _ c assms(6-8) o(1)] assms(4) obtain w where
    "wrap_read (connect ops hg (E k)) lops dlsym start end wk fd True count v = Inr ((i, b), w) \<and> mir E U k (w_net w) (cs(k := w_client w)) (w_os w) ro'" by fastforce
  with Read_File o(2) show ?thesis by simp
next
  case (Pread_File fd count off)
  with assms(9) obtain i b where o: "sys_pread lops ro fd count off = ((i, b), ro')" "r = Bytes_Read i b" by (auto split: prod.splits)
  from assms(5) Pread_File have c: "0 \<le> count" "count < 2 ^ 31" "0 \<le> off" by simp_all
  from pread_mirrored [where dlsym = dlsym, OF assms(1-3) _ c assms(6-8) o(1)] assms(4) obtain w where
    "wrap_pread (connect ops hg (E k)) lops dlsym start end wk fd True count off v = Inr ((i, b), w) \<and> mir E U k (w_net w) (cs(k := w_client w)) (w_os w) ro'" by fastforce
  with Pread_File o(2) show ?thesis by simp
next
  case (Close_File fd)
  with assms(9) obtain i where o: "sys_close lops ro fd = (i, ro')" "r = Status i" by (auto split: prod.splits)
  from close_mirrored [where dlsym = dlsym, OF assms(1-3) _ assms(6-8) o(1)] assms(4) obtain w where
    "wrap_close (connect ops hg (E k)) lops dlsym start end fd v = Inr (i, w) \<and> mir E U k (w_net w) (cs(k := w_client w)) (w_os w) ro'" by fastforce
  with Close_File o(2) show ?thesis by simp
qed

text \<open>Steps of the movers and of other clients are not noticed, nor is the loss of a server not used.\<close>

lemma lost_mirrored:
  assumes M: "mir E U k n cs lo ro" and a: "a \<notin> U"
  shows "mir E U k (n(a := None)) cs lo ro"
proof -
  note D = mirrorD [OF M]
  have "\<not> resolves (E k) (cs k) p a" for p using D(9) a unfolding servers_up_def by blast
  then have "mfd (E k) (n(a := None)) (cs k) lo ro fd" for fd
    using D(7) [of fd] srv.lost_linked unfolding mirrored_fd_def by (metis (no_types, lifting))
  moreover have "data_served content (E k) (n(a := None)) (cs k) (lcontent ro)"
    using D(3) by (simp add: data_served_def)
  moreover have "servers_up (E k) U (n(a := None)) (cs k)" using D(9) a by (auto simp: servers_up_def)
  ultimately show ?thesis using srv.lost_system [OF D(1)] D(2,4-6) unfolding mirror_def by blast
qed

lemma others_mirrored:
  assumes M: "mir E U k n cs lo ro" and hg: "mercury_ok hg"
    and st: "system_step ops hg E nvmepath l (n, cs) (n', cs')" and l: "\<And>fd. l \<noteq> Call k fd" "\<And>a. l = Lost a \<Longrightarrow> a \<notin> U"
  shows "mir E U k n' cs' lo ro"
proof (cases "\<exists>a. l = Lost a")
  case True
  then obtain a where a: "l = Lost a" by blast
  from st a have "n' = n(a := None)" "cs' = cs" by (cases, simp_all)+
  with lost_mirrored [OF M l(2) [OF a]] show ?thesis by simp
next
  case False
  note D = mirrorD [OF M]
  from st l(1) have k: "cs' k = cs k" by cases auto
  from srv.system_step_frame [OF st D(1) hg] False obtain X Y where X: "cluster_frame content handle X Y n n'" by blast
  have "data_served content (E k) n' (cs k) (lcontent ro)"
    by (rule data_served_keeps [OF D(3) X]) (simp add: keeps_settings_same)
  moreover have "servers_up (E k) U n' (cs k)"
    by (rule servers_up_keeps [OF D(9,2) _ X]) (simp add: client_frame_def)
  moreover have "mfd (E k) n' (cs k) lo ro fd" for fd
    using D(7) [of fd] srv.system_step_inv(2) [OF st D(1) hg, of k fd] l(1) [of fd] False
    unfolding mirrored_fd_def k by (auto split: if_splits) blast
  ultimately show ?thesis
    using srv.system_step_inv(1) [OF st D(1) hg] D(2,4-6) unfolding mirror_def k by blast
qed

lemma app_run_mirrored:
  assumes "app_run ops hg E nvmepath lops dlsym k tr lost x y" and "mercury_ok hg" and "client_ok (E k)" and "\<forall>f. dlsym f"
    and "mir E U k (as_net x) (as_clients x) (as_os x) s" and "\<forall>(c, r) \<in> set tr. valid_call c" and "lost \<inter> U = {}"
  shows "\<exists>s'. real_run lops (map fst tr) s = (map snd tr, s') \<and> mir E U k (as_net y) (as_clients y) (as_os y) s'"
  using assms(1,5-7)
proof (induction rule: app_run.induct)
  case (app_nil x)
  then show ?case by simp
next
  case (app_call tr lost x y start "end" wk call r w)
  then obtain s1 where s1: "real_run lops (map fst tr) s = (map snd tr, s1)" "mir E U k (as_net y) (as_clients y) (as_os y) s1"
    and v: "valid_call call" by auto
  obtain r' s2 where s2: "real_call lops call s1 = (r', s2)" by (cases "real_call lops call s1")
  from call_mirrored [where v = "app_world k y", OF s1(2) assms(2-4) v _ _ _ s2] obtain w' where
    "wrapped_call (connect ops hg (E k)) lops dlsym start end wk call (app_world k y) = Inr (r', w')"
    "mir E U k (w_net w') ((as_clients y)(k := w_client w')) (w_os w') s2"
    by (fastforce simp: app_world_def)
  with app_call.hyps(2) s1(1) s2 show ?case by (simp add: real_run_snoc after_call_def del: fun_upd_apply)
next
  case (app_others tr lost x y l n cs)
  then obtain s1 where "real_run lops (map fst tr) s = (map snd tr, s1)" "mir E U k (as_net y) (as_clients y) (as_os y) s1" by auto
  moreover have "a \<notin> U" if "l = Lost a" for a using app_others.prems(3) that by auto
  ultimately show ?case using others_mirrored [OF _ assms(2) app_others.hyps(2,3)] by auto
qed

lemma mirror_start:
  assumes "cluster_inv content handle n" and "\<And>j. client_inv (cs j)" and "\<And>j. fd_redir_map (cs j) = Map.empty"
    and "fd_map (cs k) = Map.empty" and "client_ready (E k) (cs k)" and "data_served content (E k) n (cs k) (lcontent s)"
    and "open_files_exist lcontent lhandle s" and "servers_up (E k) U n (cs k)"
  shows "mir E U k n cs s s"
proof -
  have "fd_status_of (fds (cs k)) fd = None" for fd
    using client_invD(2) [OF assms(2), of k fd] assms(4) by (cases "fd_status_of (fds (cs k)) fd") auto
  with system_inv_start [OF assms(1-3)] assms(4-8) show ?thesis by (simp add: mirror_def mirrored_fd_def app.same_refl)
qed

end

interpretation lms: mirrored_storage linux_ops files fdt linux_same linux_ops files fdt
  by unfold_locales

section \<open>Properties\<close>

text \<open>
  C1: interception is transparent as long as the servers of the data set are up. An application opens
  files for reading, reads, preads and closes them through the library, with counts below two
  gigabytes and offsets that are not negative, while movers copy and other clients work on the same
  servers, and no server this client uses is lost, by an aborted request or otherwise. If
  the servers have the files of the data set with the content the application sees when it starts,
  every call returns exactly the result it would have got from the operating system alone, and every
  further call of this kind returns.
\<close>

theorem interception_is_transparent:
  assumes "posix_positions lops lcontent lhandle same" and "posix_files ops content handle"
    and "mercury_ok hg" and "client_ok (E k)" and "\<forall>f. dlsym f"
    and "cluster_inv content handle (as_net x)" and "\<And>j. client_inv (as_clients x j)"
    and "\<And>j. fd_redir_map (as_clients x j) = Map.empty" and "fd_map (as_clients x k) = Map.empty"
    and "client_ready (E k) (as_clients x k)" and "open_files_exist lcontent lhandle (as_os x)"
    and "data_served content (E k) (as_net x) (as_clients x k) (lcontent (as_os x))"
    and "app_run ops hg E nvmepath lops dlsym k tr lost x y" and "\<forall>(c, r) \<in> set tr. valid_call c"
    and "\<forall>p a. resolves (E k) (as_clients x k) p a \<longrightarrow> as_net x a \<noteq> None \<and> a \<notin> lost"
  shows "fst (real_run lops (map fst tr) (as_os x)) = map snd tr \<and>
    (\<forall>c start end wk. valid_call c \<longrightarrow>
       (\<exists>r w. wrapped_call (connect ops hg (E k)) lops dlsym start end wk c (app_world k y) = Inr (r, w)))"
proof -
  let ?U = "{a. \<exists>p. resolves (E k) (as_clients x k) p a}"
  have ms: "mirrored_storage lops lcontent lhandle same ops content handle"
    using assms(1,2) by (rule mirrored_storage.intro)
  have up: "servers_up (E k) ?U (as_net x) (as_clients x k)" and lost: "lost \<inter> ?U = {}"
    using assms(15) unfolding servers_up_def by blast+
  note start = mirrored_storage.mirror_start [where cs = "as_clients x" and k = k and E = E and s = "as_os x",
      OF ms assms(6-10,12,11) up]
  from mirrored_storage.app_run_mirrored [OF ms assms(13,3-5) start assms(14) lost] obtain s' where
    run: "real_run lops (map fst tr) (as_os x) = (map snd tr, s')" and
    M: "mirror lcontent lhandle same content handle E ?U k (as_net y) (as_clients y) (as_os y) s'" by blast
  have "\<exists>r w. wrapped_call (connect ops hg (E k)) lops dlsym start end wk c (app_world k y) = Inr (r, w)"
    if c: "valid_call c" for c start "end" wk
  proof -
    obtain r t where "real_call lops c s' = (r, t)" by (cases "real_call lops c s'")
    from mirrored_storage.call_mirrored [OF ms M assms(3-5) c _ _ _ this, of "app_world k y" start "end" wk] show ?thesis
      by (auto simp: app_world_def)
  qed
  with run show ?thesis by simp
qed

section \<open>Sample\<close>

text \<open>One server that has the file, two clients that have not opened anything, and the mover.\<close>

definition sample_system :: "(linux, linux) app_system" where
  "sample_system = \<lparr>as_net = sample_cluster (server_init sample_os), as_clients = sample_clients, as_os = sample_os,
     as_stats = no_stats\<rparr>"

lemma sample_resolves: "resolves (sample_env 0 :: linux cluster client_env) sample_client p a \<longleftrightarrow> a = ''tcp:a''"
proof -
  let ?E = "sample_env 0 :: linux cluster client_env"
  have "host_of ?E sample_client p = Inr 0"
    by (simp add: host_of_def sample_client_def sample_env_def int32_id)
  moreover have "address_cache sample_client = Map.empty" by (simp add: sample_client_def client_initial_def)
  ultimately show ?thesis by (auto simp: resolves_def sample_lookup)
qed

lemma sample_ready: "client_ready (sample_env 0 :: linux cluster client_env) sample_client"
proof -
  let ?E = "sample_env 0 :: linux cluster client_env"
  have "\<exists>c'. ensure_mercury ?E sample_client = Inr c'"
    using sample_ensure [where 'a = "linux cluster", of 0 "[]"]
    by (auto simp: ensure_mercury_def bind_run_eq_Inr sample_client_def client_initial_def)
  then show ?thesis
    unfolding client_ready_def redirect_off_def by (auto simp: sample_resolves) (simp_all add: sample_client_def client_initial_def)
qed

lemma sample_served:
  "data_served files (sample_env 0 :: linux cluster client_env) (sample_cluster (server_init sample_os)) sample_client (files sample_os)"
  by (auto simp: data_served_def track_path_def sample_client_def sample_cluster_def server_init_def sample_env_def Let_def
      split: if_splits)

text \<open>A server that the client does not use is lost between its open and its read.\<close>

theorem interception_is_transparent_witness:
  "\<exists>y. app_run linux_ops sample_mercury (\<lambda>k. sample_env 0) (\<lambda>a. ''/bb/XXXXXX'') linux_ops (\<lambda>f. True) 0
     [(Open_File ''/data/a'', Descriptor 3), (Read_File 3 2, Bytes_Read 2 [10, 20]), (Close_File 3, Status 0)] {''tcp:b''} sample_system y"
proof -
  let ?run = "app_run linux_ops sample_mercury (\<lambda>k. sample_env 0) (\<lambda>a. ''/bb/XXXXXX'') linux_ops (\<lambda>f. True) 0"
  have ok: "open_files_exist files fdt sample_os" by (simp add: open_files_exist_def sample_os_def)
  have T: "fst (real_run linux_ops (map fst tr) sample_os) = map snd tr \<and> (\<exists>r y'. ?run (tr @ [(c, r)]) lost sample_system y')"
    if run: "?run tr lost sample_system y" and v: "\<forall>(c, r) \<in> set tr. valid_call c" "valid_call c" and l: "''tcp:a'' \<notin> lost" for tr lost y c
  proof -
    have up: "\<forall>p a. resolves (sample_env 0 :: linux cluster client_env) (as_clients sample_system 0) p a \<longrightarrow> as_net sample_system a \<noteq> None \<and> a \<notin> lost"
      using l by (simp add: sample_system_def sample_resolves sample_cluster_def)
    from interception_is_transparent [OF lxp.posix_positions_axioms lx.posix_files_axioms sample_mercury_ok(1)
        sample_client_ok _ _ _ _ _ _ _ _ run v(1) up] ok sample_served sample_ready sample_start sample_cluster_inv
    have R: "fst (real_run linux_ops (map fst tr) sample_os) = map snd tr" and
      N: "valid_call c \<Longrightarrow> \<exists>r w. wrapped_call sample_net linux_ops (\<lambda>f. True) \<lparr>tv_sec = 1, tv_nsec = 0\<rparr>
        \<lparr>tv_sec = 1, tv_nsec = 5\<rparr> [] c (app_world 0 y) = Inr (r, w)"
      by (simp_all add: sample_system_def)
    with v(2) app_call [OF run] show ?thesis by blast
  qed
  obtain r1 y1 where 1: "?run [(Open_File ''/data/a'', r1)] {} sample_system y1"
    using T [OF app_nil, of "Open_File ''/data/a''"] by auto
  from app_others [OF 1 sys_lost, of "''tcp:b''"] obtain y0 where 0: "?run [(Open_File ''/data/a'', r1)] {''tcp:b''} sample_system y0"
    by auto
  obtain r2 y2 where 2: "?run [(Open_File ''/data/a'', r1), (Read_File 3 2, r2)] {''tcp:b''} sample_system y2"
    using T [OF 0, of "Read_File 3 2"] by auto
  obtain r3 y3 where 3: "?run [(Open_File ''/data/a'', r1), (Read_File 3 2, r2), (Close_File 3, r3)] {''tcp:b''} sample_system y3"
    using T [OF 2, of "Close_File 3"] by auto
  have "free_fd sample_os = Some 3" by (simp add: free_fd_def sample_os_def upt_rec)
  then have "fst (real_run linux_ops [Open_File ''/data/a'', Read_File 3 2, Close_File 3] sample_os) =
      [Descriptor 3, Bytes_Read 2 [10, 20], Status 0]"
    by (simp add: linux_ops_def linux_open_def O_RDONLY_def)
      (simp add: sample_os_def linux_read_def linux_close_def chunk_def MAX_RW_COUNT_def numeral_2_eq_2)
  with T [OF 3, of "Close_File 3"] 3 show ?thesis by auto
qed

end
