(* ===== verification/HVAC_Server.thy ===== *)
theory HVAC_Server
  imports HVAC_Comm HVAC_Address HVAC_Logging
begin

text \<open>
  The server program (\<open>mthvac_server.cpp\<close>): the command line, the start sequence up to the idle
  loop, and the signal handler. The mover thread is started first; without \<open>BBPATH\<close> it takes the
  process down, so the start sequence has no result then.
\<close>

record server_process =
  proc_engine :: engine
  proc_files :: "string \<rightharpoonup> string"
  proc_nvmepath :: "string option"
  proc_count :: int
  proc_log :: "log_config option"

text \<open>
  What the process meets at its start: whether the pid file and the address file can be opened,
  whether the mover thread can be created, its pid, its Mercury address and the result of
  \<open>log4c_init\<close>.
\<close>

record start_env =
  st_engine :: engine_env
  pid_file_ok :: bool
  ports_file_ok :: bool
  mover_thread_ok :: bool
  st_pid :: int
  st_self_addr :: string
  st_log4c_rc :: int

definition pid_file_path :: string where "pid_file_path = ''/tmp/hvac_server.pid''"

text \<open>Failing to write the pid file is only logged.\<close>

definition write_pid_file :: "bool \<Rightarrow> int \<Rightarrow> (string \<rightharpoonup> string) \<Rightarrow> (string \<rightharpoonup> string)" where
  "write_pid_file pid_ok pid fs = (if pid_ok then fs(pid_file_path \<mapsto> show_int pid @ [CHR 0x0A]) else fs)"

text \<open>Without its thread the mover never runs; that failure, too, is only logged.\<close>

definition start_mover :: "start_env \<Rightarrow> string option run" where
  "start_mover S =
     (if mover_thread_ok S then bind_run (mover_nvmepath (eng_getenv (st_engine S))) (\<lambda>p. Inr (Some p))
      else Inr None)"

definition hvac_start_comm_server ::
    "start_env \<Rightarrow> int \<Rightarrow> log_config option \<Rightarrow> (string \<rightharpoonup> string) \<Rightarrow> server_process run" where
  "hvac_start_comm_server S count log fs =
     (let env = st_engine S; fs1 = write_pid_file (pid_file_ok S) (st_pid S) fs in
      bind_run (start_mover S) (\<lambda>nvmepath.
      bind_run (hvac_init_comm env True engine_initial) (\<lambda>e.
      bind_run (hvac_comm_list_addr (eng_getenv env) (ports_file_ok S) (st_self_addr S) e fs1) (\<lambda>fs2.
      bind_run (server_register_rpcs env e) (\<lambda>e'.
      Inr \<lparr>proc_engine = e', proc_files = fs2, proc_nvmepath = nvmepath, proc_count = count, proc_log = log\<rparr>)))))"

text \<open>\<open>argv\<close> without the program name; the count is a \<open>uint32_t\<close>.\<close>

definition server_main :: "start_env \<Rightarrow> string list \<Rightarrow> (string \<rightharpoonup> string) \<Rightarrow> server_process run" where
  "server_main S args fs =
     (case args of
        [] \<Rightarrow> Inl (Exit (-1))
      | a # _ \<Rightarrow>
          bind_run (hvac_init_logging (eng_getenv (st_engine S)) Server_Role (st_log4c_rc S) (st_pid S)) (\<lambda>log.
          hvac_start_comm_server S (uint32 (atoi a)) log fs))"

text \<open>The signal handler leaves the process with code 0.\<close>

definition signal_exit :: "'a run" where
  "signal_exit = Inl (Exit 0)"

section \<open>Lemmas\<close>

lemma init_logging_result:
  assumes "0 \<le> pid"
  shows "hvac_init_logging env role rc pid = Inl e \<Longrightarrow> rc = 0 \<and> 100000 \<le> pid"
    and "hvac_init_logging env role rc pid = Inr l \<Longrightarrow> rc \<noteq> 0 \<or> pid < 100000"
  using prefix_and_pid_fits [OF assms] prefix_and_pid_overflows
  by (cases "pid < 100000"; simp add: hvac_init_logging_def Let_def split: if_splits)+

definition can_start :: "start_env \<Rightarrow> string list \<Rightarrow> bool" where
  "can_start S args \<longleftrightarrow> args \<noteq> [] \<and> (st_log4c_rc S \<noteq> 0 \<or> st_pid S < 100000) \<and>
     (mover_thread_ok S \<longrightarrow> eng_getenv (st_engine S) ''BBPATH'' \<noteq> None) \<and>
     eng_getenv (st_engine S) ''SLURM_PROCID'' \<noteq> None \<and>
     length (ports_filename (eng_getenv (st_engine S))) < PATH_MAX \<and> ports_file_ok S \<and>
     disable_response_ret (st_engine S) = 0"

lemma start_server_iff:
  "(\<exists>P. hvac_start_comm_server S count lg fs = Inr P) \<longleftrightarrow>
     (mover_thread_ok S \<longrightarrow> eng_getenv (st_engine S) ''BBPATH'' \<noteq> None) \<and>
     eng_getenv (st_engine S) ''SLURM_PROCID'' \<noteq> None \<and>
     length (ports_filename (eng_getenv (st_engine S))) < PATH_MAX \<and> ports_file_ok S \<and>
     disable_response_ret (st_engine S) = 0"
  by (auto simp: hvac_start_comm_server_def start_mover_def mover_nvmepath_def hvac_init_comm_def
      hvac_comm_list_addr_def server_register_rpcs_def hvac_close_rpc_register_def Let_def bind_run_eq_Inr
      assert_run_eq_Inr split: option.splits if_splits)

lemma start_server_files:
  assumes "hvac_start_comm_server S count lg fs = Inr P" and "eng_getenv (st_engine S) ''SLURM_PROCID'' = Some rank"
  shows "hvac_comm_list_addr (eng_getenv (st_engine S)) True (st_self_addr S)
      (engine_initial\<lparr>hvac_server_rank := atoi rank\<rparr>) (write_pid_file (pid_file_ok S) (st_pid S) fs) = Inr (proc_files P) \<and>
    proc_count P = count \<and> proc_log P = lg"
  using assms
  by (auto simp: hvac_start_comm_server_def hvac_init_comm_def hvac_comm_list_addr_def Let_def bind_run_eq_Inr
      engine_initial_def split: option.splits if_splits)

lemma start_server_engine:
  assumes "server_main S args fs = Inr P" and "mercury_up (st_engine S)"
  shows "engine_up (proc_engine P)"
proof -
  from assms(1) obtain e where e: "hvac_init_comm (st_engine S) True engine_initial = Inr e"
    "server_register_rpcs (st_engine S) e = Inr (proc_engine P)"
    by (auto simp: server_main_def hvac_start_comm_server_def bind_run_eq_Inr Let_def split: list.splits)
  from server_engine_up [OF e assms(2)] show ?thesis by (simp add: engine_initial_def)
qed

lemma main_starts_iff:
  assumes "0 \<le> st_pid S"
  shows "(\<exists>P. server_main S args fs = Inr P) \<longleftrightarrow> can_start S args"
proof (cases args)
  case Nil
  then show ?thesis by (simp add: server_main_def can_start_def)
next
  case (Cons a as)
  note L = init_logging_result [OF assms, of "eng_getenv (st_engine S)" Server_Role "st_log4c_rc S"]
  show ?thesis
  proof (cases "hvac_init_logging (eng_getenv (st_engine S)) Server_Role (st_log4c_rc S) (st_pid S)")
    case (Inl e)
    with L(1) show ?thesis by (auto simp: server_main_def can_start_def Cons)
  next
    case (Inr l)
    with L(2) show ?thesis by (simp add: server_main_def can_start_def Cons start_server_iff)
  qed
qed

section \<open>Properties\<close>

text \<open>
  C31: when the server starts. It reaches its idle loop exactly if it is given an argument, its
  process id has at most five digits or it runs without log4c, \<open>BBPATH\<close> is set or the mover thread
  could not be created, \<open>SLURM_PROCID\<close> is set, the address file has a name that fits and can be
  opened, and Mercury accepts a close without response.
\<close>

theorem server_starts_iff:
  assumes "0 \<le> st_pid S"
  shows "(\<exists>P. server_main S args fs = Inr P) \<longleftrightarrow> can_start S args"
  using assms by (rule main_starts_iff)

text \<open>
  A started server can be found: when its rank is new in the address file, a client that reads
  the file afterwards resolves this rank to the address of the server, and if Mercury comes up there the
  five RPCs are registered.
\<close>

theorem started_server_found:
  assumes "server_main S args fs = Inr P" and "eng_getenv (st_engine S) = env"
    and "env ''SLURM_PROCID'' = Some (show_int r)" and "valid_entry (r, st_self_addr S)"
    and "fs (ports_filename env) = Some (ports_text es)" and "\<forall>e \<in> set es. valid_entry e" and "r \<notin> fst ` set es"
    and "cache r = None" and "mercury_up (st_engine S)"
  shows "\<exists>cache'. hvac_client_comm_lookup_addr env (proc_files P) r cache = Inr (Some (st_self_addr S), cache') \<and>
    engine_up (proc_engine P)"
proof -
  from assms(1) obtain count lg where h: "hvac_start_comm_server S count lg fs = Inr P"
    by (auto simp: server_main_def bind_run_eq_Inr split: list.splits)
  from assms(4) have r: "atoi (show_int r) = r" by (intro atoi_show_int) (simp_all add: valid_entry_def)
  let ?es = "es @ [(r, st_self_addr S)]"
  let ?fs = "write_pid_file (pid_file_ok S) (st_pid S) fs"
  note st = start_server_files [OF h, of "show_int r", unfolded assms(2) r, OF assms(3)]
  have "ports_filename env \<noteq> pid_file_path" by (simp add: ports_filename_def pid_file_path_def)
  then have "?fs (ports_filename env) = Some (ports_text es)" using assms(5) by (simp add: write_pid_file_def)
  with conjunct1 [OF st] have f: "proc_files P (ports_filename env) = Some (ports_text ?es)"
    "length (ports_filename env) < PATH_MAX"
    by (auto simp: hvac_comm_list_addr_def ports_text_append Let_def split: if_splits dest: sym)
  have names: "engine_up (proc_engine P)" by (rule start_server_engine [OF assms(1,9)])
  have "find_rank r (ports_text ?es) = Inr (map_of ?es r)"
    by (rule find_rank_ports_text) (use assms(4,6) in auto)
  moreover have "map_of ?es r = Some (st_self_addr S)"
    using assms(7) map_of_eq_None_iff [of es r] by (simp add: map_add_def)
  ultimately show ?thesis using f names assms(8) by (simp add: hvac_client_comm_lookup_addr_def)
qed

section \<open>Sample start\<close>

definition sample_start :: start_env where
  "sample_start = \<lparr>st_engine = \<lparr>eng_getenv = [''SLURM_JOBID'' \<mapsto> ''17'', ''SLURM_PROCID'' \<mapsto> ''1'', ''BBPATH'' \<mapsto> ''/bb''],
       hg_init_ok = True, hg_context_ok = True, pthread_ok = True, disable_response_ret = 0\<rparr>,
     pid_file_ok = True, ports_file_ok = True, mover_thread_ok = True, st_pid = 77, st_self_addr = ''tcp:b'', st_log4c_rc = 0\<rparr>"

lemma sample_can_start: "can_start sample_start [''2'']"
  by (simp add: can_start_def sample_start_def ports_filename_def PATH_MAX_def)

theorem server_starts_iff_witness:
  "(\<exists>P. server_main sample_start [''2''] Map.empty = Inr P) \<and> \<not> (\<exists>P. server_main sample_start [] Map.empty = Inr P)"
proof -
  have "0 \<le> st_pid sample_start" by (simp add: sample_start_def)
  from server_starts_iff [OF this] sample_can_start show ?thesis by (simp add: can_start_def)
qed

theorem started_server_found_witness:
  "\<exists>P cache'. server_main sample_start [''2''] [''./.ports.cfg.17'' \<mapsto> ports_text [(0, ''tcp:a'')]] = Inr P \<and>
     hvac_client_comm_lookup_addr (eng_getenv (st_engine sample_start)) (proc_files P) 1 Map.empty = Inr (Some ''tcp:b'', cache')"
proof -
  have "0 \<le> st_pid sample_start" by (simp add: sample_start_def)
  from main_starts_iff [OF this, of "[''2'']"] sample_can_start obtain P where
    P: "server_main sample_start [''2''] [''./.ports.cfg.17'' \<mapsto> ports_text [(0, ''tcp:a'')]] = Inr P" by blast
  have "show_int 1 = ''1''" by code_simp
  then have e: "eng_getenv (st_engine sample_start) ''SLURM_PROCID'' = Some (show_int 1)"
    "ports_filename (eng_getenv (st_engine sample_start)) = ''./.ports.cfg.17''" "st_self_addr sample_start = ''tcp:b''"
    by (simp_all add: sample_start_def ports_filename_def)
  have v: "valid_entry (1, st_self_addr sample_start)" "\<forall>e \<in> set [(0, ''tcp:a'')]. valid_entry e"
    by (simp_all add: e(3) sample_entries)
  have g: "[''./.ports.cfg.17'' \<mapsto> ports_text [(0, ''tcp:a'')]] (ports_filename (eng_getenv (st_engine sample_start))) =
      Some (ports_text [(0, ''tcp:a'')])" by (simp add: e(2))
  have n: "(1 :: int) \<notin> fst ` set [(0, ''tcp:a'')]" by simp
  have "mercury_up (st_engine sample_start)" by (simp add: mercury_up_def sample_start_def)
  from started_server_found [where cache = Map.empty, OF P refl e(1) v(1) g v(2) n refl this] P show ?thesis
    unfolding e(3) by blast
qed

end
