(* ===== verification/HVAC_Deployment.thy ===== *)
theory HVAC_Deployment
  imports HVAC_Application HVAC_Server
begin

text \<open>
  A whole job, from its start: the servers are started one after the other on a shared directory,
  each appending its line to the address file, then the client library is loaded. Together they
  establish what the theory of the running system assumes.
\<close>

section \<open>Starting the servers\<close>

text \<open>The servers of a job share the address file; each process leaves its files to the next.\<close>

fun start_servers :: "start_env list \<Rightarrow> string list \<Rightarrow> (string \<rightharpoonup> string) \<Rightarrow> (server_process list \<times> (string \<rightharpoonup> string)) run" where
  "start_servers [] args fs = Inr ([], fs)"
| "start_servers (S # Ss) args fs =
     bind_run (server_main S args fs) (\<lambda>P.
     bind_run (start_servers Ss args (proc_files P)) (\<lambda>(Ps, fs'). Inr (P # Ps, fs')))"

text \<open>The ranks and start environments of the servers of one job, as SLURM sets them.\<close>

definition job_servers :: "(string \<Rightarrow> string option) \<Rightarrow> (int \<times> start_env) list \<Rightarrow> bool" where
  "job_servers env job \<longleftrightarrow> distinct (map fst job) \<and>
     (\<forall>(r, S) \<in> set job. valid_entry (r, st_self_addr S) \<and>
        eng_getenv (st_engine S) ''SLURM_PROCID'' = Some (show_int r) \<and>
        eng_getenv (st_engine S) ''SLURM_JOBID'' = env ''SLURM_JOBID'')"

abbreviation posted :: "(int \<times> start_env) list \<Rightarrow> (int \<times> string) list" where
  "posted job \<equiv> map (\<lambda>(r, S). (r, st_self_addr S)) job"

lemma ports_filename_job: "env ''SLURM_JOBID'' = env' ''SLURM_JOBID'' \<Longrightarrow> ports_filename env = ports_filename env'"
  by (simp add: ports_filename_def)

lemma server_main_posts:
  assumes m: "server_main S args fs = Inr P" and rank: "eng_getenv (st_engine S) ''SLURM_PROCID'' = Some (show_int r)"
    and v: "valid_entry (r, st_self_addr S)" and f: "F = ports_filename (eng_getenv (st_engine S))"
  shows "length F < PATH_MAX" and "proc_files P F = Some (index_value [] fs F @ ports_line r (st_self_addr S))"
proof -
  from m obtain count lg where h: "hvac_start_comm_server S count lg fs = Inr P"
    by (auto simp: server_main_def bind_run_eq_Inr split: list.splits)
  from v have r: "atoi (show_int r) = r" by (intro atoi_show_int) (simp_all add: valid_entry_def)
  let ?fs = "write_pid_file (pid_file_ok S) (st_pid S) fs"
  have "F \<noteq> pid_file_path" by (simp add: f ports_filename_def pid_file_path_def)
  then have fs: "index_value [] ?fs F = index_value [] fs F" by (simp add: write_pid_file_def index_value_def)
  from conjunct1 [OF start_server_files [OF h rank]] f show "length F < PATH_MAX"
    "proc_files P F = Some (index_value [] fs F @ ports_line r (st_self_addr S))"
    by (auto simp: hvac_comm_list_addr_def Let_def r fs [unfolded f] split: if_splits dest: sym)
qed

lemma ports_text_Cons: "ports_text ((r, a) # es) = ports_line r a @ ports_text es"
  by (simp add: ports_text_def)

lemma start_servers_post:
  assumes "start_servers (map snd job) args fs = Inr (Ps, fs')" and "job_servers env job"
  shows "index_value [] fs' (ports_filename env) = index_value [] fs (ports_filename env) @ ports_text (posted job) \<and>
    length Ps = length job \<and>
    (job \<noteq> [] \<longrightarrow> length (ports_filename env) < PATH_MAX) \<and>
    (fs (ports_filename env) \<noteq> None \<or> job \<noteq> [] \<longrightarrow> fs' (ports_filename env) \<noteq> None)"
  using assms
proof (induction job arbitrary: fs Ps)
  case Nil
  then show ?case by (simp add: ports_text_def)
next
  case (Cons x job)
  obtain r S where x: "x = (r, S)" by (cases x)
  from Cons.prems obtain P Qs where m: "server_main S args fs = Inr P"
    and s: "start_servers (map snd job) args (proc_files P) = Inr (Qs, fs')" and Ps: "Ps = P # Qs"
    by (auto simp: x bind_run_eq_Inr)
  from Cons.prems(2) have j: "job_servers env job" and rank: "eng_getenv (st_engine S) ''SLURM_PROCID'' = Some (show_int r)"
    and v: "valid_entry (r, st_self_addr S)" and e: "env ''SLURM_JOBID'' = eng_getenv (st_engine S) ''SLURM_JOBID''"
    by (auto simp: x job_servers_def)
  note p = server_main_posts [OF m rank v, of "ports_filename env", OF ports_filename_job [of env "eng_getenv (st_engine S)", OF e]]
  from Cons.IH [OF s j] p Ps show ?case by (cases job) (auto simp: x ports_text_Cons ports_text_def)
qed

lemma start_servers_up:
  assumes "start_servers (map snd job) args fs = Inr (Ps, fs')" and "\<forall>(r, S) \<in> set job. mercury_up (st_engine S)"
  shows "\<forall>P \<in> set Ps. engine_up (proc_engine P)"
  using assms
proof (induction job arbitrary: fs Ps)
  case (Cons x job)
  then show ?case by (auto simp: bind_run_eq_Inr dest: start_server_engine)
qed simp

section \<open>Loading the client\<close>

lemma client_init_fields:
  assumes "hvac_client_init E rc pid us (client_initial, t) = Inr (lg, c, t')"
    and "cl_getenv E ''HVAC_SERVER_COUNT'' = Some (show_int count)" and "0 \<le> count" and "count < 2 ^ 31"
  shows "\<exists>d. c = client_initial\<lparr>g_hvac_server_count := count, hvac_data_dir := d, g_hvac_initialized := True,
    g_disable_redirect := False\<rparr>"
proof -
  have "atoi (show_int count) = count" using assms(3,4) by (intro atoi_show_int) simp_all
  moreover have "uint32 count = count" using assms(3,4) by (intro uint32_id) simp_all
  ultimately show ?thesis using assms(1,2) by (auto simp: hvac_client_init_def bind_run_eq_Inr client_initial_def)
qed

lemma rank_resolves:
  assumes "\<forall>e \<in> set es. valid_entry e" and "cl_files E (ports_filename (cl_getenv E)) = Some (ports_text es)"
    and "length (ports_filename (cl_getenv E)) < PATH_MAX"
    and "address_cache c = Map.empty" and "g_hvac_server_count c = count" and "0 < count" "count < 2 ^ 31"
    and "map_of es (std_hash E p mod count) = Some a"
  shows "resolves E c p a"
proof -
  let ?r = "std_hash E p mod count"
  have "0 \<le> ?r" "?r < count" using assms(6) by simp_all
  then have i: "int32 ?r = ?r" using assms(7) by (intro int32_id) auto
  moreover have "find_rank ?r (ports_text es) = Inr (Some a)" using find_rank_ports_text [OF assms(1)] assms(8) by simp
  ultimately have "\<exists>c'. lookup_server E ?r c = Inr (Some a, c')"
    using assms(2-4) by (simp add: lookup_server_def hvac_client_comm_lookup_addr_def)
  moreover have "host_of E c p = Inr ?r" using assms(5,6) i by (simp add: host_of_def)
  ultimately show ?thesis unfolding resolves_def by blast
qed

section \<open>Properties\<close>

text \<open>
  C8: a job that starts is ready. When the servers of a new job have started, in any order, with
  the ranks \<open>0 .. count - 1\<close> among theirs, and Mercury and the progress thread can be created in every
  process, then every server is listening with one progress thread and the five requests
  registered; a client that is loaded with this count sends every path to the server with the rank its
  hash gives, at the address that server posted; its first tracked open brings up Mercury with one
  progress thread and the same five requests, and its tables are empty.
\<close>

theorem started_job_ready:
  assumes "start_servers (map snd job) args fs = Inr (Ps, cl_files E)" and "job_servers (cl_getenv E) job"
    and "fs (ports_filename (cl_getenv E)) = None" and "{0..<count} \<subseteq> fst ` set job" and "0 < count" and "count < 2 ^ 31"
    and "cl_getenv E ''HVAC_SERVER_COUNT'' = Some (show_int count)"
    and "eng_getenv (cl_engine_env E) ''SLURM_PROCID'' \<noteq> None" and "disable_response_ret (cl_engine_env E) = 0"
    and "hvac_client_init E rc pid us (client_initial, t) = Inr (lg, c, t')"
    and "mercury_up (cl_engine_env E)" and "\<forall>(r, S) \<in> set job. mercury_up (st_engine S)"
  shows "client_ready E c \<and> client_inv c \<and> fd_map c = Map.empty \<and> fd_redir_map c = Map.empty \<and>
    (\<forall>p. \<exists>(r, S) \<in> set job. r = std_hash E p mod count \<and> resolves E c p (st_self_addr S)) \<and>
    (\<forall>P \<in> set Ps. engine_up (proc_engine P)) \<and> (\<exists>c'. ensure_mercury E c = Inr c' \<and> engine_up (cl_engine c'))"
proof -
  let ?F = "ports_filename (cl_getenv E)"
  from assms(4,5) have "job \<noteq> []" by (cases job) auto
  with start_servers_post [OF assms(1,2)] assms(3) have
    F: "cl_files E ?F = Some (ports_text (posted job))" "length ?F < PATH_MAX" by auto
  from client_init_fields [OF assms(10,7) less_imp_le [OF assms(5)] assms(6)] obtain d where
    c: "c = client_initial\<lparr>g_hvac_server_count := count, hvac_data_dir := d, g_hvac_initialized := True, g_disable_redirect := False\<rparr>" ..
  have v: "\<forall>e \<in> set (posted job). valid_entry e" using assms(2) by (auto simp: job_servers_def)
  have dist: "distinct (map fst (posted job))" using assms(2) by (simp add: job_servers_def comp_def split_def)
  have R: "\<exists>(r, S) \<in> set job. r = std_hash E p mod count \<and> resolves E c p (st_self_addr S)" for p
  proof -
    have "std_hash E p mod count \<in> {0..<count}" using assms(5) by simp
    with assms(4) obtain S where S: "(std_hash E p mod count, S) \<in> set job" by force
    then have "map_of (posted job) (std_hash E p mod count) = Some (st_self_addr S)"
      by (intro map_of_is_SomeI [OF dist]) force
    from rank_resolves [OF v F _ _ assms(5,6) this] S show ?thesis by (force simp: c client_initial_def)
  qed
  then have "\<exists>a. resolves E c p a" for p by blast
  moreover have "\<exists>e1 e2. hvac_init_comm (cl_engine_env E) False engine_initial = Inr e1 \<and>
      hvac_client_comm_register_rpc (cl_engine_env E) e1 = Inr e2"
    using assms(8,9) by (auto simp: hvac_init_comm_def hvac_client_comm_register_rpc_def hvac_close_rpc_register_def Let_def)
  then obtain e1 e2 where e: "hvac_init_comm (cl_engine_env E) False engine_initial = Inr e1"
    "hvac_client_comm_register_rpc (cl_engine_env E) e1 = Inr e2" by blast
  then have m: "ensure_mercury E c = Inr (c\<lparr>cl_engine := e2, g_mercury_init := True\<rparr>)"
    by (simp add: ensure_mercury_def c client_initial_def)
  moreover have "engine_up e2" using client_engine_up [OF e assms(11)] by (simp add: engine_initial_def)
  moreover note start_servers_up [OF assms(1,12)]
  moreover have "client_inv c" using client_init_inv [OF client_initial_inv assms(10)] .
  ultimately show ?thesis using R by (simp add: client_ready_def redirect_off_def c client_initial_def)
qed

section \<open>Sample job\<close>

text \<open>Two servers, the one with rank 1 first, and a client that expects two.\<close>

definition sample_job :: "(int \<times> start_env) list" where
  "sample_job = [(1, sample_start), (0, sample_start\<lparr>st_engine := (st_engine sample_start)
      \<lparr>eng_getenv := (eng_getenv (st_engine sample_start))(''SLURM_PROCID'' \<mapsto> ''0'')\<rparr>, st_self_addr := ''tcp:a''\<rparr>)]"

definition job_client :: "(string \<rightharpoonup> string) \<Rightarrow> unit client_env" where
  "job_client fs = (sample_env 0)\<lparr>cl_getenv := sample_getenv(''HVAC_SERVER_COUNT'' \<mapsto> ''2''), cl_files := fs\<rparr>"

lemma sample_job_starts: "\<exists>Ps fs'. start_servers (map snd sample_job) [''2''] Map.empty = Inr (Ps, fs')"
proof -
  have c: "can_start (snd (sample_job ! 0)) [''2'']" "can_start (snd (sample_job ! 1)) [''2'']"
    "0 \<le> st_pid (snd (sample_job ! 0))" "0 \<le> st_pid (snd (sample_job ! 1))"
    by (simp_all add: sample_job_def can_start_def sample_start_def ports_filename_def PATH_MAX_def)
  from main_starts_iff [OF c(3), of "[''2'']" Map.empty] c(1) obtain P where
    P: "server_main (snd (sample_job ! 0)) [''2''] Map.empty = Inr P" by blast
  from main_starts_iff [OF c(4), of "[''2'']" "proc_files P"] c(2) obtain Q where
    Q: "server_main (snd (sample_job ! 1)) [''2''] (proc_files P) = Inr Q" by blast
  from P Q show ?thesis by (simp add: sample_job_def)
qed

lemma sample_job_servers: "job_servers sample_getenv sample_job"
proof -
  have "show_int 1 = ''1''" "show_int 0 = ''0''" by code_simp+
  then show ?thesis
    using sample_entries by (simp add: job_servers_def sample_job_def sample_start_def sample_getenv_def)
qed

theorem started_job_ready_witness:
  "\<exists>Ps fs' lg c t'. start_servers (map snd sample_job) [''2''] Map.empty = Inr (Ps, fs') \<and>
     hvac_client_init (job_client fs') 0 77 12 (client_initial, timer_initial) = Inr (lg, c, t') \<and>
     client_ready (job_client fs') c \<and> resolves (job_client fs') c ''/data/a'' ''tcp:a'' \<and>
     (\<exists>c'. ensure_mercury (job_client fs') c = Inr c' \<and> engine_up (cl_engine c'))"
proof -
  obtain Ps fs' where s: "start_servers (map snd sample_job) [''2''] Map.empty = Inr (Ps, cl_files (job_client fs'))"
    using sample_job_starts by (auto simp: job_client_def)
  have "show_int 2 = ''2''" by code_simp
  then have n: "cl_getenv (job_client fs') ''HVAC_SERVER_COUNT'' = Some (show_int 2)" by (simp add: job_client_def)
  have j: "job_servers (cl_getenv (job_client fs')) sample_job"
    using sample_job_servers by (simp add: job_servers_def job_client_def)
  have "\<exists>lg c t'. hvac_client_init (job_client fs') 0 77 12 (client_initial, timer_initial) = Inr (lg, c, t')"
    using init_logging_result [of 77 _ Client_Role 0]
    by (cases "hvac_init_logging (cl_getenv (job_client fs')) Client_Role 0 77")
      (fastforce simp: hvac_client_init_def n client_initial_def)+
  then obtain lg c t' where i: "hvac_client_init (job_client fs') 0 77 12 (client_initial, timer_initial) = Inr (lg, c, t')" by blast
  have "{0..<2} \<subseteq> fst ` set sample_job" by (auto simp: sample_job_def)
  from started_job_ready [OF s j _ this _ _ n _ _ i] have
    r: "client_ready (job_client fs') c" "\<exists>(r, S) \<in> set sample_job. r = 0 \<and> resolves (job_client fs') c ''/data/a'' (st_self_addr S)"
    "\<exists>c'. ensure_mercury (job_client fs') c = Inr c' \<and> engine_up (cl_engine c')"
    by (auto simp: job_client_def sample_env_def sample_getenv_def mercury_up_def sample_job_def sample_start_def)
  from r(2) have "resolves (job_client fs') c ''/data/a'' ''tcp:a''" by (auto simp: sample_job_def)
  with s i r(1,3) show ?thesis by (intro exI [of _ Ps] exI [of _ fs'] exI [of _ lg] exI [of _ c] exI [of _ t']) (simp add: job_client_def)
qed

end
