(* ===== verification/HVAC_Loss.thy ===== *)
theory HVAC_Loss
  imports HVAC_Isolation
begin

text \<open>
  A server that disappears while an application works with its files. What a later request meets is
  Mercury's choice (\<open>hg_gone\<close>). If the request cannot be sent, the client library answers -1, and the
  wrappers go on with the local descriptor: right for a pread and for a close, while a read continues at
  the position of the local descriptor, which the remote reads have never moved. If the request is
  accepted and not answered, as when the server disappears between a request and its reply, the call does
  not return.
\<close>

section \<open>Losing a server\<close>

definition server_lost :: "string \<Rightarrow> 'o cluster \<Rightarrow> 'o cluster" where
  "server_lost a n = n(a := None)"

lemma deliver_lost: "deliver hg (server_lost a n) (Some a) f = (lost_request (hg_gone hg (Some a)), server_lost a n)"
  by (simp add: deliver_def server_lost_def)

text \<open>How a read or pread of a lost server ends, by what Mercury makes of its request.\<close>

definition lost_read :: "request_loss \<Rightarrow> 'n \<Rightarrow> ((int \<times> byte list) \<times> 'n \<times> client) run \<Rightarrow> bool" where
  "lost_read q n x \<longleftrightarrow>
     (case q of Refused_Request e \<Rightarrow> (\<exists>c. x = Inr ((-1, []), n, c)) | Accepted l \<Rightarrow> x = Inl (stopped_by l))"

lemma gen_read_lost:
  assumes inv: "client_inv c" and ok: "client_ok E" and l: "linked content handle E n c fd p off d"
    and res: "resolves E c p a" and host: "host_of E c p = Inr host" and n': "n' a = None"
  shows "lost_read (hg_gone hg (Some a)) n' (hvac_client_comm_gen_read_rpc (connect ops hg E) host fd True count pos wk (n', c))"
proof -
  from l obtain rfd where m: "fd_status_of (fds c) fd = Some HVAC_FD_READY" and r: "fd_redir_map c fd = Some rfd" "rfd \<noteq> 0"
    unfolding linked_def by blast
  from res host obtain c1 where lk: "lookup_server E host c = Inr (Some a, c1)" by (auto simp: resolves_def)
  note simps = hvac_client_comm_gen_read_rpc_def wait_under_inv [OF inv] m r lk client_ops deliver_def n' client_ok_def
    HG_SUCCESS_def lost_read_def
  show ?thesis
  proof (cases "hg_gone hg (Some a)")
    case (Refused_Request e)
    with ok show ?thesis by (simp add: simps)
  next
    case (Accepted y)
    with ok show ?thesis by (cases y) (simp_all add: simps split: prod.split)
  qed
qed

lemma remote_read_lost:
  assumes "client_inv c" and "client_ok E" and l: "linked content handle E n c fd p off d" and res: "resolves E c p a"
  shows "lost_read (hg_gone hg (Some a)) (server_lost a m) (hvac_remote_read (connect ops hg E) fd True count wk (server_lost a m, c))"
    and "lost_read (hg_gone hg (Some a)) (server_lost a m) (hvac_remote_pread (connect ops hg E) fd True count pos wk (server_lost a m, c))"
proof -
  from res obtain host where host: "host_of E c p = Inr host" by (auto simp: resolves_def)
  from l obtain rfd where p: "fd_map c fd = Some p" "fd_redir_map c fd = Some rfd" "rfd \<noteq> 0" unfolding linked_def by blast
  have "server_lost a m a = None" by (simp add: server_lost_def)
  note g = gen_read_lost [OF assms host, of "server_lost a m" hg ops "int64 count", OF this]
  show "lost_read (hg_gone hg (Some a)) (server_lost a m) (hvac_remote_read (connect ops hg E) fd True count wk (server_lost a m, c))"
    using g [of "-1" wk] host p by (simp add: hvac_remote_read_def)
  show "lost_read (hg_gone hg (Some a)) (server_lost a m) (hvac_remote_pread (connect ops hg E) fd True count pos wk (server_lost a m, c))"
    using g [of pos wk] host p by (simp add: hvac_remote_pread_def)
qed

lemma remote_read_resolves:
  assumes "client_inv c" and "hvac_remote_read (connect ops hg E) fd b count wk (n, c) = Inr (r, n', c')" and "resolves E c p a"
  shows "resolves E c' p a"
proof (cases "fd_map c fd")
  case None
  with assms(2,3) show ?thesis by (simp add: hvac_remote_read_def)
next
  case (Some x)
  with assms(2) obtain host where g: "hvac_client_comm_gen_read_rpc (connect ops hg E) host fd b (int64 count) (-1) wk (n, c) = Inr (r, n', c')"
    by (auto simp: hvac_remote_read_def bind_run_eq_Inr)
  from gen_read_effect [OF assms(1) g] assms(3) resolves_stable [OF assms(3)] show ?thesis by blast
qed

text \<open>A close does not need its server.\<close>

lemma remove_fd_lost:
  assumes "client_inv c" and "client_ok E" and p: "fd_map c fd = Some p" and res: "resolves E c p a"
  shows "\<exists>c'. hvac_remove_fd (connect ops hg E) fd (server_lost a m, c) = Inr (True, server_lost a m, c') \<and>
    fd_map c' fd = None \<and> fd_status_of (fds c') fd = None"
proof -
  from res obtain host c1 where h: "host_of E c p = Inr host" and lk: "lookup_server E host c = Inr (Some a, c1)"
    by (auto simp: resolves_def)
  have "\<exists>b c'. hvac_remove_fd (connect ops hg E) fd (server_lost a m, c) = Inr (b, server_lost a m, c')"
    using assms(2) p h lk
    by (auto simp: hvac_remove_fd_def hvac_remote_close_def hvac_client_comm_gen_close_rpc_def client_ops client_ok_def
        HG_SUCCESS_def Let_def deliver_lost oneway_def split: option.splits)
  then obtain b c' where r: "hvac_remove_fd (connect ops hg E) fd (server_lost a m, c) = Inr (b, server_lost a m, c')" by blast
  from remove_fd_result [OF this] p ft.status_cleanup [OF client_invD(1) [OF assms(1)]] have
    "b \<and> fd_map c' fd = None \<and> fd_status_of (fds c') fd = None" by auto
  with r show ?thesis by auto
qed

section \<open>Losing a reply\<close>

text \<open>
  A server that disappears between a request and its reply. Either the callback never runs or Mercury
  runs it with an error in \<open>info->ret\<close>.
\<close>

fun reply_lost :: "'r delivery \<Rightarrow> bool" where
  "reply_lost (Forward_Error r) = False"
| "reply_lost Never_Completes = True"
| "reply_lost (Completes info out) = (info \<noteq> HG_SUCCESS)"

definition stops :: "'a run \<Rightarrow> bool" where
  "stops x \<longleftrightarrow> x = Inl Assertion_Failed \<or> x = Inl Blocked_Forever"

lemma stops_bind: "stops x \<Longrightarrow> stops (bind_run x f)"
  by (auto simp: stops_def)

lemma gen_read_reply_lost:
  assumes inv: "client_inv c" and ok: "client_ok E" and m: "fd_status_of (fds c) fd = Some HVAC_FD_READY"
    and lk: "lookup_server E host c = Inr (Some a, c1)" and lost: "\<And>i. reply_lost (fst (fwd_read E n (Some a) i))"
  shows "stops (hvac_client_comm_gen_read_rpc E host fd True count pos wk (n, c))"
proof -
  from client_invD(3) [OF inv m] obtain rfd where r: "fd_redir_map c fd = Some rfd" "rfd \<noteq> 0" by auto
  obtain d n' where d: "fwd_read E n (Some a) \<lparr>input_val = int32 count, bulk_size = uint64 count, accessfd = rfd, rpc_offset = pos\<rparr> = (d, n')"
    by (metis surj_pair)
  with lost have "reply_lost d" by (metis fst_conv)
  then show ?thesis
    using ok
    by (cases d)
      (auto simp: hvac_client_comm_gen_read_rpc_def wait_under_inv [OF inv] m r lk d client_ok_def HG_SUCCESS_def stops_def
        hvac_wait_for_operation_def new_sync_context_def hvac_read_cb_def hvac_comm_create_handle_def hvac_comm_free_addr_def assert_run_def)
qed

lemma gen_open_reply_lost:
  assumes ok: "client_ok E" and lk: "lookup_server E host (c\<lparr>fds := hvac_set_fd_opening fd (fds c)\<rparr>) = Inr (Some a, c1)"
    and lost: "\<And>i. reply_lost (fst (fwd_open E n (Some a) i))"
  shows "stops (hvac_client_comm_gen_open_rpc E host p fd (n, c))"
proof -
  obtain d n' where d: "fwd_open E n (Some a) \<lparr>open_path = p\<rparr> = (d, n')" by (metis surj_pair)
  with lost have "reply_lost d" by (metis fst_conv)
  then show ?thesis
    using ok
    by (cases d)
      (auto simp: hvac_client_comm_gen_open_rpc_def lk d client_ok_def HG_SUCCESS_def stops_def hvac_comm_create_handle_def
        hvac_wait_for_operation_def new_sync_context_def hvac_open_cb_def hvac_comm_free_addr_def assert_run_def)
qed

section \<open>Properties\<close>

text \<open>
  C16: a lost server makes reads start again, or stops the application. An application opens a file,
  whose local descriptor stays at its start, and reads \<open>k\<close> bytes from the server; then the server
  disappears. If Mercury refuses to send the next request, the next read of \<open>k\<close> bytes does not fail: it
  falls back on the local descriptor and returns the same bytes again. If Mercury accepts the request,
  the read does not return: an error passed to the callback aborts the process, and without one the
  wait never ends.
\<close>

theorem lost_server_rewinds_read:
  assumes "posix_files ops content handle" and "posix_files lops lcontent lhandle" and "mercury_ok hg" and "client_ok E"
    and "client_inv (w_client w)" and "linked content handle E (w_net w) (w_client w) fd p 0 d"
    and "resolves E (w_client w) p a" and "lhandle (w_os w) fd = Some (q, 0)" and "lcontent (w_os w) q = Some d"
    and "0 \<le> k" and "k \<le> MAX_RW_COUNT" and "dlsym ''read''"
  shows "\<exists>w1. wrap_read (connect ops hg E) lops dlsym start end wk fd True k w =
      Inr ((int (length (take (nat k) d)), take (nat k) d), w1) \<and>
    (case hg_gone hg (Some a) of
       Refused_Request e \<Rightarrow>
         (\<exists>w2. wrap_read (connect ops hg E) lops dlsym start end wk fd True k (w1\<lparr>w_net := server_lost a (w_net w1)\<rparr>) =
            Inr ((int (length (take (nat k) d)), take (nat k) d), w2))
     | Accepted (Error_Reply e) \<Rightarrow>
         wrap_read (connect ops hg E) lops dlsym start end wk fd True k (w1\<lparr>w_net := server_lost a (w_net w1)\<rparr>) = Inl Assertion_Failed
     | Accepted Silence \<Rightarrow>
         wrap_read (connect ops hg E) lops dlsym start end wk fd True k (w1\<lparr>w_net := server_lost a (w_net w1)\<rparr>) = Inl Blocked_Forever)"
proof -
  from posix_files.wrap_read_linked [where dlsym = dlsym, OF assms(1,5,3,4,6,10-12), of lops start "end" wk] obtain w1 where
    w1: "wrap_read (connect ops hg E) lops dlsym start end wk fd True k w =
      Inr ((int (length (take (nat k) d)), take (nat k) d), w1)" "client_inv (w_client w1)" "w_os w1 = w_os w"
      "linked content handle E (w_net w1) (w_client w1) fd p (length (take (nat k) d)) d" by auto
  have "resolves E (w_client w1) p a"
    using w1(1) assms(7) by (auto simp: wrap_read_def map_or_fail_def bind_run_eq_Inr Let_def split: if_splits prod.splits
        dest!: remote_read_resolves [OF assms(5)])
  note lost = remote_read_lost(1) [OF w1(2) assms(4) w1(4) this, of hg "w_net w1" ops k wk]
  let ?w = "w1\<lparr>w_net := server_lost a (w_net w1)\<rparr>"
  have ch: "chunk d 0 k = take (nat k) d" using assms(11) by (simp add: chunk_def min_def)
  from posix_files.read_ok [OF assms(2,8,9,10)] obtain os' where
    l: "sys_read lops (w_os w1) fd k = ((int (length (take (nat k) d)), take (nat k) d), os')" by (auto simp: ch w1(3))
  have len: "int (length (take (nat k) d)) < 2 ^ 31" using assms(11) by (simp add: MAX_RW_COUNT_def)
  have fallback: "\<exists>w2. wrap_read (connect ops hg E) lops dlsym start end wk fd True k ?w =
      Inr ((int (length (take (nat k) d)), take (nat k) d), w2)"
    if "hvac_remote_read (connect ops hg E) fd True k wk (server_lost a (w_net w1), w_client w1) =
      Inr ((-1, []), server_lost a (w_net w1), c)" for c
  proof -
    have "\<exists>st. wrap_read (connect ops hg E) lops dlsym start end wk fd True k ?w =
        Inr ((int (length (take (nat k) d)), take (nat k) d), ?w\<lparr>w_net := server_lost a (w_net w1), w_client := c, w_os := os', w_stats := st\<rparr>)"
      by (rule wrap_read_local [where dlsym = dlsym, OF assms(12)]) (use that l len in simp_all)
    then show ?thesis by blast
  qed
  have stop: "wrap_read (connect ops hg E) lops dlsym start end wk fd True k ?w = Inl f"
    if "hvac_remote_read (connect ops hg E) fd True k wk (server_lost a (w_net w1), w_client w1) = Inl f" for f
    using that assms(12) by (simp add: wrap_read_def map_or_fail_def)
  from w1(1) lost fallback stop show ?thesis
    by (intro exI [of _ w1] conjI) (auto simp: lost_read_def split: request_loss.split reply_loss.split)
qed

text \<open>
  The other calls after the loss of a server. For a descriptor that was linked to a file of the
  lost server, a close closes the local descriptor, returns its result and forgets the descriptor in
  every table, whatever Mercury makes of the request; a pread whose request is refused returns the bytes at
  its offset from the local file, and one whose request is accepted does not return.
\<close>

theorem lost_server_fallback:
  assumes "posix_files lops lcontent lhandle" and "client_ok E" and "client_inv (w_client w)"
    and "linked content handle E n (w_client w) fd p off d" and "resolves E (w_client w) p a" and "w_net w = server_lost a n"
    and "lhandle (w_os w) fd = Some (q, loff)" and "lcontent (w_os w) q = Some d" and "\<not> redirect_off (w_client w)"
    and "0 \<le> k" and "k \<le> MAX_RW_COUNT" and "0 \<le> pos" and "\<forall>f. dlsym f"
  shows "(case hg_gone hg (Some a) of
       Refused_Request e \<Rightarrow>
         (\<exists>w1. wrap_pread (connect ops hg E) lops dlsym start end wk fd True k pos w =
            Inr ((int (length (take (nat k) (drop (nat pos) d))), take (nat k) (drop (nat pos) d)), w1))
     | Accepted l \<Rightarrow> stops (wrap_pread (connect ops hg E) lops dlsym start end wk fd True k pos w)) \<and>
    (\<exists>w2. wrap_close (connect ops hg E) lops dlsym start end fd w = Inr (0, w2) \<and> lhandle (w_os w2) fd = None \<and>
       \<not> hvac_file_tracked (w_client w2) fd \<and> fd_status_of (fds (w_client w2)) fd = None)"
proof
  from assms(4) have p: "fd_map (w_client w) fd = Some p" by (simp add: linked_def)
  note lost = remote_read_lost(2) [OF assms(3,2,4,5), of hg n ops k pos wk, folded assms(6)]
  have ch: "chunk d (nat pos) k = take (nat k) (drop (nat pos) d)" using assms(11) by (simp add: chunk_def min_def)
  from posix_files.pread_ok [OF assms(1,7,8,10,12)] obtain os' where
    l: "sys_pread lops (w_os w) fd k pos = ((int (length (take (nat k) (drop (nat pos) d))), take (nat k) (drop (nat pos) d)), os')"
    by (auto simp: ch)
  show "case hg_gone hg (Some a) of
       Refused_Request e \<Rightarrow>
         (\<exists>w1. wrap_pread (connect ops hg E) lops dlsym start end wk fd True k pos w =
            Inr ((int (length (take (nat k) (drop (nat pos) d))), take (nat k) (drop (nat pos) d)), w1))
     | Accepted l \<Rightarrow> stops (wrap_pread (connect ops hg E) lops dlsym start end wk fd True k pos w)"
  proof (cases "hg_gone hg (Some a)")
    case (Refused_Request e)
    with lost obtain c where "hvac_remote_pread (connect ops hg E) fd True k pos wk (w_net w, w_client w) = Inr ((-1, []), w_net w, c)"
      by (auto simp: lost_read_def)
    with Refused_Request l p assms(13) show ?thesis by (simp add: wrap_pread_def map_or_fail_def hvac_get_path_def)
  next
    case (Accepted y)
    with lost have "hvac_remote_pread (connect ops hg E) fd True k pos wk (w_net w, w_client w) = Inl (stopped_by y)"
      by (simp add: lost_read_def)
    with Accepted p assms(13) show ?thesis by (simp add: wrap_pread_def map_or_fail_def hvac_get_path_def stops_def stopped_by_eq)
  qed
  from remove_fd_lost [OF assms(3,2) p assms(5), of ops hg n] obtain c' where
    g: "hvac_remove_fd (connect ops hg E) fd (w_net w, w_client w) = Inr (True, w_net w, c')"
    and c': "fd_map c' fd = None" "fd_status_of (fds c') fd = None" unfolding assms(6) by blast
  from posix_files.close_ok [OF assms(1,7)] obtain os2 where
    "sys_close lops (w_os w) fd = (0, os2)" "lhandle os2 = (lhandle (w_os w))(fd := None)" by blast
  with g c' p assms(9,13) show "\<exists>w2. wrap_close (connect ops hg E) lops dlsym start end fd w = Inr (0, w2) \<and>
      lhandle (w_os w2) fd = None \<and> \<not> hvac_file_tracked (w_client w2) fd \<and> fd_status_of (fds (w_client w2)) fd = None"
    by (simp add: wrap_close_def map_or_fail_def hvac_get_path_def hvac_file_tracked_def)
qed

text \<open>
  C17: an application does not survive a lost reply. If the server of a file disappears after a request
  has been sent, the intercepted open, read or pread that sent it does not return: the assertion of
  the callback stops the process, or the wait never ends. The local file, on which the calls fall back
  when a request cannot be sent, is not tried.
\<close>

theorem lost_reply_stops_client:
  assumes "client_ok E" and "client_inv (w_client w)" and "resolves E (w_client w) p a" and "\<forall>f. dlsym f"
  shows "(fd_map (w_client w) fd = Some p \<and> fd_status_of (fds (w_client w)) fd = Some HVAC_FD_READY \<and>
      (\<forall>i. reply_lost (fst (fwd_read E (w_net w) (Some a) i))) \<longrightarrow>
      stops (wrap_read E ops dlsym start end wk fd True k w) \<and> stops (wrap_pread E ops dlsym start end wk fd True k pos w)) \<and>
    (fst (sys_open ops (w_os w) path O_RDONLY 0) \<noteq> -1 \<and> track_path E (w_client w) path = Some p \<and>
      \<not> contains_str ''.ports.cfg.'' path \<and> g_mercury_init (w_client w) \<and> \<not> redirect_off (w_client w) \<and>
      (\<forall>i. reply_lost (fst (fwd_open E (w_net w) (Some a) i))) \<longrightarrow>
      stops (wrap_open E ops dlsym start end path O_RDONLY mode w))"
proof (intro conjI impI; elim conjE)
  from assms(3) obtain host c1 where h: "host_of E (w_client w) p = Inr host"
    and lk: "lookup_server E host (w_client w) = Inr (Some a, c1)" by (auto simp: resolves_def)
  note g = gen_read_reply_lost [OF assms(2,1) _ lk]
  {
    assume m: "fd_map (w_client w) fd = Some p" "fd_status_of (fds (w_client w)) fd = Some HVAC_FD_READY"
      and lost: "\<forall>i. reply_lost (fst (fwd_read E (w_net w) (Some a) i))"
    have "stops (hvac_remote_read E fd True k wk (w_net w, w_client w))"
      using m(1) h lost by (simp add: hvac_remote_read_def g [OF m(2)])
    then show "stops (wrap_read E ops dlsym start end wk fd True k w)"
      using assms(4) by (simp add: wrap_read_def map_or_fail_def stops_bind)
    from client_invD(3) [OF assms(2) m(2)] obtain rfd where "fd_redir_map (w_client w) fd = Some rfd" "rfd \<noteq> 0" by auto
    then have "stops (hvac_remote_pread E fd True k pos wk (w_net w, w_client w))"
      using m(1) h lost by (simp add: hvac_remote_pread_def g [OF m(2)])
    then show "stops (wrap_pread E ops dlsym start end wk fd True k pos w)"
      using assms(4) m(1) by (simp add: wrap_pread_def map_or_fail_def stops_bind hvac_get_path_def)
  }
  assume o: "fst (sys_open ops (w_os w) path O_RDONLY 0) \<noteq> -1" "track_path E (w_client w) path = Some p"
    "\<not> contains_str ''.ports.cfg.'' path" "g_mercury_init (w_client w)" "\<not> redirect_off (w_client w)"
    "\<forall>i. reply_lost (fst (fwd_open E (w_net w) (Some a) i))"
  obtain nfd os' where s: "sys_open ops (w_os w) path O_RDONLY 0 = (nfd, os')" by (metis surj_pair)
  let ?c = "(w_client w)\<lparr>fd_map := (fd_map (w_client w))(nfd \<mapsto> p)\<rparr>"
  have "host_of E ?c p = Inr host" using h by (simp add: host_of_def split: if_splits)
  moreover have "ensure_mercury E ?c = Inr ?c" using o(4) by (simp add: ensure_mercury_def)
  moreover have "\<exists>c2. lookup_server E host (?c\<lparr>fds := hvac_set_fd_opening nfd (fds ?c)\<rparr>) = Inr (Some a, c2)"
    using lk by (auto simp: lookup_server_def bind_run_eq_Inr split: prod.splits)
  then have "stops (hvac_client_comm_gen_open_rpc E host p nfd (w_net w, ?c))"
    using gen_open_reply_lost [OF assms(1)] o(6) by blast
  ultimately have "stops (hvac_track_file E path O_RDONLY nfd (w_net w, w_client w))"
    using o(2,3) sample_flags by (simp add: hvac_track_file_def stops_bind)
  with o(1,5) s assms(4) show "stops (wrap_open E ops dlsym start end path O_RDONLY mode w)"
    by (simp add: wrap_open_def map_or_fail_def stops_bind O_RDONLY_def O_CREAT_def)
qed

section \<open>Sample loss\<close>

definition loss_world :: "linux cluster \<Rightarrow> (linux cluster, linux) world" where
  "loss_world n = \<lparr>w_net = n, w_client = sample_tracked ''/data/a'' 3,
     w_os = sample_os\<lparr>fdt := [5 \<mapsto> (''/data/a'', 0)]\<rparr>, w_stats = no_stats\<rparr>"

lemma loss_world_fields:
  "w_net (loss_world n) = n" "w_client (loss_world n) = sample_tracked ''/data/a'' 3"
  "fdt (w_os (loss_world n)) 5 = Some (''/data/a'', 0)" "files (w_os (loss_world n)) ''/data/a'' = Some [10, 20, 30, 40, 50]"
  by (simp_all add: loss_world_def sample_os_def)

definition silent_env :: "'n client_env" where
  "silent_env = (sample_env 0)\<lparr>fwd_read := (\<lambda>n a i. (Never_Completes, n)), fwd_open := (\<lambda>n a i. (Completes 5 \<lparr>open_ret_status = 0\<rparr>, n))\<rparr>"

lemma silent_env_fields:
  "client_ok silent_env" "lookup_server (silent_env :: 'n client_env) = lookup_server (sample_env 0 :: 'n client_env)"
  "host_of (silent_env :: 'n client_env) = host_of (sample_env 0 :: 'n client_env)"
  "track_path (silent_env :: 'n client_env) = track_path (sample_env 0 :: 'n client_env)"
  "fwd_read silent_env n a i = (Never_Completes, n)" "fwd_open silent_env n a j = (Completes 5 \<lparr>open_ret_status = 0\<rparr>, n)"
  by (simp_all add: silent_env_def client_ok_def sample_env_def lookup_server_def host_of_def track_path_def fun_eq_iff Let_def
      split: option.split)

theorem lost_server_rewinds_read_witness:
  "\<exists>w1 w2. wrap_read sample_net linux_ops (\<lambda>f. True) (fst clock) (snd clock) [] 5 True 2
      (loss_world (sample_cluster (opened_server Mover_Locking))) = Inr ((2, [10, 20]), w1) \<and>
    wrap_read sample_net linux_ops (\<lambda>f. True) (fst clock) (snd clock) [] 5 True 2 (w1\<lparr>w_net := server_lost ''tcp:a'' (w_net w1)\<rparr>) =
      Inr ((2, [10, 20]), w2)"
  using lost_server_rewinds_read [OF lx.posix_files_axioms lx.posix_files_axioms sample_mercury_ok(1) sample_client_ok,
      of "loss_world (sample_cluster (opened_server Mover_Locking))" 0 5 "''/data/a''" "[10, 20, 30, 40, 50]" "''tcp:a''" "''/data/a''"
        2 "\<lambda>f. True" "fst clock" "snd clock" "[]"]
    sample_tracked_inv sample_linked [where 'n = "linux cluster"] sample_tracked_resolves
  by (simp add: loss_world_fields MAX_RW_COUNT_def numeral_2_eq_2 sample_mercury_def)

theorem lost_server_fallback_witness:
  "(\<exists>w1. wrap_pread sample_net linux_ops (\<lambda>f. True) (fst clock) (snd clock) [] 5 True 2 3
      (loss_world (server_lost ''tcp:a'' (sample_cluster (opened_server Mover_Locking)))) = Inr ((2, [40, 50]), w1)) \<and>
   (\<exists>w2. wrap_close sample_net linux_ops (\<lambda>f. True) (fst clock) (snd clock) 5
      (loss_world (server_lost ''tcp:a'' (sample_cluster (opened_server Mover_Locking)))) = Inr (0, w2) \<and>
      \<not> hvac_file_tracked (w_client w2) 5)"
proof -
  let ?n = "sample_cluster (opened_server Mover_Locking)"
  have "\<not> redirect_off (sample_tracked ''/data/a'' 3)"
    by (simp add: redirect_off_def sample_tracked_def sample_opening_def sample_client_def client_initial_def)
  with lost_server_fallback [OF lx.posix_files_axioms sample_client_ok, of "loss_world (server_lost ''tcp:a'' ?n)" files fdt 0 ?n 5 "''/data/a''" 0
      "[10, 20, 30, 40, 50]" "''tcp:a''" "''/data/a''" 0 2 3 "\<lambda>f. True" linux_ops sample_mercury "fst clock" "snd clock" "[]"]
    sample_tracked_inv sample_linked [where 'n = "linux cluster"] sample_tracked_resolves
  show ?thesis by (auto simp: loss_world_fields MAX_RW_COUNT_def numeral_2_eq_2 numeral_3_eq_3 sample_mercury_def)
qed

theorem lost_reply_stops_client_witness:
  "stops (wrap_read silent_env linux_ops (\<lambda>f. True) (fst clock) (snd clock) [] 5 True 2 (loss_world (\<lambda>a. None))) \<and>
   stops (wrap_pread silent_env linux_ops (\<lambda>f. True) (fst clock) (snd clock) [] 5 True 2 3 (loss_world (\<lambda>a. None))) \<and>
   stops (wrap_open silent_env linux_ops (\<lambda>f. True) (fst clock) (snd clock) ''/data/a'' O_RDONLY 0 (loss_world (\<lambda>a. None)))"
proof -
  let ?w = "loss_world (\<lambda>a. None)" let ?c = "sample_tracked ''/data/a'' 3"
  have r: "resolves (silent_env :: linux cluster client_env) (w_client ?w) ''/data/a'' ''tcp:a''"
    using sample_tracked_resolves unfolding resolves_def silent_env_fields loss_world_fields .
  have f: "\<not> redirect_off ?c" "g_mercury_init ?c" "hvac_data_dir ?c = Some ''/data''"
    by (simp_all add: redirect_off_def sample_tracked_def sample_opening_def sample_client_def client_initial_def)
  have t: "track_path (silent_env :: linux cluster client_env) ?c ''/data/a'' = Some ''/data/a''"
    by (simp add: silent_env_fields track_path_def f(3) sample_path)
  have c: "\<not> contains_str ''.ports.cfg.'' ''/data/a''" by code_simp
  have o: "fst (sys_open linux_ops (w_os ?w) ''/data/a'' O_RDONLY 0) \<noteq> -1"
    by (simp add: loss_world_def linux_ops_def linux_open_def free_fd_def sample_os_def upt_rec O_RDONLY_def)
  show ?thesis
    using lost_reply_stops_client [OF silent_env_fields(1) _ r, of "\<lambda>f. True" 5 linux_ops "fst clock" "snd clock" "[]" 2 3 "''/data/a''" 0]
      f t c o sample_tracked_inv
    by (simp add: loss_world_fields silent_env_fields HG_SUCCESS_def sample_tracked_fields)
qed

end
