(* ===== verification/HVAC_Preload.thy ===== *)
theory HVAC_Preload
  imports HVAC_Application
begin

text \<open>
  The library for comparison measurements (\<open>src/tests/my_ldpreload.cpp\<close>): it intercepts open, close
  and pread, calls the real function, and counts and times the call. Every other call is the real one.
  The function pointers are found with \<open>dlsym\<close> at the first use and kept; a null pointer would be
  called at once. \<open>verbose\<close> is off. The statistics of the calls whose interception is commented out stay
  zero and are left out.
\<close>

section \<open>State\<close>

record preload =
  real_open :: bool
  real_close :: bool
  real_pread :: bool
  ld_open_data_stats :: Stats
  ld_open_system_stats :: Stats
  ld_close_stats :: Stats
  ld_pread_stats :: Stats

definition preload_initial :: preload where
  "preload_initial = (let z = \<lparr>stat_count = 0, stat_time = 0\<rparr> in
     \<lparr>real_open = False, real_close = False, real_pread = False,
      ld_open_data_stats = z, ld_open_system_stats = z, ld_close_stats = z, ld_pread_stats = z\<rparr>)"

section \<open>The intercepted calls\<close>

definition ld_symbol :: "(string \<Rightarrow> bool) \<Rightarrow> string \<Rightarrow> bool \<Rightarrow> 'a run \<Rightarrow> 'a run" where
  "ld_symbol dlsym func known k = (if known \<or> dlsym func then k else Inl Null_Dereference)"

definition ld_data_path :: string where
  "ld_data_path = ''/mnt/beegfs/ghu4/hvac/cosmoUniverse_2019_05_4parE_tf_v2_mini/''"

definition ld_open ::
    "'l posix_ops \<Rightarrow> (string \<Rightarrow> bool) \<Rightarrow> timespec \<Rightarrow> timespec \<Rightarrow> string \<Rightarrow> 32 word \<Rightarrow> int \<Rightarrow> preload \<times> 'l \<Rightarrow> (int \<times> preload \<times> 'l) run" where
  "ld_open ops dlsym start end pathname flags va = (\<lambda>(s, os).
     ld_symbol dlsym ''open'' (real_open s) (
     let (fd, os') = sys_open ops os pathname flags (if and flags O_CREAT \<noteq> 0 then va else 0);
         s1 = s\<lparr>real_open := True\<rparr>; delta = elapsed start end
     in Inr (fd, (if contains_str ld_data_path pathname
                  then s1\<lparr>ld_open_data_stats := add_stat delta (ld_open_data_stats s1)\<rparr>
                  else s1\<lparr>ld_open_system_stats := add_stat delta (ld_open_system_stats s1)\<rparr>), os')))"

definition ld_close ::
    "'l posix_ops \<Rightarrow> (string \<Rightarrow> bool) \<Rightarrow> timespec \<Rightarrow> timespec \<Rightarrow> int \<Rightarrow> preload \<times> 'l \<Rightarrow> (int \<times> preload \<times> 'l) run" where
  "ld_close ops dlsym start end fd = (\<lambda>(s, os).
     ld_symbol dlsym ''close'' (real_close s) (
     let (ret, os') = sys_close ops os fd
     in Inr (ret, s\<lparr>real_close := True, ld_close_stats := add_stat (elapsed start end) (ld_close_stats s)\<rparr>, os')))"

definition ld_pread ::
    "'l posix_ops \<Rightarrow> (string \<Rightarrow> bool) \<Rightarrow> timespec \<Rightarrow> timespec \<Rightarrow> int \<Rightarrow> int \<Rightarrow> int \<Rightarrow> preload \<times> 'l \<Rightarrow>
     ((int \<times> byte list) \<times> preload \<times> 'l) run" where
  "ld_pread ops dlsym start end fd count offset = (\<lambda>(s, os).
     ld_symbol dlsym ''pread'' (real_pread s) (
     let (res, os') = sys_pread ops os fd count offset
     in Inr (res, s\<lparr>real_pread := True, ld_pread_stats := add_stat (elapsed start end) (ld_pread_stats s)\<rparr>, os')))"

section \<open>An application under measurement\<close>

text \<open>Each call with the readings of the clock before and after it.\<close>

type_synonym timed_call = "timespec \<times> timespec \<times> posix_call"

fun ld_call :: "'l posix_ops \<Rightarrow> (string \<Rightarrow> bool) \<Rightarrow> timed_call \<Rightarrow> preload \<times> 'l \<Rightarrow> (posix_result \<times> preload \<times> 'l) run" where
  "ld_call ops dlsym (start, end, Open_File path) x =
     bind_run (ld_open ops dlsym start end path O_RDONLY 0 x) (\<lambda>(fd, x'). Inr (Descriptor fd, x'))"
| "ld_call ops dlsym (start, end, Read_File fd count) (s, os) =
     (case sys_read ops os fd count of ((r, b), os') \<Rightarrow> Inr (Bytes_Read r b, s, os'))"
| "ld_call ops dlsym (start, end, Pread_File fd count off) x =
     bind_run (ld_pread ops dlsym start end fd count off x) (\<lambda>((r, b), x'). Inr (Bytes_Read r b, x'))"
| "ld_call ops dlsym (start, end, Close_File fd) x =
     bind_run (ld_close ops dlsym start end fd x) (\<lambda>(r, x'). Inr (Status r, x'))"

fun ld_run :: "'l posix_ops \<Rightarrow> (string \<Rightarrow> bool) \<Rightarrow> timed_call list \<Rightarrow> preload \<times> 'l \<Rightarrow> (posix_result list \<times> preload \<times> 'l) run" where
  "ld_run ops dlsym [] x = Inr ([], x)"
| "ld_run ops dlsym (c # cs) x =
     bind_run (ld_call ops dlsym c x) (\<lambda>(r, x1).
     bind_run (ld_run ops dlsym cs x1) (\<lambda>(rs, x2). Inr (r # rs, x2)))"

section \<open>What should be counted\<close>

fun opens_data :: "posix_call \<Rightarrow> bool" where
  "opens_data (Open_File path) = contains_str ld_data_path path"
| "opens_data c = False"

fun opens_system :: "posix_call \<Rightarrow> bool" where
  "opens_system (Open_File path) = (\<not> contains_str ld_data_path path)"
| "opens_system c = False"

fun is_pread :: "posix_call \<Rightarrow> bool" where
  "is_pread (Pread_File fd count off) = True"
| "is_pread c = False"

fun is_close :: "posix_call \<Rightarrow> bool" where
  "is_close (Close_File fd) = True"
| "is_close c = False"

text \<open>The statistics after counting the calls that satisfy \<open>P\<close>.\<close>

definition counted :: "(posix_call \<Rightarrow> bool) \<Rightarrow> timed_call list \<Rightarrow> Stats \<Rightarrow> Stats" where
  "counted P xs s = \<lparr>stat_count = stat_count s + int (length (filter (\<lambda>(start, end, c). P c) xs)),
     stat_time = stat_time s + (\<Sum>(start, end, c)\<leftarrow>xs. if P c then seconds end - seconds start else 0)\<rparr>"

definition room :: "nat \<Rightarrow> Stats \<Rightarrow> bool" where
  "room n s \<longleftrightarrow> 0 \<le> stat_count s \<and> stat_count s + int n < 2 ^ 64"

lemma counted_Nil [simp]: "counted P [] s = s"
  by (simp add: counted_def)

lemma counted_Cons_in:
  assumes "room (Suc n) s" and "P c"
  shows "counted P ((start, end, c) # xs) s = counted P xs (add_stat (elapsed start end) s)"
    and "room n (add_stat (elapsed start end) s)"
proof -
  from assms(1) have "uint64 (stat_count s + 1) = stat_count s + 1" by (intro uint64_id) (auto simp: room_def)
  then have "add_stat (elapsed start end) s = \<lparr>stat_count = stat_count s + 1, stat_time = stat_time s + (seconds end - seconds start)\<rparr>"
    by (cases s) (simp add: add_stat_def elapsed_eq seconds_def)
  with assms show "counted P ((start, end, c) # xs) s = counted P xs (add_stat (elapsed start end) s)"
    "room n (add_stat (elapsed start end) s)" by (simp_all add: counted_def room_def)
qed

lemma counted_Cons_out: "\<not> P c \<Longrightarrow> counted P ((start, end, c) # xs) s = counted P xs s"
  by (simp add: counted_def)

lemma room_less: "room (Suc n) s \<Longrightarrow> room n s"
  by (simp add: room_def)

definition preload_room :: "nat \<Rightarrow> preload \<Rightarrow> bool" where
  "preload_room n s \<longleftrightarrow> room n (ld_open_data_stats s) \<and> room n (ld_open_system_stats s) \<and>
     room n (ld_close_stats s) \<and> room n (ld_pread_stats s)"

text \<open>One call: the real result, and the statistics as if it had been counted.\<close>

lemma ld_call_result:
  assumes sym: "\<forall>f. dlsym f" and room: "preload_room (Suc n) s" and x: "x = (start, end, c)" and r: "real_call ops c os = (r, os')"
  shows "\<exists>s'. ld_call ops dlsym x (s, os) = Inr (r, s', os') \<and> preload_room n s' \<and>
    counted opens_data xs (ld_open_data_stats s') = counted opens_data (x # xs) (ld_open_data_stats s) \<and>
    counted opens_system xs (ld_open_system_stats s') = counted opens_system (x # xs) (ld_open_system_stats s) \<and>
    counted is_close xs (ld_close_stats s') = counted is_close (x # xs) (ld_close_stats s) \<and>
    counted is_pread xs (ld_pread_stats s') = counted is_pread (x # xs) (ld_pread_stats s)"
proof (cases c)
  case (Open_File path)
  with sym room r show ?thesis
    by (cases "contains_str ld_data_path path")
      (auto simp: x ld_open_def ld_symbol_def O_RDONLY_def preload_room_def counted_Cons_in counted_Cons_out room_less
        split: prod.splits)
next
  case (Read_File fd count)
  with room r show ?thesis
    by (auto simp: x preload_room_def counted_Cons_out room_less split: prod.splits)
next
  case (Pread_File fd count off)
  with sym room r show ?thesis
    by (auto simp: x ld_pread_def ld_symbol_def preload_room_def counted_Cons_in counted_Cons_out room_less split: prod.splits)
next
  case (Close_File fd)
  with sym room r show ?thesis
    by (auto simp: x ld_close_def ld_symbol_def preload_room_def counted_Cons_in counted_Cons_out room_less split: prod.splits)
qed

section \<open>Properties\<close>

text \<open>
  C37: the measurement does not change what is measured, and its numbers are right. An application
  under the measuring library gets the results of the real calls in the same order and leaves the
  operating system in the same state; every open is counted under its data or system group, every
  close and every pread is counted, failed ones too, each with exactly the time between its two clock
  readings, and reads are not counted at all.
\<close>

theorem measurement_exact:
  assumes "\<forall>f. dlsym f" and "preload_room (length xs) s" and "real_run ops (map (\<lambda>(start, end, c). c) xs) os = (rs, os')"
  shows "\<exists>s'. ld_run ops dlsym xs (s, os) = Inr (rs, s', os') \<and>
    ld_open_data_stats s' = counted opens_data xs (ld_open_data_stats s) \<and>
    ld_open_system_stats s' = counted opens_system xs (ld_open_system_stats s) \<and>
    ld_close_stats s' = counted is_close xs (ld_close_stats s) \<and>
    ld_pread_stats s' = counted is_pread xs (ld_pread_stats s)"
  using assms(2,3)
proof (induction xs arbitrary: s os rs)
  case Nil
  then show ?case by simp
next
  case (Cons x xs)
  obtain start "end" c where x: "x = (start, end, c)" by (cases x)
  from Cons.prems(2) obtain r os1 qs where r: "real_call ops c os = (r, os1)"
    and qs: "real_run ops (map (\<lambda>(start, end, c). c) xs) os1 = (qs, os')" "rs = r # qs"
    by (auto simp: x split: prod.splits)
  from ld_call_result [OF assms(1) _ x r, of "length xs" s xs] Cons.prems(1) obtain s1 where
    s1: "ld_call ops dlsym x (s, os) = Inr (r, s1, os1)" "preload_room (length xs) s1"
    "counted opens_data xs (ld_open_data_stats s1) = counted opens_data (x # xs) (ld_open_data_stats s)"
    "counted opens_system xs (ld_open_system_stats s1) = counted opens_system (x # xs) (ld_open_system_stats s)"
    "counted is_close xs (ld_close_stats s1) = counted is_close (x # xs) (ld_close_stats s)"
    "counted is_pread xs (ld_pread_stats s1) = counted is_pread (x # xs) (ld_pread_stats s)"
    by auto
  from Cons.IH [OF s1(2) qs(1)] s1 qs(2) show ?case by auto
qed

theorem measurement_exact_witness:
  "\<exists>s'. ld_run linux_ops (\<lambda>f. True)
     [(\<lparr>tv_sec = 1, tv_nsec = 0\<rparr>, \<lparr>tv_sec = 2, tv_nsec = 0\<rparr>, Open_File ''/data/a''),
      (\<lparr>tv_sec = 2, tv_nsec = 0\<rparr>, \<lparr>tv_sec = 2, tv_nsec = 500000000\<rparr>, Pread_File 3 2 1),
      (\<lparr>tv_sec = 3, tv_nsec = 0\<rparr>, \<lparr>tv_sec = 4, tv_nsec = 0\<rparr>, Close_File 9)] (preload_initial, sample_os) =
     Inr ([Descriptor 3, Bytes_Read 2 [20, 30], Status (-1)], s', sample_os\<lparr>fdt := [3 \<mapsto> (''/data/a'', 0)]\<rparr>) \<and>
   ld_open_system_stats s' = \<lparr>stat_count = 1, stat_time = 1\<rparr> \<and> ld_pread_stats s' = \<lparr>stat_count = 1, stat_time = 1 / 2\<rparr>"
proof -
  let ?xs = "[(\<lparr>tv_sec = 1, tv_nsec = 0\<rparr>, \<lparr>tv_sec = 2, tv_nsec = 0\<rparr>, Open_File ''/data/a''),
      (\<lparr>tv_sec = 2, tv_nsec = 0\<rparr>, \<lparr>tv_sec = 2, tv_nsec = 500000000\<rparr>, Pread_File 3 2 1),
      (\<lparr>tv_sec = 3, tv_nsec = 0\<rparr>, \<lparr>tv_sec = 4, tv_nsec = 0\<rparr>, Close_File 9)]"
  have "free_fd sample_os = Some 3" by (simp add: free_fd_def sample_os_def upt_rec)
  then have "real_run linux_ops (map (\<lambda>(start, end, c). c) ?xs) sample_os =
      ([Descriptor 3, Bytes_Read 2 [20, 30], Status (-1)], sample_os\<lparr>fdt := [3 \<mapsto> (''/data/a'', 0)]\<rparr>)"
    by (simp add: linux_ops_def linux_open_def O_RDONLY_def)
      (simp add: sample_os_def linux_pread_def linux_close_def chunk_def MAX_RW_COUNT_def numeral_2_eq_2 fun_eq_iff)
  moreover have "preload_room (length ?xs) preload_initial"
    by (simp add: preload_room_def room_def preload_initial_def Let_def)
  moreover have "\<not> contains_str ld_data_path ''/data/a''" by code_simp
  ultimately show ?thesis
    using measurement_exact [of "\<lambda>f. True" ?xs preload_initial linux_ops sample_os]
    by (auto simp: counted_def preload_initial_def seconds_def Let_def)
qed

end
