(* ===== verification/HVAC_Threads.thy ===== *)
theory HVAC_Threads
  imports HVAC_Client
begin

text \<open>
  Application threads inside the client at the same time (\<open>mthvac_comm_client.cpp\<close>). Every thread
  that has called a generator waits on a synchronisation context on its own stack; the completion
  callbacks run one after the other on the progress thread. Both are sequences of small steps here,
  interleaved in every order: the mutex and the condition variable of the context, the life time of
  the context and of the argument of the callback, and the descriptor tables that all threads share.
\<close>

section \<open>Requests and the positions of the threads\<close>

text \<open>
  One call of a generator with what the network makes of it: the result of \<open>HG_Forward\<close>, whether
  Mercury ever runs the callback of a request that was sent, and then \<open>info->ret\<close>, the value of the
  decoded output and whether the clean-up calls of the read callback succeed.
\<close>

datatype rpc_op = Open_Op int | Read_Op | Seek_Op

record request =
  rq_op :: rpc_op
  rq_forward :: int
  rq_reply :: bool
  rq_info :: int
  rq_value :: int
  rq_cleanup :: bool

datatype waiter_pc =
    W_Start
  | W_Opening
  | W_Forward
  | W_Lock
  | W_Test
  | W_Waiting
  | W_Relock
  | W_Load
  | W_Unlock int
  | W_Free int
  | W_Return int
  | W_Returned int

datatype callback_pc =
    C_Idle
  | C_Pending
  | C_Store
  | C_Mark
  | C_Lock
  | C_Set_Done
  | C_Set_Result
  | C_Broadcast
  | C_Unlock
  | C_Free
  | C_Finished

datatype side = App | Net

text \<open>
  \<open>ctx_alive\<close>: the context on the stack of the waiting thread exists. \<open>arg_alive\<close>: the structure
  handed to the callback is allocated.
\<close>

record call =
  waiter :: waiter_pc
  callback :: callback_pc
  done_mutex :: "side option"
  sync :: hvac_sync_context
  ctx_alive :: bool
  arg_alive :: bool

definition new_call :: call where
  "new_call = \<lparr>waiter = W_Start, callback = C_Idle, done_mutex = None, sync = new_sync_context,
     ctx_alive = True, arg_alive = True\<rparr>"

section \<open>Steps of one call\<close>

text \<open>The argument of an open or a seek is freed by the waiting thread, that of a read by the callback.\<close>

fun callback_frees :: "rpc_op \<Rightarrow> bool" where
  "callback_frees Read_Op = True"
| "callback_frees (Open_Op fd) = False"
| "callback_frees Seek_Op = False"

fun mark_opening :: "rpc_op \<Rightarrow> client \<Rightarrow> client" where
  "mark_opening (Open_Op fd) c = c\<lparr>fds := hvac_set_fd_opening fd (fds c)\<rparr>"
| "mark_opening Read_Op c = c"
| "mark_opening Seek_Op c = c"

fun mark_forward_failed :: "rpc_op \<Rightarrow> client \<Rightarrow> client" where
  "mark_forward_failed (Open_Op fd) c = c\<lparr>fds := hvac_set_fd_error fd (fds c)\<rparr>"
| "mark_forward_failed Read_Op c = c"
| "mark_forward_failed Seek_Op c = c"

text \<open>
  The thread that called the generator. At \<open>W_Opening\<close> an open is inside the change of
  \<open>fd_state_map\<close> in \<open>hvac_set_fd_opening\<close>; \<open>pthread_cond_wait\<close> gives the mutex up and takes it again.
\<close>

inductive waiter_step :: "request \<Rightarrow> call \<times> client \<Rightarrow> call \<times> client \<Rightarrow> bool" for rq where
  start: "waiter k = W_Start \<Longrightarrow>
    waiter_step rq (k, c) (k\<lparr>waiter := W_Opening\<rparr>, c)"
| opened: "waiter k = W_Opening \<Longrightarrow>
    waiter_step rq (k, c) (k\<lparr>waiter := W_Forward\<rparr>, mark_opening (rq_op rq) c)"
| sent: "waiter k = W_Forward \<Longrightarrow> rq_forward rq = 0 \<Longrightarrow>
    waiter_step rq (k, c) (k\<lparr>waiter := W_Lock, callback := C_Pending\<rparr>, c)"
| not_sent: "waiter k = W_Forward \<Longrightarrow> rq_forward rq \<noteq> 0 \<Longrightarrow> rq_op rq \<noteq> Seek_Op \<Longrightarrow>
    waiter_step rq (k, c) (k\<lparr>waiter := W_Return (-1), arg_alive := False\<rparr>, mark_forward_failed (rq_op rq) c)"
| lock: "waiter k = W_Lock \<Longrightarrow> done_mutex k = None \<Longrightarrow>
    waiter_step rq (k, c) (k\<lparr>waiter := W_Test, done_mutex := Some App\<rparr>, c)"
| relock: "waiter k = W_Relock \<Longrightarrow> done_mutex k = None \<Longrightarrow>
    waiter_step rq (k, c) (k\<lparr>waiter := W_Test, done_mutex := Some App\<rparr>, c)"
| wait: "waiter k = W_Test \<Longrightarrow> \<not> sync_done (sync k) \<Longrightarrow>
    waiter_step rq (k, c) (k\<lparr>waiter := W_Waiting, done_mutex := None\<rparr>, c)"
| is_done: "waiter k = W_Test \<Longrightarrow> sync_done (sync k) \<Longrightarrow> waiter_step rq (k, c) (k\<lparr>waiter := W_Load\<rparr>, c)"
| load: "waiter k = W_Load \<Longrightarrow> waiter_step rq (k, c) (k\<lparr>waiter := W_Unlock (sync_result (sync k))\<rparr>, c)"
| unlock: "waiter k = W_Unlock r \<Longrightarrow>
    waiter_step rq (k, c) (k\<lparr>waiter := W_Free r, done_mutex := None\<rparr>, c)"
| free_arg: "waiter k = W_Free r \<Longrightarrow>
    waiter_step rq (k, c)
      (k\<lparr>waiter := W_Return r, arg_alive := (if callback_frees (rq_op rq) then arg_alive k else False)\<rparr>, c)"
| return: "waiter k = W_Return r \<Longrightarrow>
    waiter_step rq (k, c) (k\<lparr>waiter := W_Returned r, ctx_alive := False\<rparr>, c)"

text \<open>
  The callback. The open callback stores the remote descriptor before it marks the descriptor
  ready; \<open>local_fd\<close> went through a \<open>uint32_t\<close>. At \<open>C_Store\<close> it is inside the change of
  \<open>fd_redir_map\<close>. The flag is set before the result, both under the mutex. A request without a reply
  stays pending.
\<close>

fun store_remote :: "rpc_op \<Rightarrow> int \<Rightarrow> client \<Rightarrow> client" where
  "store_remote (Open_Op fd) v c =
     (if v > 0 then c\<lparr>fd_redir_map := (fd_redir_map c)(int32 (uint32 fd) \<mapsto> v)\<rparr> else c)"
| "store_remote Read_Op v c = c"
| "store_remote Seek_Op v c = c"

fun mark_status :: "rpc_op \<Rightarrow> int \<Rightarrow> client \<Rightarrow> client" where
  "mark_status (Open_Op fd) v c =
     (if v > 0 then c\<lparr>fds := hvac_set_fd_ready (int32 (uint32 fd)) (fds c)\<rparr>
      else c\<lparr>fds := hvac_set_fd_error (int32 (uint32 fd)) (fds c)\<rparr>)"
| "mark_status Read_Op v c = c"
| "mark_status Seek_Op v c = c"

definition wake_all :: "waiter_pc \<Rightarrow> waiter_pc" where
  "wake_all w = (if w = W_Waiting then W_Relock else w)"

text \<open>The assertions at the start of a callback; the seek callback has none.\<close>

fun reply_accepted :: "request \<Rightarrow> bool" where
  "reply_accepted rq =
     (case rq_op rq of
        Open_Op fd \<Rightarrow> rq_info rq = HG_SUCCESS
      | Read_Op \<Rightarrow> rq_info rq = HG_SUCCESS \<and> rq_cleanup rq
      | Seek_Op \<Rightarrow> True)"

inductive callback_step :: "request \<Rightarrow> call \<times> client \<Rightarrow> call \<times> client \<Rightarrow> bool" for rq where
  decode: "callback k = C_Pending \<Longrightarrow> rq_reply rq \<Longrightarrow> reply_accepted rq \<Longrightarrow>
    callback_step rq (k, c) (k\<lparr>callback := C_Store\<rparr>, c)"
| store: "callback k = C_Store \<Longrightarrow>
    callback_step rq (k, c) (k\<lparr>callback := C_Mark\<rparr>, store_remote (rq_op rq) (rq_value rq) c)"
| mark: "callback k = C_Mark \<Longrightarrow>
    callback_step rq (k, c) (k\<lparr>callback := C_Lock\<rparr>, mark_status (rq_op rq) (rq_value rq) c)"
| cb_lock: "callback k = C_Lock \<Longrightarrow> done_mutex k = None \<Longrightarrow>
    callback_step rq (k, c) (k\<lparr>callback := C_Set_Done, done_mutex := Some Net\<rparr>, c)"
| set_done: "callback k = C_Set_Done \<Longrightarrow>
    callback_step rq (k, c) (k\<lparr>callback := C_Set_Result, sync := (sync k)\<lparr>sync_done := True\<rparr>\<rparr>, c)"
| set_result: "callback k = C_Set_Result \<Longrightarrow>
    callback_step rq (k, c) (k\<lparr>callback := C_Broadcast, sync := (sync k)\<lparr>sync_result := rq_value rq\<rparr>\<rparr>, c)"
| broadcast: "callback k = C_Broadcast \<Longrightarrow>
    callback_step rq (k, c) (k\<lparr>callback := C_Unlock, waiter := wake_all (waiter k)\<rparr>, c)"
| cb_unlock: "callback k = C_Unlock \<Longrightarrow>
    callback_step rq (k, c)
      (k\<lparr>callback := (if callback_frees (rq_op rq) then C_Free else C_Finished), done_mutex := None\<rparr>, c)"
| cb_free: "callback k = C_Free \<Longrightarrow>
    callback_step rq (k, c) (k\<lparr>callback := C_Finished, arg_alive := False\<rparr>, c)"

section \<open>Overlapping accesses of the maps\<close>

text \<open>
  \<open>fd_state_map\<close> is one map behind the locks of 64 shards, \<open>fd_redir_map\<close> has no lock. The sets say
  which map a call is in the middle of changing, and which the next step of a thread begins to change
  or looks up. The shard locks are left out: they exclude some of the overlaps and no other order of
  steps (theory \<open>HVAC_Fd_State\<close>).
\<close>

datatype shared_map = Fd_State_Map | Fd_Redir_Map

definition changing :: "request \<Rightarrow> call \<Rightarrow> shared_map set" where
  "changing rq k =
     {m. \<exists>fd. rq_op rq = Open_Op fd \<and>
        (m = Fd_State_Map \<and> waiter k = W_Opening \<or> m = Fd_Redir_Map \<and> callback k = C_Store \<and> rq_value rq > 0)}"

fun waiter_accesses :: "request \<Rightarrow> waiter_pc \<Rightarrow> shared_map set" where
  "waiter_accesses rq W_Start = (case rq_op rq of Open_Op fd \<Rightarrow> {Fd_State_Map} | _ \<Rightarrow> {Fd_State_Map, Fd_Redir_Map})"
| "waiter_accesses rq W_Forward = (case rq_op rq of Open_Op fd \<Rightarrow> (if rq_forward rq \<noteq> 0 then {Fd_State_Map} else {}) | _ \<Rightarrow> {})"
| "waiter_accesses rq w = {}"

fun callback_accesses :: "request \<Rightarrow> callback_pc \<Rightarrow> shared_map set" where
  "callback_accesses rq C_Pending = (case rq_op rq of Open_Op fd \<Rightarrow> (if rq_value rq > 0 then {Fd_Redir_Map} else {}) | _ \<Rightarrow> {})"
| "callback_accesses rq C_Mark = (case rq_op rq of Open_Op fd \<Rightarrow> {Fd_State_Map} | _ \<Rightarrow> {})"
| "callback_accesses rq p = {}"

section \<open>The process\<close>

text \<open>
  \<open>progress\<close> is the call whose callback the progress thread is running. A failed assertion stops
  the whole process. \<open>overlapped\<close> records that a thread has begun an access of a map while another
  was changing it; the contents of the maps are arbitrary from then on.
\<close>

record process =
  call_of :: "nat \<Rightarrow> call"
  progress :: "nat option"
  shared :: client
  aborted :: bool
  overlapped :: bool

definition process_init :: "client \<Rightarrow> process" where
  "process_init c = \<lparr>call_of = (\<lambda>i. new_call), progress = None, shared = c, aborted = False, overlapped = False\<rparr>"

datatype move = By_App nat | By_Net nat | Spurious nat

definition progress_after :: "nat \<Rightarrow> call \<Rightarrow> nat option" where
  "progress_after i k = (if callback k = C_Finished then None else Some i)"

definition overlaps :: "request list \<Rightarrow> process \<Rightarrow> nat \<Rightarrow> shared_map set \<Rightarrow> bool" where
  "overlaps rqs s i ms \<longleftrightarrow> (\<exists>j < length rqs. j \<noteq> i \<and> changing (rqs ! j) (call_of s j) \<inter> ms \<noteq> {})"

inductive process_step :: "request list \<Rightarrow> move \<Rightarrow> process \<Rightarrow> process \<Rightarrow> bool" for rqs where
  app: "\<not> aborted s \<Longrightarrow> i < length rqs \<Longrightarrow> waiter_step (rqs ! i) (call_of s i, shared s) (k, c) \<Longrightarrow>
    b = (overlapped s \<or> overlaps rqs s i (waiter_accesses (rqs ! i) (waiter (call_of s i)))) \<Longrightarrow> (\<not> b \<Longrightarrow> c' = c) \<Longrightarrow>
    process_step rqs (By_App i) s (s\<lparr>call_of := (call_of s)(i := k), shared := c', overlapped := b\<rparr>)"
| app_abort: "\<not> aborted s \<Longrightarrow> i < length rqs \<Longrightarrow> waiter (call_of s i) = W_Forward \<Longrightarrow>
    rq_forward (rqs ! i) \<noteq> 0 \<Longrightarrow> rq_op (rqs ! i) = Seek_Op \<Longrightarrow>
    process_step rqs (By_App i) s (s\<lparr>aborted := True\<rparr>)"
| spurious: "\<not> aborted s \<Longrightarrow> i < length rqs \<Longrightarrow> waiter (call_of s i) = W_Waiting \<Longrightarrow>
    process_step rqs (Spurious i) s (s\<lparr>call_of := (call_of s)(i := (call_of s i)\<lparr>waiter := W_Relock\<rparr>)\<rparr>)"
| net: "\<not> aborted s \<Longrightarrow> i < length rqs \<Longrightarrow> progress s = Some i \<or> (progress s = None \<and> callback (call_of s i) = C_Pending) \<Longrightarrow>
    callback_step (rqs ! i) (call_of s i, shared s) (k, c) \<Longrightarrow>
    b = (overlapped s \<or> overlaps rqs s i (callback_accesses (rqs ! i) (callback (call_of s i)))) \<Longrightarrow> (\<not> b \<Longrightarrow> c' = c) \<Longrightarrow>
    process_step rqs (By_Net i) s
      (s\<lparr>call_of := (call_of s)(i := k), shared := c', progress := progress_after i k, overlapped := b\<rparr>)"
| net_abort: "\<not> aborted s \<Longrightarrow> i < length rqs \<Longrightarrow> progress s = None \<Longrightarrow> callback (call_of s i) = C_Pending \<Longrightarrow>
    rq_reply (rqs ! i) \<Longrightarrow> \<not> reply_accepted (rqs ! i) \<Longrightarrow>
    process_step rqs (By_Net i) s (s\<lparr>aborted := True\<rparr>)"

inductive process_run :: "request list \<Rightarrow> move list \<Rightarrow> process \<Rightarrow> process \<Rightarrow> bool" for rqs where
  run_nil: "process_run rqs [] s s"
| run_snoc: "process_run rqs ms s t \<Longrightarrow> process_step rqs m t u \<Longrightarrow> process_run rqs (ms @ [m]) s u"

inductive_cases waiter_stepE: "waiter_step rq (k, c) (k', c')"
inductive_cases callback_stepE: "callback_step rq (k, c) (k', c')"

section \<open>Use of dead objects\<close>

text \<open>
  What the next step of each thread touches. Freeing or destroying an object counts as touching it,
  so that nothing is freed twice; a context is destroyed only while nobody holds or wants its mutex.
\<close>

fun waiter_uses_ctx :: "waiter_pc \<Rightarrow> bool" where
  "waiter_uses_ctx (W_Returned r) = False"
| "waiter_uses_ctx w = True"

fun waiter_frees_arg :: "rpc_op \<Rightarrow> waiter_pc \<Rightarrow> bool" where
  "waiter_frees_arg oper W_Forward = True"
| "waiter_frees_arg oper (W_Free r) = (\<not> callback_frees oper)"
| "waiter_frees_arg oper w = False"

definition callback_uses_ctx :: "callback_pc \<Rightarrow> bool" where
  "callback_uses_ctx p = (p \<in> {C_Lock, C_Set_Done, C_Set_Result, C_Broadcast, C_Unlock})"

definition callback_uses_arg :: "callback_pc \<Rightarrow> bool" where
  "callback_uses_arg p = (p \<in> {C_Pending, C_Store, C_Mark, C_Lock, C_Set_Done, C_Set_Result, C_Broadcast, C_Unlock, C_Free})"

fun destroys_ctx :: "waiter_pc \<Rightarrow> bool" where
  "destroys_ctx (W_Return r) = True"
| "destroys_ctx w = False"

definition memory_safe :: "rpc_op \<Rightarrow> call \<Rightarrow> bool" where
  "memory_safe oper k \<longleftrightarrow>
     (waiter_uses_ctx (waiter k) \<longrightarrow> ctx_alive k) \<and> (callback_uses_ctx (callback k) \<longrightarrow> ctx_alive k) \<and>
     (waiter_frees_arg oper (waiter k) \<longrightarrow> arg_alive k) \<and> (callback_uses_arg (callback k) \<longrightarrow> arg_alive k) \<and>
     (destroys_ctx (waiter k) \<longrightarrow> done_mutex k = None \<and> \<not> callback_uses_ctx (callback k))"

section \<open>The invariant of one call\<close>

fun waiter_holds :: "waiter_pc \<Rightarrow> bool" where
  "waiter_holds W_Test = True"
| "waiter_holds W_Load = True"
| "waiter_holds (W_Unlock r) = True"
| "waiter_holds w = False"

definition callback_holds :: "callback_pc \<Rightarrow> bool" where
  "callback_holds p = (p \<in> {C_Set_Done, C_Set_Result, C_Broadcast, C_Unlock})"

definition callback_signalled :: "callback_pc \<Rightarrow> bool" where
  "callback_signalled p = (p \<in> {C_Free, C_Finished})"

fun waiter_result :: "waiter_pc \<Rightarrow> int option" where
  "waiter_result (W_Unlock r) = Some r"
| "waiter_result (W_Free r) = Some r"
| "waiter_result (W_Return r) = Some r"
| "waiter_result (W_Returned r) = Some r"
| "waiter_result w = None"

definition unsent :: "waiter_pc \<Rightarrow> bool" where
  "unsent w = (w \<in> {W_Start, W_Opening, W_Forward})"

fun arg_freed :: "request \<Rightarrow> waiter_pc \<Rightarrow> callback_pc \<Rightarrow> bool" where
  "arg_freed rq (W_Return r) p = (rq_forward rq \<noteq> 0 \<or> \<not> callback_frees (rq_op rq) \<or> p = C_Finished)"
| "arg_freed rq (W_Returned r) p = (rq_forward rq \<noteq> 0 \<or> \<not> callback_frees (rq_op rq) \<or> p = C_Finished)"
| "arg_freed rq w p = (callback_frees (rq_op rq) \<and> p = C_Finished)"

definition call_inv :: "request \<Rightarrow> call \<Rightarrow> bool" where
  "call_inv rq k \<longleftrightarrow>
     (ctx_alive k \<longleftrightarrow> waiter_uses_ctx (waiter k)) \<and>
     (arg_alive k \<longleftrightarrow> \<not> arg_freed rq (waiter k) (callback k)) \<and>
     done_mutex k = (if waiter_holds (waiter k) then Some App else if callback_holds (callback k) then Some Net else None) \<and>
     \<not> (waiter_holds (waiter k) \<and> callback_holds (callback k)) \<and>
     (sync_done (sync k) \<longleftrightarrow> callback k \<in> {C_Set_Result, C_Broadcast, C_Unlock, C_Free, C_Finished}) \<and>
     (callback k \<in> {C_Broadcast, C_Unlock, C_Free, C_Finished} \<longrightarrow> sync_result (sync k) = rq_value rq) \<and>
     (waiter k = W_Waiting \<longrightarrow> callback k \<notin> {C_Unlock, C_Free, C_Finished}) \<and>
     (callback k = C_Idle \<longleftrightarrow> unsent (waiter k) \<or> rq_forward rq \<noteq> 0) \<and>
     (callback k \<notin> {C_Idle, C_Pending} \<longrightarrow> rq_reply rq) \<and>
     (rq_forward rq \<noteq> 0 \<longrightarrow> waiter k \<in> {W_Start, W_Opening, W_Forward, W_Return (-1), W_Returned (-1)}) \<and>
     (rq_forward rq = 0 \<longrightarrow> waiter k = W_Load \<longrightarrow> callback_signalled (callback k)) \<and>
     (\<forall>r. rq_forward rq = 0 \<longrightarrow> waiter_result (waiter k) = Some r \<longrightarrow>
        callback_signalled (callback k) \<and> r = rq_value rq) \<and>
     (callback k = C_Free \<longrightarrow> callback_frees (rq_op rq))"

lemmas call_facts = callback_uses_ctx_def callback_uses_arg_def callback_holds_def callback_signalled_def
  unsent_def wake_all_def

lemma new_call_inv: "call_inv rq new_call"
  by (simp add: call_inv_def new_call_def new_sync_context_def call_facts)

lemma call_inv_safe: "call_inv rq k \<Longrightarrow> memory_safe (rq_op rq) k"
  unfolding memory_safe_def call_inv_def
  by (cases "waiter k"; cases "callback k") (auto simp: call_facts)

lemma waiter_step_inv:
  assumes "waiter_step rq (k, c) (k', c')" and "call_inv rq k"
  shows "call_inv rq k'"
  using assms(1)
  by cases (insert assms(2), unfold call_inv_def,
    (cases "rq_forward rq = 0"; cases "callback k"; simp add: call_facts)+)

lemma callback_step_inv:
  assumes "callback_step rq (k, c) (k', c')" and "call_inv rq k"
  shows "call_inv rq k'"
  using assms(1)
  by cases (insert assms(2), unfold call_inv_def,
    (cases "rq_forward rq = 0"; cases "waiter k"; simp add: call_facts)+)

lemma spurious_inv: "waiter k = W_Waiting \<Longrightarrow> call_inv rq k \<Longrightarrow> call_inv rq (k\<lparr>waiter := W_Relock\<rparr>)"
  unfolding call_inv_def by (cases "rq_forward rq = 0") (simp_all add: call_facts)

section \<open>The invariant of the process\<close>

definition callback_running :: "callback_pc \<Rightarrow> bool" where
  "callback_running p = (p \<notin> {C_Idle, C_Pending, C_Finished})"

definition process_inv :: "request list \<Rightarrow> process \<Rightarrow> bool" where
  "process_inv rqs s \<longleftrightarrow>
     (\<forall>i < length rqs. call_inv (rqs ! i) (call_of s i) \<and> (progress s = Some i \<longleftrightarrow> callback_running (callback (call_of s i)))) \<and>
     (\<forall>i. progress s = Some i \<longrightarrow> i < length rqs)"

lemma process_invD:
  assumes "process_inv rqs s" and "i < length rqs"
  shows "call_inv (rqs ! i) (call_of s i)" and "progress s = Some i \<longleftrightarrow> callback_running (callback (call_of s i))"
  using assms by (simp_all add: process_inv_def)

lemma waiter_step_callback:
  "waiter_step rq (k, c) (k', c') \<Longrightarrow> call_inv rq k \<Longrightarrow> callback_running (callback k') = callback_running (callback k)"
  by (erule waiter_stepE) (auto simp: callback_running_def call_inv_def unsent_def)

lemma callback_step_running:
  "callback_step rq (k, c) (k', c') \<Longrightarrow> callback_running (callback k') \<longleftrightarrow> callback k' \<noteq> C_Finished"
  by (erule callback_stepE) (auto simp: callback_running_def)

lemma process_step_inv:
  assumes "process_step rqs m s t" and "process_inv rqs s"
  shows "process_inv rqs t"
  using assms(1)
proof cases
  case (app i k c b c')
  note i = process_invD [OF assms(2) app(4)]
  from waiter_step_inv [OF app(5) i(1)] waiter_step_callback [OF app(5) i(1)] i(2) have
    "call_inv (rqs ! i) k" "progress s = Some i \<longleftrightarrow> callback_running (callback k)" by simp_all
  with i(2) assms(2) app(2) show ?thesis by (simp add: process_inv_def)
next
  case (spurious i)
  with process_invD [OF assms(2), of i] spurious_inv assms(2) show ?thesis
    by (auto simp: process_inv_def)
next
  case (net i k c b c')
  have "call_inv (rqs ! j) (call_of t j) \<and> (progress t = Some j \<longleftrightarrow> callback_running (callback (call_of t j)))"
    if "j < length rqs" for j
  proof (cases "j = i")
    case True
    with net callback_step_inv [OF net(6)] process_invD(1) [OF assms(2) net(4)] callback_step_running [OF net(6)]
    show ?thesis by (simp add: progress_after_def)
  next
    case False
    with process_invD [OF assms(2) that] net(5) have "\<not> callback_running (callback (call_of s j))" by auto
    with False net(2) process_invD(1) [OF assms(2) that] show ?thesis by (simp add: progress_after_def)
  qed
  with net(2,4) show ?thesis by (simp add: process_inv_def progress_after_def)
qed (use assms(2) in \<open>auto simp: process_inv_def\<close>)

lemma process_init_inv: "process_inv rqs (process_init c)"
  by (simp add: process_inv_def process_init_def new_call_inv) (simp add: new_call_def callback_running_def)

lemma process_run_inv: "process_run rqs ms s t \<Longrightarrow> process_inv rqs s \<Longrightarrow> process_inv rqs t"
  by (induction rule: process_run.induct) (auto dest: process_step_inv)

section \<open>Every run is short\<close>

fun waiter_rank :: "waiter_pc \<Rightarrow> nat" where
  "waiter_rank W_Start = 10"
| "waiter_rank W_Opening = 9"
| "waiter_rank W_Forward = 8"
| "waiter_rank W_Lock = 7"
| "waiter_rank W_Relock = 7"
| "waiter_rank W_Test = 6"
| "waiter_rank W_Waiting = 5"
| "waiter_rank W_Load = 4"
| "waiter_rank (W_Unlock r) = 3"
| "waiter_rank (W_Free r) = 2"
| "waiter_rank (W_Return r) = 1"
| "waiter_rank (W_Returned r) = 0"

fun callback_rank :: "callback_pc \<Rightarrow> nat" where
  "callback_rank C_Idle = 10"
| "callback_rank C_Pending = 9"
| "callback_rank C_Store = 8"
| "callback_rank C_Mark = 7"
| "callback_rank C_Lock = 6"
| "callback_rank C_Set_Done = 5"
| "callback_rank C_Set_Result = 4"
| "callback_rank C_Broadcast = 3"
| "callback_rank C_Unlock = 2"
| "callback_rank C_Free = 1"
| "callback_rank C_Finished = 0"

definition call_rank :: "call \<Rightarrow> nat" where
  "call_rank k = waiter_rank (waiter k) + 3 * callback_rank (callback k)"

definition process_rank :: "request list \<Rightarrow> process \<Rightarrow> nat" where
  "process_rank rqs s = (if aborted s then 0 else 1 + (\<Sum>i < length rqs. call_rank (call_of s i)))"

lemma waiter_step_rank: "waiter_step rq (k, c) (k', c') \<Longrightarrow> call_inv rq k \<Longrightarrow> call_rank k' < call_rank k"
  by (erule waiter_stepE) (auto simp: call_rank_def call_inv_def unsent_def)

lemma callback_step_rank: "callback_step rq (k, c) (k', c') \<Longrightarrow> call_rank k' < call_rank k"
  by (erule callback_stepE) (auto simp: call_rank_def wake_all_def)

lemma sum_upd: 
  fixes n :: nat and f :: "'a \<Rightarrow> nat"
  assumes "i < n"
  shows "(\<Sum>j < n. f ((g(i := k)) j)) + f (g i) = (\<Sum>j < n. f (g j)) + f k"
proof -
  have "(\<Sum>j < n. f ((g(i := k)) j)) = f k + (\<Sum>j \<in> {..<n} - {i}. f ((g(i := k)) j))"
    using assms by (subst sum.remove [of _ i]) auto
  moreover have "(\<Sum>j \<in> {..<n} - {i}. f ((g(i := k)) j)) = (\<Sum>j \<in> {..<n} - {i}. f (g j))"
    by (intro sum.cong) auto
  moreover have "(\<Sum>j < n. f (g j)) = f (g i) + (\<Sum>j \<in> {..<n} - {i}. f (g j))"
    using assms by (subst sum.remove [of _ i]) auto
  ultimately show ?thesis by simp
qed

fun is_spurious :: "move \<Rightarrow> bool" where
  "is_spurious (Spurious i) = True"
| "is_spurious (By_App i) = False"
| "is_spurious (By_Net i) = False"

lemma process_step_rank:
  assumes "process_step rqs m s t" and "process_inv rqs s"
  shows "process_rank rqs t + 1 \<le> process_rank rqs s + (if is_spurious m then 3 else 0)"
  using assms(1)
proof cases
  case (app i k c b c')
  with waiter_step_rank [OF app(5)] process_invD [OF assms(2)] sum_upd [OF app(4), of call_rank "call_of s" k]
  show ?thesis by (simp add: process_rank_def)
next
  case (spurious i)
  have "call_rank ((call_of s i)\<lparr>waiter := W_Relock\<rparr>) = call_rank (call_of s i) + 2"
    using spurious by (simp add: call_rank_def)
  with spurious sum_upd [OF spurious(4), of call_rank "call_of s" "(call_of s i)\<lparr>waiter := W_Relock\<rparr>"]
  show ?thesis by (simp add: process_rank_def)
next
  case (net i k c b c')
  with callback_step_rank [OF net(6)] sum_upd [OF net(4), of call_rank "call_of s" k]
  show ?thesis by (simp add: process_rank_def)
qed (simp_all add: process_rank_def)

lemma process_run_rank:
  "process_run rqs ms s t \<Longrightarrow> process_inv rqs s \<Longrightarrow>
     process_rank rqs t + length ms \<le> process_rank rqs s + 3 * length (filter is_spurious ms)"
proof (induction rule: process_run.induct)
  case (run_snoc ms s t m u)
  with process_step_rank [OF run_snoc(2) process_run_inv [OF run_snoc(1)]] show ?case by (auto split: if_splits)
qed simp

section \<open>No deadlock\<close>

definition no_abort :: "request list \<Rightarrow> bool" where
  "no_abort rqs \<longleftrightarrow> (\<forall>rq \<in> set rqs. reply_accepted rq \<and> (rq_op rq = Seek_Op \<longrightarrow> rq_forward rq = 0))"

lemma no_abortD:
  "no_abort rqs \<Longrightarrow> i < length rqs \<Longrightarrow> reply_accepted (rqs ! i) \<and> (rq_op (rqs ! i) = Seek_Op \<longrightarrow> rq_forward (rqs ! i) = 0)"
  by (simp add: no_abort_def)

lemma process_run_not_aborted:
  "process_run rqs ms s t \<Longrightarrow> no_abort rqs \<Longrightarrow> \<not> aborted s \<Longrightarrow> \<not> aborted t"
proof (induction rule: process_run.induct)
  case (run_snoc ms s t m u)
  from run_snoc(2) show ?case
    by cases (use run_snoc no_abortD [OF run_snoc.prems(1)] in auto)
qed simp

text \<open>A waiting thread or a callback can only be stopped by the mutex, and by a missing signal.\<close>

lemma waiter_enabled:
  assumes "call_inv rq k" and "rq_op rq = Seek_Op \<longrightarrow> rq_forward rq = 0"
    and "\<forall>r. waiter k \<noteq> W_Returned r" and "waiter k \<noteq> W_Waiting" and "\<not> callback_holds (callback k)"
  shows "\<exists>k' c'. waiter_step rq (k, c) (k', c')"
proof (cases "waiter k")
  case W_Forward
  then show ?thesis using assms(2) sent [of k rq] not_sent [of k rq] by blast
next
  case W_Lock
  with assms have "done_mutex k = None" by (simp add: call_inv_def)
  with W_Lock show ?thesis by (blast intro: lock)
next
  case W_Relock
  with assms have "done_mutex k = None" by (simp add: call_inv_def)
  with W_Relock show ?thesis by (blast intro: relock)
qed (use assms in \<open>blast intro: waiter_step.intros\<close>)+

lemma callback_enabled:
  assumes "call_inv rq k" and "reply_accepted rq" and "callback k \<noteq> C_Idle" and "callback k \<noteq> C_Finished"
    and "callback k = C_Pending \<longrightarrow> rq_reply rq" and "\<not> waiter_holds (waiter k)"
  shows "\<exists>k' c'. callback_step rq (k, c) (k', c')"
proof (cases "callback k")
  case C_Lock
  with assms have "done_mutex k = None" by (simp add: call_inv_def callback_holds_def)
  with C_Lock show ?thesis by (blast intro: cb_lock)
qed (use assms in \<open>blast intro: callback_step.intros\<close>)+

lemma app_enabled:
  assumes "process_inv rqs s" "no_abort rqs" "\<not> aborted s" "i < length rqs"
    and "\<forall>r. waiter (call_of s i) \<noteq> W_Returned r" "waiter (call_of s i) \<noteq> W_Waiting"
    and "\<not> callback_holds (callback (call_of s i))"
  shows "\<exists>t. process_step rqs (By_App i) s t"
proof -
  from waiter_enabled [OF process_invD(1) [OF assms(1,4)] conjunct2 [OF no_abortD [OF assms(2,4)]] assms(5-7), of "shared s"]
  obtain k c where "waiter_step (rqs ! i) (call_of s i, shared s) (k, c)" by blast
  from process_step.app [OF assms(3,4) this refl refl] show ?thesis by blast
qed

text \<open>A sent request that is never answered: its caller waits for a callback that does not come.\<close>

definition unanswered :: "request \<Rightarrow> call \<Rightarrow> bool" where
  "unanswered rq k \<longleftrightarrow> rq_forward rq = 0 \<and> \<not> rq_reply rq \<and> waiter k = W_Waiting \<and> callback k = C_Pending"

lemma process_not_stuck:
  assumes inv: "process_inv rqs s" and ok: "no_abort rqs" "\<not> aborted s" and i: "i < length rqs"
    and w: "\<forall>r. waiter (call_of s i) \<noteq> W_Returned r" and u: "\<not> unanswered (rqs ! i) (call_of s i)"
  shows "\<exists>m t. \<not> is_spurious m \<and> process_step rqs m s t"
proof (cases "progress s")
  case (Some j)
  then have j: "j < length rqs" using inv by (simp add: process_inv_def)
  from process_invD [OF inv j] Some have run: "callback_running (callback (call_of s j))" and cj: "call_inv (rqs ! j) (call_of s j)"
    by simp_all
  show ?thesis
  proof (cases "waiter_holds (waiter (call_of s j))")
    case True
    with cj have "\<not> callback_holds (callback (call_of s j))" by (simp add: call_inv_def)
    with True app_enabled [OF inv ok j] show ?thesis by (cases "waiter (call_of s j)") (auto intro: exI [of _ "By_App j"])
  next
    case False
    with callback_enabled [OF cj conjunct1 [OF no_abortD [OF ok(1) j]], of "shared s"] run
    obtain k c where "callback_step (rqs ! j) (call_of s j, shared s) (k, c)" by (auto simp: callback_running_def)
    from process_step.net [OF ok(2) j _ this refl refl] Some show ?thesis by (auto intro: exI [of _ "By_Net j"])
  qed
next
  case None
  with process_invD [OF inv i] have idle: "\<not> callback_running (callback (call_of s i))"
    and ci: "call_inv (rqs ! i) (call_of s i)" by simp_all
  show ?thesis
  proof (cases "waiter (call_of s i) = W_Waiting")
    case True
    with ci idle have p: "callback (call_of s i) = C_Pending" "rq_forward (rqs ! i) = 0"
      by (cases "callback (call_of s i)"; auto simp: call_inv_def callback_running_def unsent_def)+
    with u True have "rq_reply (rqs ! i)" by (simp add: unanswered_def)
    with p True callback_enabled [OF ci conjunct1 [OF no_abortD [OF ok(1) i]], of "shared s"]
    obtain k c where "callback_step (rqs ! i) (call_of s i, shared s) (k, c)" by auto
    from process_step.net [OF ok(2) i _ this refl refl] p None show ?thesis by (auto intro: exI [of _ "By_Net i"])
  next
    case False
    have "\<not> callback_holds (callback (call_of s i))" using idle by (auto simp: callback_holds_def callback_running_def)
    with app_enabled [OF inv ok i w False] show ?thesis by (auto intro: exI [of _ "By_App i"])
  qed
qed

lemma process_run_cons: "process_run rqs ms u t \<Longrightarrow> process_step rqs m s u \<Longrightarrow> process_run rqs (m # ms) s t"
proof (induction arbitrary: s rule: process_run.induct)
  case (run_nil u)
  from run_snoc [OF process_run.run_nil run_nil] show ?case by simp
next
  case (run_snoc ms u t m' v)
  from process_run.run_snoc [OF run_snoc.IH [OF run_snoc.prems] run_snoc.hyps(2)] show ?case by simp
qed

definition settled_calls :: "request list \<Rightarrow> process \<Rightarrow> bool" where
  "settled_calls rqs s \<longleftrightarrow>
     (\<forall>i < length rqs. (\<exists>r. waiter (call_of s i) = W_Returned r) \<or> unanswered (rqs ! i) (call_of s i))"

text \<open>From every state the process can bring all calls that are answered to their end without spurious wake-ups.\<close>

lemma process_completes:
  assumes "process_inv rqs s" and "no_abort rqs" and "\<not> aborted s"
  shows "\<exists>ms t. process_run rqs ms s t \<and> filter is_spurious ms = [] \<and> settled_calls rqs t"
  using assms
proof (induction "process_rank rqs s" arbitrary: s rule: less_induct)
  case less
  show ?case
  proof (cases "settled_calls rqs s")
    case True
    then show ?thesis by (intro exI [of _ "[]"] exI [of _ s]) (simp add: run_nil)
  next
    case False
    then obtain i where i: "i < length rqs" "\<forall>r. waiter (call_of s i) \<noteq> W_Returned r" "\<not> unanswered (rqs ! i) (call_of s i)"
      by (auto simp: settled_calls_def)
    from process_not_stuck [OF less.prems i] obtain m u where m: "\<not> is_spurious m" "process_step rqs m s u" by blast
    from process_run_not_aborted [OF process_run_cons [OF run_nil m(2)] less.prems(2,3)] have "\<not> aborted u" .
    moreover have "process_rank rqs u < process_rank rqs s"
      using process_step_rank [OF m(2) less.prems(1)] m(1) by simp
    ultimately obtain ms t where "process_run rqs ms u t" "filter is_spurious ms = []" "settled_calls rqs t"
      using less.hyps [of u] process_step_inv [OF m(2) less.prems(1)] less.prems(2) by blast
    with process_run_cons [OF _ m(2)] m(1) show ?thesis by (intro exI [of _ "m # ms"] exI [of _ t]) auto
  qed
qed

lemma answered_returned:
  "settled_calls rqs s \<Longrightarrow> i < length rqs \<Longrightarrow> rq_reply (rqs ! i) \<Longrightarrow> \<exists>r. waiter (call_of s i) = W_Returned r"
  by (auto simp: settled_calls_def unanswered_def)

lemma returned_value:
  assumes "process_inv rqs s" and "i < length rqs" and "waiter (call_of s i) = W_Returned r"
  shows "r = (if rq_forward (rqs ! i) = 0 then rq_value (rqs ! i) else -1)"
    and "rq_forward (rqs ! i) = 0 \<Longrightarrow> rq_reply (rqs ! i)"
  using process_invD(1) [OF assms(1,2)] assms(3) by (auto simp: call_inv_def callback_signalled_def)

section \<open>The shared tables\<close>

definition opens_distinct :: "request list \<Rightarrow> bool" where
  "opens_distinct rqs \<longleftrightarrow>
     (\<forall>i < length rqs. \<forall>fd. rq_op (rqs ! i) = Open_Op fd \<longrightarrow>
        fd_in_range fd \<and> (\<forall>j < length rqs. rq_op (rqs ! j) = Open_Op fd \<longrightarrow> j = i))"



definition ready_mapped :: "client \<Rightarrow> bool" where
  "ready_mapped c \<longleftrightarrow>
     fd_table_wf (fds c) \<and> (\<forall>fd. fd_status_of (fds c) fd = Some HVAC_FD_READY \<longrightarrow> (\<exists>r > 0. fd_redir_map c fd = Some r))"

lemma fd_in_range_id: "fd_in_range fd \<Longrightarrow> int32 fd = fd"
  by (simp add: fd_in_range_def int32_id)





lemma unsent_callback:
  "call_inv rq k \<Longrightarrow> waiter k = W_Start \<or> waiter k = W_Opening \<or> waiter k = W_Forward \<Longrightarrow> callback k = C_Idle"
  by (auto simp: call_inv_def unsent_def)


lemma running_sent:
  "call_inv rq k \<Longrightarrow> callback k \<noteq> C_Idle \<Longrightarrow>
     rq_forward rq = 0 \<and> waiter k \<noteq> W_Start \<and> waiter k \<noteq> W_Opening \<and> waiter k \<noteq> W_Forward"
  by (auto simp: call_inv_def unsent_def)









section \<open>The atomic view of a call\<close>

text \<open>
  What one open alone has done to the tables when its threads are at given positions. At the end
  this is what the sequential generator does at once.
\<close>

definition tables_at :: "request \<Rightarrow> call \<Rightarrow> client \<Rightarrow> client" where
  "tables_at rq k c =
     (if waiter k = W_Start \<or> waiter k = W_Opening then c
      else if waiter k = W_Forward then mark_opening (rq_op rq) c
      else if rq_forward rq \<noteq> 0 then mark_forward_failed (rq_op rq) (mark_opening (rq_op rq) c)
      else if callback k \<in> {C_Idle, C_Pending, C_Store} then mark_opening (rq_op rq) c
      else if callback k = C_Mark then store_remote (rq_op rq) (rq_value rq) (mark_opening (rq_op rq) c)
      else mark_status (rq_op rq) (rq_value rq) (store_remote (rq_op rq) (rq_value rq) (mark_opening (rq_op rq) c)))"

definition alone :: "request \<Rightarrow> client \<Rightarrow> call \<Rightarrow> client \<Rightarrow> bool" where
  "alone rq c0 k c \<longleftrightarrow> c = tables_at rq k c0 \<and> (callback k \<notin> {C_Idle, C_Pending} \<longrightarrow> reply_accepted rq)"

lemma waiter_step_alone:
  assumes "waiter_step rq (k, c) (k', c')" and "call_inv rq k" and "alone rq c0 k c"
  shows "alone rq c0 k' c'"
  using assms(1)
  by cases (insert assms(3) unsent_callback [OF assms(2)], simp_all add: alone_def tables_at_def)

lemma callback_step_alone:
  assumes "callback_step rq (k, c) (k', c')" and "call_inv rq k" and "alone rq c0 k c"
  shows "alone rq c0 k' c'"
  using assms(1)
  by cases (insert assms(3) running_sent [OF assms(2)],
    simp_all add: alone_def tables_at_def wake_all_def del: reply_accepted.simps)

lemma process_run_alone:
  "process_run [rq] ms (process_init c) s \<Longrightarrow> alone rq c (call_of s 0) (shared s) \<and> \<not> overlapped s"
proof (induction ms "process_init c" s rule: process_run.induct)
  case run_nil
  show ?case by (simp add: alone_def tables_at_def process_init_def new_call_def)
next
  case (run_snoc ms s m t)
  have inv: "call_inv rq (call_of s 0)"
    using process_invD(1) [OF process_run_inv [OF run_snoc(1) process_init_inv], of 0] by simp
  have one: "\<not> overlaps [rq] s 0 M" for M by (simp add: overlaps_def)
  from run_snoc(3) show ?case
  proof cases
    case (app i k c1 b c')
    with waiter_step_alone [OF _ inv conjunct1 [OF run_snoc(2)]] run_snoc(2) one show ?thesis by auto
  next
    case (spurious i)
    with run_snoc(2) show ?thesis by (simp add: alone_def tables_at_def)
  next
    case (net i k c1 b c')
    with callback_step_alone [OF _ inv conjunct1 [OF run_snoc(2)]] run_snoc(2) one show ?thesis by auto
  qed (use run_snoc(2) in simp_all)
qed

section \<open>Properties\<close>

text \<open>
  C13: no thread touches an object that is gone. However the application threads and the progress
  thread interleave, the context on the stack of a waiting thread exists whenever its owner or the
  callback uses it, the argument of a callback is allocated when it is read and is freed once, and a
  context is destroyed only when nobody holds or wants its mutex.
\<close>

theorem callbacks_memory_safe:
  assumes "process_run rqs ms (process_init c) s" and "i < length rqs"
  shows "memory_safe (rq_op (rqs ! i)) (call_of s i)"
  using process_invD(1) [OF process_run_inv [OF assms(1) process_init_inv] assms(2)] by (rule call_inv_safe)

text \<open>
  C12: no wake-up is lost, and only a lost reply makes a thread wait for ever. When no assertion stops
  the process, the number of steps is bounded apart from spurious wake-ups; a process with a thread
  that has neither returned nor sent a request that is never answered can always go on; it can reach a state in
  which every thread has returned except those whose request is never answered, which wait; a thread
  returns only if its request could not be sent or was answered, with -1 or with the value its own reply
  carried.
\<close>

theorem generators_return:
  assumes "process_run rqs ms (process_init c) s" and "no_abort rqs"
  shows "length ms \<le> 40 * length rqs + 1 + 3 * length (filter is_spurious ms) \<and>
    (\<not> settled_calls rqs s \<longrightarrow> (\<exists>m t. \<not> is_spurious m \<and> process_step rqs m s t)) \<and>
    (\<exists>ms' t. process_run rqs ms' s t \<and> filter is_spurious ms' = [] \<and>
       (\<forall>i < length rqs. if rq_forward (rqs ! i) = 0 \<and> \<not> rq_reply (rqs ! i) then waiter (call_of t i) = W_Waiting
          else (\<exists>r. waiter (call_of t i) = W_Returned r))) \<and>
    (\<forall>i < length rqs. \<forall>r. waiter (call_of s i) = W_Returned r \<longrightarrow>
       (if rq_forward (rqs ! i) = 0 then rq_reply (rqs ! i) \<and> r = rq_value (rqs ! i) else r = -1))"
proof (intro conjI impI allI)
  note inv = process_run_inv [OF assms(1) process_init_inv]
  have na: "\<not> aborted s" using process_run_not_aborted [OF assms] by (simp add: process_init_def)
  have "process_rank rqs (process_init c) = 40 * length rqs + 1"
    by (simp add: process_rank_def process_init_def new_call_def call_rank_def)
  with process_run_rank [OF assms(1) process_init_inv]
  show "length ms \<le> 40 * length rqs + 1 + 3 * length (filter is_spurious ms)" by simp
  show "\<exists>m t. \<not> is_spurious m \<and> process_step rqs m s t" if "\<not> settled_calls rqs s"
    using that process_not_stuck [OF inv assms(2) na] unfolding settled_calls_def by blast
  from process_completes [OF inv assms(2) na] obtain ms' t where
    t: "process_run rqs ms' s t" "filter is_spurious ms' = []" "settled_calls rqs t" by blast
  note inv' = process_run_inv [OF t(1) inv]
  have "if rq_forward (rqs ! i) = 0 \<and> \<not> rq_reply (rqs ! i) then waiter (call_of t i) = W_Waiting
      else (\<exists>r. waiter (call_of t i) = W_Returned r)" if i: "i < length rqs" for i
    using t(3) i returned_value(2) [OF inv' i] by (auto simp: settled_calls_def unanswered_def)
  with t(1,2) show "\<exists>ms' t. process_run rqs ms' s t \<and> filter is_spurious ms' = [] \<and>
       (\<forall>i < length rqs. if rq_forward (rqs ! i) = 0 \<and> \<not> rq_reply (rqs ! i) then waiter (call_of t i) = W_Waiting
          else (\<exists>r. waiter (call_of t i) = W_Returned r))" by blast
  show "if rq_forward (rqs ! i) = 0 then rq_reply (rqs ! i) \<and> r = rq_value (rqs ! i) else r = -1"
    if "i < length rqs" "waiter (call_of s i) = W_Returned r" for i r
    using returned_value [OF inv that] by auto
qed


text \<open>
  C18: the sequential generator is a correct summary of the threads. When a thread returns from an
  open, whatever the order of its steps and those of the callback, the result and the tables are the
  ones \<open>hvac_client_comm_gen_open_rpc\<close> computes in one piece for the same reply.
\<close>

theorem threaded_open_refines:
  assumes "process_run [rq] ms (process_init c) s" and "rq_op rq = Open_Op fd" and "fd_in_range fd"
    and "waiter (call_of s 0) = W_Returned r"
    and "address_cache c (int32 h) = Some a" and "hg_create E (Some a) = HG_SUCCESS" and "hg_addr_free E (Some a) = HG_SUCCESS"
    and "fwd_open E n (Some a) \<lparr>open_path = p\<rparr> =
      (if rq_forward rq = 0 then Completes (rq_info rq) \<lparr>open_ret_status = rq_value rq\<rparr> else Forward_Error (rq_forward rq), n')"
  shows "hvac_client_comm_gen_open_rpc E h p fd (n, c) = Inr (r, n', shared s)"
proof -
  note inv = process_run_inv [OF assms(1) process_init_inv]
  have r: "r = (if rq_forward rq = 0 then rq_value rq else -1)"
    using returned_value(1) [OF inv _ assms(4)] by simp
  have "rq_forward rq = 0 \<Longrightarrow> callback (call_of s 0) \<in> {C_Free, C_Finished}"
    using process_invD(1) [OF inv, of 0] assms(4) by (simp add: call_inv_def callback_signalled_def)
  with conjunct1 [OF process_run_alone [OF assms(1)]] assms(2,4) have
    "shared s = (if rq_forward rq \<noteq> 0 then mark_forward_failed (Open_Op fd) (mark_opening (Open_Op fd) c)
       else mark_status (Open_Op fd) (rq_value rq) (store_remote (Open_Op fd) (rq_value rq) (mark_opening (Open_Op fd) c)))"
    and "rq_forward rq = 0 \<Longrightarrow> rq_info rq = HG_SUCCESS"
    by (auto simp: alone_def tables_at_def)
  moreover have "lookup_server E h (c\<lparr>fds := t\<rparr>) = Inr (Some a, c\<lparr>fds := t\<rparr>)" for t
    using assms(5) by (simp add: lookup_server_def lookup_addr_cached)
  ultimately show ?thesis
    using assms(6-8) r fd_in_range_id [OF assms(3)]
    by (simp add: hvac_client_comm_gen_open_rpc_def client_ops Let_def)
qed

section \<open>Sample process\<close>

text \<open>An open that is answered, a read that is answered, and an open whose reply is lost.\<close>

definition sample_requests :: "request list" where
  "sample_requests =
     [\<lparr>rq_op = Open_Op 5, rq_forward = 0, rq_reply = True, rq_info = 0, rq_value = 3, rq_cleanup = True\<rparr>,
      \<lparr>rq_op = Read_Op, rq_forward = 0, rq_reply = True, rq_info = 0, rq_value = 2, rq_cleanup = True\<rparr>,
      \<lparr>rq_op = Open_Op 6, rq_forward = 0, rq_reply = False, rq_info = 0, rq_value = 0, rq_cleanup = True\<rparr>]"

lemma sample_requests_ok: "no_abort sample_requests" "opens_distinct sample_requests" "ready_mapped client_initial"
proof -
  show "no_abort sample_requests" by (simp add: no_abort_def sample_requests_def HG_SUCCESS_def)
  have "rq_op (sample_requests ! i) = Open_Op fd \<longleftrightarrow> i = 0 \<and> fd = 5 \<or> i = 2 \<and> fd = 6" if "i < length sample_requests" for i fd
    using that by (auto simp: sample_requests_def less_Suc_eq numeral_2_eq_2)
  then show "opens_distinct sample_requests" by (auto simp: opens_distinct_def fd_in_range_def)
  show "ready_mapped client_initial"
    using fd_table_wf_empty by (simp add: ready_mapped_def client_initial_def fd_status_of_def empty_fd_table_def)
qed

theorem generators_return_witness:
  "\<exists>ms t. process_run sample_requests ms (process_init client_initial) t \<and> waiter (call_of t 0) = W_Returned 3 \<and>
     waiter (call_of t 2) = W_Waiting"
proof -
  from generators_return [OF run_nil sample_requests_ok(1), of client_initial] obtain ms t where
    r: "process_run sample_requests ms (process_init client_initial) t" and
    "\<forall>i < length sample_requests. if rq_forward (sample_requests ! i) = 0 \<and> \<not> rq_reply (sample_requests ! i)
       then waiter (call_of t i) = W_Waiting else (\<exists>r. waiter (call_of t i) = W_Returned r)" by blast
  then obtain v where w: "waiter (call_of t 2) = W_Waiting" "waiter (call_of t 0) = W_Returned v"
    by (force simp: sample_requests_def)
  with conjunct2 [OF conjunct2 [OF conjunct2 [OF generators_return [OF r sample_requests_ok(1)]]]]
  have "v = 3" by (force simp: sample_requests_def)
  with r w show ?thesis by blast
qed

lemma sample_run:
  obtains ms t where "process_run sample_requests ms (process_init client_initial) t" "waiter (call_of t 0) = W_Returned 3"
proof -
  from process_completes [OF process_init_inv sample_requests_ok(1), of client_initial] obtain ms t where
    r: "process_run sample_requests ms (process_init client_initial) t" "settled_calls sample_requests t"
    by (auto simp: process_init_def)
  from answered_returned [OF r(2), of 0] obtain v where v: "waiter (call_of t 0) = W_Returned v"
    by (auto simp: sample_requests_def)
  moreover have "v = 3"
    using returned_value(1) [OF process_run_inv [OF r(1) process_init_inv] _ v] by (simp add: sample_requests_def)
  ultimately show thesis using that r by blast
qed

theorem callbacks_memory_safe_witness:
  "\<exists>ms t. process_run sample_requests ms (process_init client_initial) t \<and> waiter (call_of t 0) = W_Returned 3 \<and>
     memory_safe Read_Op (call_of t 1)"
proof -
  obtain ms t where r: "process_run sample_requests ms (process_init client_initial) t" "waiter (call_of t 0) = W_Returned 3"
    by (rule sample_run)
  with callbacks_memory_safe [OF r(1), of 1] show ?thesis by (auto simp: sample_requests_def)
qed

lemma one_open_run:
  obtains ms s where "process_run [sample_requests ! 0] ms (process_init c) s" "waiter (call_of s 0) = W_Returned 3"
proof -
  let ?rq = "sample_requests ! 0"
  have ok: "no_abort [?rq]" by (simp add: no_abort_def sample_requests_def HG_SUCCESS_def)
  from process_completes [OF process_init_inv ok, of c] obtain ms s where
    r: "process_run [?rq] ms (process_init c) s" "settled_calls [?rq] s" by (auto simp: process_init_def)
  from answered_returned [OF r(2), of 0] obtain v where v: "waiter (call_of s 0) = W_Returned v"
    by (auto simp: sample_requests_def)
  moreover have "v = 3" using returned_value(1) [OF process_run_inv [OF r(1) process_init_inv] _ v] by (simp add: sample_requests_def)
  ultimately show thesis using that r by blast
qed



theorem threaded_open_refines_witness:
  "\<exists>ms s. process_run [sample_requests ! 0] ms (process_init (client_initial\<lparr>address_cache := [0 \<mapsto> ''tcp:a'']\<rparr>)) s \<and>
     hvac_client_comm_gen_open_rpc (sample_env 3 :: unit client_env) 0 ''/data/a'' 5
       ((), client_initial\<lparr>address_cache := [0 \<mapsto> ''tcp:a'']\<rparr>) = Inr (3, (), shared s)"
proof -
  let ?c = "client_initial\<lparr>address_cache := [0 \<mapsto> ''tcp:a'']\<rparr>"
  obtain ms s where r: "process_run [sample_requests ! 0] ms (process_init ?c) s" "waiter (call_of s 0) = W_Returned 3"
    by (rule one_open_run)
  then show ?thesis
    using threaded_open_refines [OF r(1), of 5 3 0 "''tcp:a''" "sample_env 3 :: unit client_env" "()" "''/data/a''" "()"] r(1)
    by (auto simp: sample_requests_def fd_in_range_def int32_id sample_env_def HG_SUCCESS_def)
qed

end
