(* ===== verification/HVAC_Sessions.thy ===== *)
theory HVAC_Sessions
  imports HVAC_Threads
begin

text \<open>
  Application threads that open, read and close files at the same time. Every access of a table of the
  client is a step of its own, in the order of the code, and the steps of the threads interleave freely.
  What keeps them apart is the kernel: a descriptor is tracked after the real open has given it out,
  and forgotten before the real close gives it back (\<open>wrappers.c\<close>), so no two threads ever work on the
  entries of one descriptor.
\<close>

section \<open>Accesses of the tables\<close>

datatype table_access =
    Insert_Path string
  | Mark_Opening
  | Forward_Failed
  | Store_Remote int
  | Mark_Status int
  | Erase_Remote
  | Erase_Status
  | Erase_Path

definition erase_remote :: "int \<Rightarrow> client \<Rightarrow> client" where
  "erase_remote fd c =
     (case fd_redir_map c fd of
        None \<Rightarrow> c
      | Some rfd \<Rightarrow> if rfd = 0 then c else c\<lparr>fd_redir_map := (fd_redir_map c)(fd := None)\<rparr>)"

fun access_table :: "table_access \<Rightarrow> int \<Rightarrow> client \<Rightarrow> client" where
  "access_table (Insert_Path p) fd c = c\<lparr>fd_map := (fd_map c)(fd \<mapsto> p)\<rparr>"
| "access_table Mark_Opening fd c = mark_opening (Open_Op fd) c"
| "access_table Forward_Failed fd c = mark_forward_failed (Open_Op fd) c"
| "access_table (Store_Remote v) fd c = store_remote (Open_Op fd) v c"
| "access_table (Mark_Status v) fd c = mark_status (Open_Op fd) v c"
| "access_table Erase_Remote fd c = erase_remote fd c"
| "access_table Erase_Status fd c = c\<lparr>fds := hvac_cleanup_fd_state fd (fds c)\<rparr>"
| "access_table Erase_Path fd c = c\<lparr>fd_map := (fd_map c)(fd := None)\<rparr>"

text \<open>
  The accesses of \<open>hvac_track_file\<close> with its callback, for a reply with value \<open>v\<close> or none, and of
  \<open>hvac_remove_fd\<close>.
\<close>

datatype file_op = Track string "int option" | Untrack

fun track_accesses :: "string \<Rightarrow> int option \<Rightarrow> table_access list" where
  "track_accesses p (Some v) = [Insert_Path p, Mark_Opening, Store_Remote v, Mark_Status v]"
| "track_accesses p None = [Insert_Path p, Mark_Opening, Forward_Failed]"

definition untrack_accesses :: "table_access list" where
  "untrack_accesses = [Erase_Remote, Erase_Status, Erase_Path]"

fun accesses :: "file_op \<Rightarrow> table_access list" where
  "accesses (Track p r) = track_accesses p r"
| "accesses Untrack = untrack_accesses"

section \<open>Threads on one kernel\<close>

datatype session_pc =
    Idle
  | Opening_Fd int "table_access list"
  | Closing_Fd int "table_access list"

record 'l sessions =
  se_os :: 'l
  se_client :: client
  se_thread :: "nat \<Rightarrow> session_pc"

fun thread_fd :: "session_pc \<Rightarrow> int option" where
  "thread_fd Idle = None"
| "thread_fd (Opening_Fd fd xs) = Some fd"
| "thread_fd (Closing_Fd fd xs) = Some fd"

fun todo :: "session_pc \<Rightarrow> table_access list" where
  "todo Idle = []"
| "todo (Opening_Fd fd xs) = xs"
| "todo (Closing_Fd fd xs) = xs"

text \<open>
  The runs, with the operations on files in the order in which they began. The application closes
  a descriptor it has got from an open and that it is not closing already. A read may extend the address
  cache, and a pread inserts 0 for a descriptor without remote descriptor (\<open>fd_redir_map[fd]\<close>); else they
  only look at the tables.
\<close>

inductive session_run ::
    "'l posix_ops \<Rightarrow> ('l \<Rightarrow> int \<rightharpoonup> (string \<times> nat)) \<Rightarrow> 'n client_env \<Rightarrow> 'l sessions \<Rightarrow> (int \<times> file_op) list \<Rightarrow> 'l sessions \<Rightarrow> bool"
  for ops handle E s0 where
  begin_run: "session_run ops handle E s0 [] s0"
| open_local: "session_run ops handle E s0 bs s \<Longrightarrow> se_thread s t = Idle \<Longrightarrow>
    sys_open ops (se_os s) path O_RDONLY 0 = (fd, os') \<Longrightarrow>
    fd = -1 \<or> track_path E (se_client s) path = None \<or> contains_str ''.ports.cfg.'' path \<Longrightarrow>
    session_run ops handle E s0 bs (s\<lparr>se_os := os'\<rparr>)"
| open_tracked: "session_run ops handle E s0 bs s \<Longrightarrow> se_thread s t = Idle \<Longrightarrow>
    sys_open ops (se_os s) path O_RDONLY 0 = (fd, os') \<Longrightarrow> fd \<noteq> -1 \<Longrightarrow> track_path E (se_client s) path = Some p \<Longrightarrow>
    \<not> contains_str ''.ports.cfg.'' path \<Longrightarrow>
    session_run ops handle E s0 (bs @ [(fd, Track p r)])
      (s\<lparr>se_os := os', se_thread := (se_thread s)(t := Opening_Fd fd (accesses (Track p r)))\<rparr>)"
| open_access: "session_run ops handle E s0 bs s \<Longrightarrow> se_thread s t = Opening_Fd fd (x # xs) \<Longrightarrow>
    session_run ops handle E s0 bs
      (s\<lparr>se_client := access_table x fd (se_client s), se_thread := (se_thread s)(t := Opening_Fd fd xs)\<rparr>)"
| open_returns: "session_run ops handle E s0 bs s \<Longrightarrow> se_thread s t = Opening_Fd fd [] \<Longrightarrow>
    session_run ops handle E s0 bs (s\<lparr>se_thread := (se_thread s)(t := Idle)\<rparr>)"
| read_tables: "session_run ops handle E s0 bs s \<Longrightarrow>
    session_run ops handle E s0 bs (s\<lparr>se_client := (se_client s)\<lparr>address_cache := cache\<rparr>\<rparr>)"
| pread_inserts: "session_run ops handle E s0 bs s \<Longrightarrow>
    session_run ops handle E s0 bs
      (s\<lparr>se_client := (se_client s)\<lparr>fd_redir_map := index_insert 0 (fd_redir_map (se_client s)) fd\<rparr>\<rparr>)"
| close_begins: "session_run ops handle E s0 bs s \<Longrightarrow> se_thread s t = Idle \<Longrightarrow> handle (se_os s) fd \<noteq> None \<Longrightarrow>
    (\<And>u. thread_fd (se_thread s u) \<noteq> Some fd) \<Longrightarrow> fd_in_range fd \<Longrightarrow>
    session_run ops handle E s0 (if fd_map (se_client s) fd = None then bs else bs @ [(fd, Untrack)])
      (s\<lparr>se_thread := (se_thread s)(t := Closing_Fd fd (if fd_map (se_client s) fd = None then [] else accesses Untrack))\<rparr>)"
| close_access: "session_run ops handle E s0 bs s \<Longrightarrow> se_thread s t = Closing_Fd fd (x # xs) \<Longrightarrow>
    session_run ops handle E s0 bs
      (s\<lparr>se_client := access_table x fd (se_client s), se_thread := (se_thread s)(t := Closing_Fd fd xs)\<rparr>)"
| close_returns: "session_run ops handle E s0 bs s \<Longrightarrow> se_thread s t = Closing_Fd fd [] \<Longrightarrow>
    sys_close ops (se_os s) fd = (k, os') \<Longrightarrow>
    session_run ops handle E s0 bs (s\<lparr>se_os := os', se_thread := (se_thread s)(t := Idle)\<rparr>)"

text \<open>The same operations one after the other, each by the function of the library.\<close>

inductive serial_run :: "'n client_env \<Rightarrow> 'n \<times> client \<Rightarrow> (int \<times> file_op) list \<Rightarrow> 'n \<times> client \<Rightarrow> bool" for E x where
  serial_nil: "serial_run E x [] x"
| serial_track: "serial_run E x bs (n, c) \<Longrightarrow> hvac_track_file E path O_RDONLY fd (n, c) = Inr (b, n', c') \<Longrightarrow>
    track_path E c path = Some p \<Longrightarrow> \<not> contains_str ''.ports.cfg.'' path \<Longrightarrow> fd_in_range fd \<Longrightarrow>
    fd_status_of (fds c') fd = Some (case r of Some v \<Rightarrow> if 0 < v then HVAC_FD_READY else HVAC_FD_ERROR | None \<Rightarrow> HVAC_FD_ERROR) \<Longrightarrow>
    (\<And>v. r = Some v \<Longrightarrow> 0 < v \<Longrightarrow> fd_redir_map c' fd = Some v) \<Longrightarrow>
    serial_run E x (bs @ [(fd, Track p r)]) (n', c')"
| serial_untrack: "serial_run E x bs (n, c) \<Longrightarrow> hvac_remove_fd E fd (n, c) = Inr (b, n', c') \<Longrightarrow> fd_map c fd \<noteq> None \<Longrightarrow>
    serial_run E x (bs @ [(fd, Untrack)]) (n', c')"

text \<open>A thread can always finish what it has begun.\<close>

lemma open_completes:
  assumes "session_run ops handle E s0 bs s" and "se_thread s t = Opening_Fd fd xs"
  shows "\<exists>s'. session_run ops handle E s0 bs s' \<and> se_thread s' = (se_thread s)(t := Idle) \<and> se_os s' = se_os s"
  using assms
proof (induction xs arbitrary: s)
  case Nil
  from session_run.open_returns [OF this] show ?case
    by (intro exI [of _ "s\<lparr>se_thread := (se_thread s)(t := Idle)\<rparr>"]) simp
next
  case (Cons x xs)
  from Cons.IH [OF open_access [OF Cons.prems]] show ?case by (simp del: fun_upd_apply add: fun_upd_same)
qed

lemma close_completes:
  assumes "session_run ops handle E s0 bs s" and "se_thread s t = Closing_Fd fd xs"
  shows "\<exists>s'. session_run ops handle E s0 bs s' \<and> se_thread s' = (se_thread s)(t := Idle)"
  using assms
proof (induction xs arbitrary: s)
  case Nil
  obtain k os' where "sys_close ops (se_os s) fd = (k, os')" by (metis surj_pair)
  from session_run.close_returns [OF Nil this] show ?case
    by (intro exI [of _ "s\<lparr>se_os := os', se_thread := (se_thread s)(t := Idle)\<rparr>"]) simp
next
  case (Cons x xs)
  from Cons.IH [OF close_access [OF Cons.prems]] show ?case by (simp del: fun_upd_apply add: fun_upd_same)
qed

section \<open>The entries of one descriptor\<close>

text \<open>No remote descriptor and the remote descriptor 0 are the same to the code.\<close>

type_synonym fd_entries = "string option \<times> int \<times> hvac_fd_state option"

definition entries :: "client \<Rightarrow> int \<Rightarrow> fd_entries" where
  "entries c fd = (fd_map c fd, index_value 0 (fd_redir_map c) fd, fd_status_of (fds c) fd)"

fun local_access :: "table_access \<Rightarrow> fd_entries \<Rightarrow> fd_entries" where
  "local_access (Insert_Path p) (m, r, st) = (Some p, r, st)"
| "local_access Mark_Opening (m, r, st) = (m, r, Some HVAC_FD_OPENING)"
| "local_access Forward_Failed (m, r, st) = (m, r, if st = None then None else Some HVAC_FD_ERROR)"
| "local_access (Store_Remote v) (m, r, st) = (m, if 0 < v then v else r, st)"
| "local_access (Mark_Status v) (m, r, st) =
     (m, r, if st = None then None else Some (if 0 < v then HVAC_FD_READY else HVAC_FD_ERROR))"
| "local_access Erase_Remote (m, r, st) = (m, 0, st)"
| "local_access Erase_Status (m, r, st) = (m, r, None)"
| "local_access Erase_Path (m, r, st) = (None, r, st)"

definition whole_op :: "file_op \<Rightarrow> fd_entries \<Rightarrow> fd_entries" where
  "whole_op oper = fold local_access (accesses oper)"

definition ops_of :: "int \<Rightarrow> (int \<times> file_op) list \<Rightarrow> file_op list" where
  "ops_of fd bs = map snd (filter (\<lambda>b. fst b = fd) bs)"

text \<open>An access changes the entries of its own descriptor, and by its local effect.\<close>

lemma access_table_local:
  assumes "fd_table_wf (fds c)" and "fd_in_range fd"
  shows "fd_table_wf (fds (access_table x fd c))"
    and "entries (access_table x fd c) y = (if y = fd then local_access x (entries c y) else entries c y)"
proof -
  note S = ft.status_specs [OF assms(1)]
  show "fd_table_wf (fds (access_table x fd c))"
    using assms(1) S(5-8) by (cases x) (auto simp: erase_remote_def split: option.split)
  show "entries (access_table x fd c) y = (if y = fd then local_access x (entries c y) else entries c y)"
    using S(1-4) fd_in_range_id [OF assms(2)] by (cases x) (auto simp: entries_def erase_remote_def index_value_def split: option.split)
qed

lemma index_value_insert: "index_value d (index_insert d m k) x = index_value d m x"
  by (auto simp: index_value_def index_insert_def split: option.split)

lemma ops_of_snoc: "ops_of y (bs @ [(fd, oper)]) = (if y = fd then ops_of y bs @ [oper] else ops_of y bs)"
  by (simp add: ops_of_def)

lemma client_inv_entries:
  assumes "fd_table_wf (fds c)" and "\<And>y. entries c y = entries c' y" and "client_inv c'"
  shows "client_inv c"
proof -
  have e: "fd_map c y = fd_map c' y" "index_value 0 (fd_redir_map c) y = index_value 0 (fd_redir_map c') y" "fd_status_of (fds c) y = fd_status_of (fds c') y" for y
    using assms(2) [of y] by (simp_all add: entries_def)
  note I = client_invD [OF assms(3)]
  show ?thesis
  proof (rule client_invI [OF assms(1)])
    show "st \<noteq> HVAC_FD_OPENING \<and> fd_map c y \<noteq> None" if "fd_status_of (fds c) y = Some st" for y st
      using I(2) that by (simp add: e(1,3))
    show "\<exists>r > 0. fd_redir_map c y = Some r" if "fd_status_of (fds c) y = Some HVAC_FD_READY" for y
      using I(3) [of y] that e(2) [of y] by (cases "fd_redir_map c y") (auto simp: e(3))
    show "0 \<le> r \<and> (r = 0 \<or> fd_map c y \<noteq> None)" if "fd_redir_map c y = Some r" for y r
      using I(4) [of y] that e(2) [of y] by (cases "fd_redir_map c' y") (auto simp: e(1))
  qed
qed

section \<open>One operation at a time\<close>

lemma serial_entries:
  assumes "serial_run E x bs y" and "client_inv (snd x)"
  shows "client_inv (snd y) \<and> (\<forall>fd. entries (snd y) fd = fold whole_op (ops_of fd bs) (entries (snd x) fd))"
  using assms
proof (induction rule: serial_run.induct)
  case serial_nil
  then show ?case by (simp add: ops_of_def)
next
  case (serial_track bs n c path fd b n' c' p r)
  then have inv: "client_inv c" and IH: "\<And>y. entries c y = fold whole_op (ops_of y bs) (entries (snd x) y)" by auto
  have g: "and O_RDONLY O_ACCMODE \<noteq> O_WRONLY" "and O_RDONLY O_APPEND = 0"
    by (simp_all add: O_RDONLY_def O_WRONLY_def)
  from track_file_tracked [OF serial_track(2,3,4) g] obtain host c1 v e m where
    c1: "c1 = c\<lparr>fd_map := (fd_map c)(fd \<mapsto> p), cl_engine := e, g_mercury_init := m\<rparr>"
    and o: "hvac_client_comm_gen_open_rpc E host p fd (n, c1) = Inr (v, n', c')" by metis
  note S = ft.open_succeeds [OF client_invD(1) [OF inv]] ft.open_fails [OF client_invD(1) [OF inv]]
  have "entries c' y = (if y = fd then whole_op (Track p r) (entries c y) else entries c y)" for y
    using gen_open_result [OF o serial_track(5)] serial_track(6,7) S
    by (cases r) (auto simp: entries_def whole_op_def c1 index_value_def split: if_splits)
  with IH track_file_inv [OF inv serial_track(2,5)] show ?case by (simp add: ops_of_snoc)
next
  case (serial_untrack bs n c fd b n' c')
  then have inv: "client_inv c" and IH: "\<And>y. entries c y = fold whole_op (ops_of y bs) (entries (snd x) y)" by auto
  from remove_fd_result [OF serial_untrack(2,3)] have
    "entries c' y = (if y = fd then whole_op Untrack (entries c y) else entries c y)" for y
    using ft.status_cleanup [OF client_invD(1) [OF inv]] by (auto simp: entries_def whole_op_def untrack_accesses_def index_value_def)
  with IH remove_fd_inv [OF inv serial_untrack(2)] show ?case by (simp add: ops_of_snoc)
qed

section \<open>The invariant of the threads\<close>

text \<open>
  A thread that is inside an open or a close has the descriptor for itself, the kernel has it open,
  and what is left of its accesses completes the operations begun on it. A descriptor nobody works
  on has the entries its operations leave.
\<close>

definition session_inv ::
    "('l \<Rightarrow> int \<rightharpoonup> (string \<times> nat)) \<Rightarrow> client \<Rightarrow> (int \<times> file_op) list \<Rightarrow> 'l sessions \<Rightarrow> bool" where
  "session_inv handle c0 bs s \<longleftrightarrow> fd_table_wf (fds (se_client s)) \<and>
     (\<forall>t fd. thread_fd (se_thread s t) = Some fd \<longrightarrow> handle (se_os s) fd \<noteq> None \<and> fd_in_range fd \<and>
        fold local_access (todo (se_thread s t)) (entries (se_client s) fd) = fold whole_op (ops_of fd bs) (entries c0 fd)) \<and>
     (\<forall>t u fd. thread_fd (se_thread s t) = Some fd \<longrightarrow> thread_fd (se_thread s u) = Some fd \<longrightarrow> t = u) \<and>
     (\<forall>fd. (\<forall>t. thread_fd (se_thread s t) \<noteq> Some fd) \<longrightarrow>
        entries (se_client s) fd = fold whole_op (ops_of fd bs) (entries c0 fd))"

lemma session_invD:
  assumes "session_inv handle c0 bs s"
  shows "fd_table_wf (fds (se_client s))"
    and "thread_fd (se_thread s t) = Some fd \<Longrightarrow> handle (se_os s) fd \<noteq> None \<and> fd_in_range fd \<and>
        fold local_access (todo (se_thread s t)) (entries (se_client s) fd) = fold whole_op (ops_of fd bs) (entries c0 fd)"
    and "thread_fd (se_thread s t) = Some fd \<Longrightarrow> thread_fd (se_thread s u) = Some fd \<Longrightarrow> t = u"
    and "(\<And>t. thread_fd (se_thread s t) \<noteq> Some fd) \<Longrightarrow> entries (se_client s) fd = fold whole_op (ops_of fd bs) (entries c0 fd)"
  using assms unfolding session_inv_def by blast+

text \<open>The step of thread \<open>t\<close>: what it must provide for its own descriptor and for those it leaves.\<close>

lemma session_inv_upd:
  assumes inv: "session_inv handle c0 bs s"
    and wf: "fd_table_wf (fds c)" and th: "se_thread s' = (se_thread s)(t := pc)" "se_client s' = c"
    and os: "\<And>u fd. u \<noteq> t \<Longrightarrow> thread_fd (se_thread s u) = Some fd \<Longrightarrow> handle (se_os s') fd \<noteq> None"
    and own: "\<And>fd. thread_fd pc = Some fd \<Longrightarrow> handle (se_os s') fd \<noteq> None \<and> fd_in_range fd \<and>
        fold local_access (todo pc) (entries c fd) = fold whole_op (ops_of fd bs') (entries c0 fd)"
    and alone: "\<And>fd u. thread_fd pc = Some fd \<Longrightarrow> u \<noteq> t \<Longrightarrow> thread_fd (se_thread s u) \<noteq> Some fd"
    and left: "\<And>fd. thread_fd (se_thread s t) = Some fd \<Longrightarrow> thread_fd pc \<noteq> Some fd \<Longrightarrow>
        entries c fd = fold whole_op (ops_of fd bs') (entries c0 fd)"
    and others: "\<And>fd. thread_fd (se_thread s t) \<noteq> Some fd \<Longrightarrow> thread_fd pc \<noteq> Some fd \<Longrightarrow>
        entries c fd = entries (se_client s) fd \<and> ops_of fd bs' = ops_of fd bs"
  shows "session_inv handle c0 bs' s'"
  unfolding session_inv_def
proof (intro conjI allI impI)
  note D = session_invD [OF inv]
  show "fd_table_wf (fds (se_client s'))" using wf th by simp
  fix u fd assume u: "thread_fd (se_thread s' u) = Some fd"
  have o: "entries c fd = entries (se_client s) fd \<and> ops_of fd bs' = ops_of fd bs" if "u \<noteq> t"
    using that u D(3) [of u fd t] alone [of fd u] others [of fd] th by auto
  show "handle (se_os s') fd \<noteq> None" "fd_in_range fd"
    "fold local_access (todo (se_thread s' u)) (entries (se_client s') fd) = fold whole_op (ops_of fd bs') (entries c0 fd)"
    using u own [of fd] D(2) [of u fd] o os [of u fd] th by (cases "u = t"; simp)+
next
  fix u v fd assume uv: "thread_fd (se_thread s' u) = Some fd" "thread_fd (se_thread s' v) = Some fd"
  then show "u = v"
    using alone session_invD(3) [OF inv, of u fd v] th by (cases "u = t"; cases "v = t") auto
next
  fix fd assume n: "\<forall>u. thread_fd (se_thread s' u) \<noteq> Some fd"
  from spec [OF n, of t] have pc: "thread_fd pc \<noteq> Some fd" using th by simp
  show "entries (se_client s') fd = fold whole_op (ops_of fd bs') (entries c0 fd)"
  proof (cases "thread_fd (se_thread s t) = Some fd")
    case True
    with left pc th show ?thesis by simp
  next
    case False
    have "thread_fd (se_thread s u) \<noteq> Some fd" for u using spec [OF n, of u] False th by (cases "u = t") simp_all
    with session_invD(4) [OF inv] others [OF False pc] th show ?thesis by simp
  qed
qed

context posix_files
begin

lemma session_run_inv:
  assumes "session_run ops handle E s0 bs s" and "fd_table_wf (fds (se_client s0))" and "\<And>t. se_thread s0 t = Idle"
  shows "session_inv handle (se_client s0) bs s"
  using assms(1)
proof (induction rule: session_run.induct)
  case begin_run
  with assms(2,3) show ?case by (simp add: session_inv_def ops_of_def)
next
  case (open_local bs s t path fd os')
  have h: "handle os' x \<noteq> None" if "handle (se_os s) x \<noteq> None" for x
    using open_fd [OF open_local(3)] open_error [of "se_os s" path 0 os'] open_local(3) that by (cases "fd = -1") auto
  have "session_inv handle (se_client s0) bs (s\<lparr>se_os := os'\<rparr>)"
    using open_local(2) session_invD [OF open_local.IH] h
    by (intro session_inv_upd [where t = t and pc = "se_thread s t" and c = "se_client s", OF open_local.IH]) auto
  then show ?case .
next
  case (open_tracked bs s t path fd os' p r)
  note D = session_invD [OF open_tracked.IH]
  from open_fd [OF open_tracked(3,4)] have f: "handle (se_os s) fd = None" "handle os' = (handle (se_os s))(fd \<mapsto> (path, 0))" "fd_in_range fd"
    by (auto simp: fd_in_range_def)
  with D(2) have free: "thread_fd (se_thread s u) \<noteq> Some fd" for u by blast
  show ?case
    by (rule session_inv_upd [where t = t and pc = "Opening_Fd fd (accesses (Track p r))" and c = "se_client s", OF open_tracked.IH D(1)])
      (use D(2) D(4) [OF free] f free open_tracked(2) in \<open>auto simp: ops_of_snoc whole_op_def\<close>)
next
  case (open_access bs s t fd x xs)
  note D = session_invD [OF open_access.IH]
  from D(2) [of t fd] open_access(2) have r: "fd_in_range fd" by simp
  note A = access_table_local [OF D(1) r]
  show ?case
    by (rule session_inv_upd [where t = t and pc = "Opening_Fd fd xs" and c = "access_table x fd (se_client s)", OF open_access.IH A(1)])
      (use D(2) [of t fd] D(2) D(3) [of t fd] open_access(2) in \<open>auto simp: A(2)\<close>)
next
  case (open_returns bs s t fd)
  note D = session_invD [OF open_returns.IH]
  show ?case
    by (rule session_inv_upd [where t = t and pc = Idle and c = "se_client s", OF open_returns.IH D(1)])
      (use D(2) [of t fd] D(2) open_returns(2) in auto)
next
  case (read_tables bs s cache)
  have e: "entries ((se_client s)\<lparr>address_cache := cache\<rparr>) y = entries (se_client s) y" for y by (simp add: entries_def)
  from read_tables.IH show ?case by (simp add: session_inv_def e)
next
  case (pread_inserts bs s fd)
  have e: "entries ((se_client s)\<lparr>fd_redir_map := index_insert 0 (fd_redir_map (se_client s)) fd\<rparr>) y = entries (se_client s) y" for y
    by (simp add: entries_def index_value_insert)
  from pread_inserts.IH show ?case by (simp add: session_inv_def e)
next
  case (close_begins bs s t fd)
  note D = session_invD [OF close_begins.IH]
  let ?no = "fd_map (se_client s) fd = None"
  show ?case
    by (rule session_inv_upd [where t = t and c = "se_client s"
          and pc = "Closing_Fd fd (if ?no then [] else accesses Untrack)", OF close_begins.IH D(1)])
      (use D(2) D(4) [OF close_begins(4)] close_begins(2-5) in \<open>auto simp: ops_of_snoc whole_op_def\<close>)
next
  case (close_access bs s t fd x xs)
  note D = session_invD [OF close_access.IH]
  from D(2) [of t fd] close_access(2) have r: "fd_in_range fd" by simp
  note A = access_table_local [OF D(1) r]
  show ?case
    by (rule session_inv_upd [where t = t and pc = "Closing_Fd fd xs" and c = "access_table x fd (se_client s)", OF close_access.IH A(1)])
      (use D(2) [of t fd] D(2) D(3) [of t fd] close_access(2) in \<open>auto simp: A(2)\<close>)
next
  case (close_returns bs s t fd k os')
  note D = session_invD [OF close_returns.IH]
  from D(2) [of t fd] close_returns(2) obtain h where "handle (se_os s) fd = Some h" by auto
  from close_ok [OF this] close_returns(3) have h: "handle os' = (handle (se_os s))(fd := None)" by auto
  have other: "x \<noteq> fd" if "u \<noteq> t" "thread_fd (se_thread s u) = Some x" for u x
    using D(3) [of t fd u] that close_returns(2) by auto
  show ?case
    by (rule session_inv_upd [where t = t and pc = Idle and c = "se_client s", OF close_returns.IH D(1)])
      (use D(2) [of t fd] D(2) close_returns(2) h other in auto)
qed

end

section \<open>Properties\<close>

text \<open>
  Calls of several threads can be put one after the other. In every interleaving of opens, reads
  and closes no two threads work on the same descriptor, and a descriptor that nobody works on has in
  every table the entries it would have if the functions of the library had run one after the other in
  the order in which they began, with the same replies; when all threads are out of the library its
  tables are consistent.
\<close>

theorem concurrent_calls_serializable:
  assumes "posix_files ops content handle" and "session_run ops handle E s0 bs s" and "\<And>t. se_thread s0 t = Idle"
    and "client_inv (se_client s0)" and "serial_run F (n, se_client s0) bs (n', c)"
  shows "(\<forall>t u fd. thread_fd (se_thread s t) = Some fd \<and> thread_fd (se_thread s u) = Some fd \<longrightarrow> t = u) \<and>
    (\<forall>fd. (\<forall>t. thread_fd (se_thread s t) \<noteq> Some fd) \<longrightarrow>
       fd_map (se_client s) fd = fd_map c fd \<and>
       index_value 0 (fd_redir_map (se_client s)) fd = index_value 0 (fd_redir_map c) fd \<and>
       fd_status_of (fds (se_client s)) fd = fd_status_of (fds c) fd) \<and>
    ((\<forall>t. se_thread s t = Idle) \<longrightarrow> client_inv (se_client s))"
proof -
  have inv: "session_inv handle (se_client s0) bs s"
    using posix_files.session_run_inv [OF assms(1,2) client_invD(1) [OF assms(4)] assms(3)] .
  note D = session_invD [OF inv]
  from serial_entries [OF assms(5)] assms(4) have ser: "client_inv c"
    "\<And>fd. entries c fd = fold whole_op (ops_of fd bs) (entries (se_client s0) fd)" by simp_all
  have E: "entries (se_client s) fd = entries c fd" if "\<And>t. thread_fd (se_thread s t) \<noteq> Some fd" for fd
    using D(4) [OF that] ser(2) by simp
  have "client_inv (se_client s)" if idle: "\<forall>t. se_thread s t = Idle"
    by (rule client_inv_entries [OF D(1) E ser(1)]) (simp add: idle)
  with D(3) E show ?thesis unfolding entries_def by blast
qed

section \<open>Sample threads\<close>

definition sample_sessions :: "linux sessions" where
  "sample_sessions = \<lparr>se_os = sample_os\<lparr>fdt := [3 \<mapsto> (''/data/a'', 0), 4 \<mapsto> (''/data/a'', 0)]\<rparr>, se_client = sample_client,
     se_thread = (\<lambda>t. Idle)\<rparr>"

text \<open>Thread 0 opens a file of the data set while thread 1 closes a file that is not tracked.\<close>

lemma sample_session_run:
  obtains s where "session_run linux_ops fdt (sample_env 3 :: unit client_env) sample_sessions [(5, Track ''/data/a'' (Some 3))] s"
    and "\<And>t. se_thread s t = Idle"
proof -
  let ?run = "session_run linux_ops fdt (sample_env 3 :: unit client_env) sample_sessions"
  have p: "track_path (sample_env 3 :: unit client_env) sample_client ''/data/a'' = Some ''/data/a''"
    by (rule sample_track_path) (simp add: sample_path)
  have c: "\<not> contains_str ''.ports.cfg.'' ''/data/a''" by code_simp
  have m: "fd_map sample_client = Map.empty" by (simp add: sample_client_def client_initial_def)
  have "free_fd (sample_os\<lparr>fdt := [3 \<mapsto> (''/data/a'', 0), 4 \<mapsto> (''/data/a'', 0)]\<rparr>) = Some 5"
    by (simp add: free_fd_def sample_os_def upt_rec)
  then obtain os1 where o: "sys_open linux_ops (se_os sample_sessions) ''/data/a'' O_RDONLY 0 = (5, os1)"
      "fdt os1 = [3 \<mapsto> (''/data/a'', 0), 4 \<mapsto> (''/data/a'', 0), 5 \<mapsto> (''/data/a'', 0)]"
    by (simp add: sample_sessions_def linux_ops_def linux_open_def O_RDONLY_def) (simp add: sample_os_def)
  let ?s1 = "sample_sessions\<lparr>se_os := os1, se_thread := (\<lambda>t. Idle)(0 := Opening_Fd 5 (track_accesses ''/data/a'' (Some 3)))\<rparr>"
  have r1: "?run ([] @ [(5, Track ''/data/a'' (Some 3))]) ?s1"
    using open_tracked [OF begin_run, where t = 0 and path = "''/data/a''", OF _ o(1), where p = "''/data/a''" and r = "Some 3"] p c
    by (simp add: sample_sessions_def)
  have f: "fd_map (se_client ?s1) 4 = None" "fdt (se_os ?s1) 4 \<noteq> None" "se_thread ?s1 1 = Idle" "fd_in_range 4"
    "thread_fd (se_thread ?s1 u) \<noteq> Some 4" for u
    by (simp_all add: sample_sessions_def m o(2) fd_in_range_def)
  let ?s2 = "?s1\<lparr>se_thread := (se_thread ?s1)(1 := Closing_Fd 4 [])\<rparr>"
  have r2: "?run [(5, Track ''/data/a'' (Some 3))] ?s2"
    using close_begins [OF r1 f(3,2,5,4)] unfolding f(1) by simp
  from open_completes [OF r2, of 0] obtain s3 where r3: "?run [(5, Track ''/data/a'' (Some 3))] s3"
    "se_thread s3 = (se_thread ?s2)(0 := Idle)" by auto
  from close_completes [OF r3(1), of 1 4 "[]"] r3(2) obtain s4 where r4: "?run [(5, Track ''/data/a'' (Some 3))] s4"
    "se_thread s4 = (se_thread s3)(1 := Idle)" by auto
  have "se_thread s4 t = Idle" for t by (simp add: r4(2) r3(2))
  with that r4(1) show thesis by blast
qed

theorem concurrent_calls_serializable_witness:
  "\<exists>s. session_run linux_ops fdt (sample_env 3 :: unit client_env) sample_sessions [(5, Track ''/data/a'' (Some 3))] s \<and>
     fd_map (se_client s) 5 = Some ''/data/a'' \<and> index_value 0 (fd_redir_map (se_client s)) 5 = 3 \<and>
     fd_status_of (fds (se_client s)) 5 = Some HVAC_FD_READY \<and> client_inv (se_client s)"
proof -
  obtain s where r: "session_run linux_ops fdt (sample_env 3 :: unit client_env) sample_sessions [(5, Track ''/data/a'' (Some 3))] s"
    and idle: "\<And>t. se_thread s t = Idle" by (rule sample_session_run) blast
  have i: "se_thread sample_sessions t = Idle" "client_inv (se_client sample_sessions)" for t
    by (simp_all add: sample_sessions_def sample_client_inv)
  have t: "fd_map (sample_tracked ''/data/a'' 3) 5 = Some ''/data/a''" "fd_redir_map (sample_tracked ''/data/a'' 3) 5 = Some 3"
    "fd_status_of (fds (sample_tracked ''/data/a'' 3)) 5 = Some HVAC_FD_READY"
    using ft.open_succeeds [OF fd_table_wf_empty, of 5] by (simp_all add: sample_tracked_def)
  have c: "\<not> contains_str ''.ports.cfg.'' ''/data/a''" by code_simp
  have "serial_run (sample_env 3) ((), sample_client) ([] @ [(5, Track ''/data/a'' (Some 3))]) ((), sample_tracked ''/data/a'' 3)"
    by (rule serial_track [OF serial_nil sample_track_data])
      (use t c in \<open>simp_all add: sample_track_path sample_path fd_in_range_def\<close>)
  then have "serial_run (sample_env 3) ((), se_client sample_sessions) [(5, Track ''/data/a'' (Some 3))] ((), sample_tracked ''/data/a'' 3)"
    by (simp add: sample_sessions_def)
  from concurrent_calls_serializable [OF lx.posix_files_axioms r i this] t idle r show ?thesis by (intro exI [of _ s]) simp
qed

end
