(* ===== verification/HVAC_Wire.thy ===== *)
theory HVAC_Wire
  imports HVAC_Client
begin

text \<open>
  What the client puts on the wire. \<open>mthvac_comm.h\<close> declares the messages with fixed integer
  widths; the C++ code fills them from variables of other types and from the tables. The network of
  a client environment is extended by a record of every message handed to \<open>HG_Forward\<close>, and the
  messages of a whole run are shown to fit their declared types.
\<close>

section \<open>Messages and their types\<close>

datatype message =
    Open_Message hvac_open_in_t
  | Read_Message hvac_rpc_in_t
  | Seek_Message hvac_seek_in_t
  | Close_Message hvac_close_in_t
  | Stats_Message hvac_rpc_trigger_srv_print_stats_in_t

definition is_int32 :: "int \<Rightarrow> bool" where "is_int32 x = (int32 x = x)"
definition is_int64 :: "int \<Rightarrow> bool" where "is_int64 x = (int64 x = x)"
definition is_uint64 :: "int \<Rightarrow> bool" where "is_uint64 x = (uint64 x = x)"

text \<open>A \<open>hg_string_t\<close> ends at its first zero character.\<close>

definition is_c_string :: "string \<Rightarrow> bool" where "is_c_string s = (CHR 0x00 \<notin> set s)"

fun wire_typed :: "message \<Rightarrow> bool" where
  "wire_typed (Open_Message i) = is_c_string (open_path i)"
| "wire_typed (Read_Message i) =
     (is_int32 (input_val i) \<and> is_uint64 (bulk_size i) \<and> is_int32 (accessfd i) \<and> is_int64 (rpc_offset i))"
| "wire_typed (Seek_Message i) = (is_int32 (seek_fd i) \<and> is_int32 (seek_offset i) \<and> is_int32 (seek_whence i))"
| "wire_typed (Close_Message i) = is_int32 (close_fd i)"
| "wire_typed (Stats_Message i) = is_int32 (dummy_arg i)"

text \<open>Reads and closes name a descriptor some server has given out.\<close>

fun names_descriptor :: "message \<Rightarrow> bool" where
  "names_descriptor (Read_Message i) = (0 < accessfd i)"
| "names_descriptor (Close_Message i) = (0 < close_fd i)"
| "names_descriptor (Seek_Message i) = (0 \<le> seek_fd i)"
| "names_descriptor m = True"

definition message_ok :: "message \<Rightarrow> bool" where
  "message_ok m \<longleftrightarrow> wire_typed m \<and> names_descriptor m"

section \<open>Recording the messages\<close>

definition recorded :: "('n \<Rightarrow> 'a \<Rightarrow> 'i \<Rightarrow> 'd \<times> 'n) \<Rightarrow> ('i \<Rightarrow> message) \<Rightarrow>
    'n \<times> message list \<Rightarrow> 'a \<Rightarrow> 'i \<Rightarrow> 'd \<times> ('n \<times> message list)" where
  "recorded f m = (\<lambda>(n, l) a i. case f n a i of (d, n') \<Rightarrow> (d, (n', l @ [m i])))"

definition recording :: "'n client_env \<Rightarrow> ('n \<times> message list) client_env" where
  "recording E =
     \<lparr>cl_getenv = cl_getenv E, cl_files = cl_files E, cl_engine_env = cl_engine_env E, std_hash = std_hash E,
      canonical = canonical E, current_path = current_path E, hg_create = hg_create E, hg_addr_free = hg_addr_free E,
      cl_get_info = cl_get_info E, cl_bulk_create = cl_bulk_create E, cb_cleanup_ok = cb_cleanup_ok E,
      fwd_open = recorded (fwd_open E) Open_Message, fwd_read = recorded (fwd_read E) Read_Message,
      fwd_seek = recorded (fwd_seek E) Seek_Message, fwd_close = recorded (fwd_close E) Close_Message,
      fwd_stats = recorded (fwd_stats E) Stats_Message\<rparr>"

lemma recording_fields [simp]:
  "canonical (recording E) = canonical E" "current_path (recording E) = current_path E"
  "cl_getenv (recording E) = cl_getenv E" "cl_files (recording E) = cl_files E"
  "cl_engine_env (recording E) = cl_engine_env E" "std_hash (recording E) = std_hash E"
  "fwd_open (recording E) = recorded (fwd_open E) Open_Message"
  "fwd_read (recording E) = recorded (fwd_read E) Read_Message"
  "fwd_seek (recording E) = recorded (fwd_seek E) Seek_Message"
  "fwd_close (recording E) = recorded (fwd_close E) Close_Message"
  "fwd_stats (recording E) = recorded (fwd_stats E) Stats_Message"
  by (simp_all add: recording_def)

lemma track_path_recording [simp]: "track_path (recording E) = track_path E"
  by (intro ext) (simp add: track_path_def cong: option.case_cong)

text \<open>Decoding a reply gives values of the declared widths, and the resolved name of a C string is one.\<close>

definition env_typed :: "'n client_env \<Rightarrow> bool" where
  "env_typed E \<longleftrightarrow>
     (\<forall>n a i info out n'. fwd_open E n a i = (Completes info out, n') \<longrightarrow> is_int32 (open_ret_status out)) \<and>
     (\<forall>p q. is_c_string p \<longrightarrow> canonical E p = Some q \<longrightarrow> is_c_string q)"

section \<open>Calls with typed arguments\<close>

text \<open>
  The calls of the library with the argument types of their C prototypes: C strings as paths,
  \<open>off_t\<close> offsets, \<open>int\<close> for the arguments of the seek, any \<open>size_t\<close> as a count.
\<close>

inductive typed_step :: "'n client_env \<Rightarrow> 'n \<times> client \<Rightarrow> 'n \<times> client \<Rightarrow> bool" for E where
  ty_init: "hvac_client_init E rc pid us (c, t) = Inr (lg, c', t') \<Longrightarrow> typed_step E (n, c) (n, c')"
| ty_track: "hvac_track_file E path flags fd (n, c) = Inr (b, n', c') \<Longrightarrow> fd_in_range fd \<Longrightarrow> is_c_string path \<Longrightarrow>
    typed_step E (n, c) (n', c')"
| ty_read: "hvac_remote_read E fd buf_ok count wk (n, c) = Inr (r, n', c') \<Longrightarrow> is_uint64 count \<Longrightarrow>
    typed_step E (n, c) (n', c')"
| ty_pread: "hvac_remote_pread E fd buf_ok count off wk (n, c) = Inr (r, n', c') \<Longrightarrow> is_uint64 count \<Longrightarrow> is_int64 off \<Longrightarrow>
    typed_step E (n, c) (n', c')"
| ty_lseek: "hvac_remote_lseek E fd loff whence (n, c) = Inr (pos, n', c') \<Longrightarrow> is_int32 loff \<Longrightarrow> is_int32 whence \<Longrightarrow>
    typed_step E (n, c) (n', c')"
| ty_remove: "hvac_remove_fd E fd (n, c) = Inr (b, n', c') \<Longrightarrow> typed_step E (n, c) (n', c')"
| ty_stats: "hvac_client_request_server_to_print_stats E ident (n, c) = Inr (r, n', c') \<Longrightarrow> typed_step E (n, c) (n', c')"

section \<open>What each generator sends\<close>

lemma is_int32I: "- (2 ^ 31) \<le> x \<Longrightarrow> x < 2 ^ 31 \<Longrightarrow> is_int32 x"
  by (simp add: is_int32_def int32_id)

lemma is_int32_consts [simp]: "is_int32 0" "is_int32 (-1)" "is_int32 (int32 x)" "is_uint64 (uint64 x)"
  by (simp_all add: is_int32_def int32_id is_uint64_def uint64_def)

lemma is_int64_minus_one [simp]: "is_int64 (-1)"
  by (simp add: is_int64_def int64_id)

lemma gen_open_sends:
  assumes "hvac_client_comm_gen_open_rpc (recording E) h p fd ((n, l), c) = Inr (r, (n', l'), c')" and "env_typed E"
  shows "l' = l @ [Open_Message \<lparr>open_path = p\<rparr>] \<and> is_int32 r"
proof -
  from assms obtain a c1 where
    l: "lookup_server (recording E) h (c\<lparr>fds := hvac_set_fd_opening fd (fds c)\<rparr>) = Inr (a, c1)"
    by (auto simp: hvac_client_comm_gen_open_rpc_def bind_run_eq_Inr)
  obtain d n1 where d: "fwd_open E n a \<lparr>open_path = p\<rparr> = (d, n1)" by (metis surj_pair)
  have "is_int32 (open_ret_status out)" if "d = Completes info out" for info out
    using assms(2) d that unfolding env_typed_def by blast
  with assms(1) show ?thesis
    by (cases d) (auto simp: hvac_client_comm_gen_open_rpc_def l recorded_def d client_ops assert_run_eq_Inr Let_def
        split: if_splits)
qed

lemma gen_read_sends:
  assumes "hvac_client_comm_gen_read_rpc (recording E) h fd buf_ok count off wk ((n, l), c) = Inr (r, (n', l'), c')"
    and inv: "client_inv c"
  shows "l' = l \<or> (\<exists>rfd. fd_redir_map c fd = Some rfd \<and> rfd \<noteq> 0 \<and> l' = l @
    [Read_Message \<lparr>input_val = int32 count, bulk_size = uint64 count, accessfd = rfd, rpc_offset = off\<rparr>])"
proof (cases "fd_status_of (fds c) fd = Some HVAC_FD_READY")
  case False
  with assms show ?thesis by (simp add: gen_read_not_ready)
next
  case True
  with client_invD(3) [OF inv] obtain rfd where r: "fd_redir_map c fd = Some rfd" "rfd > 0" by blast
  with assms True obtain a c1 where l: "lookup_server (recording E) h c = Inr (a, c1)"
    by (auto simp: hvac_client_comm_gen_read_rpc_def wait_under_inv bind_run_eq_Inr Let_def)
  obtain d n1 where d: "fwd_read E n a \<lparr>input_val = int32 count, bulk_size = uint64 count, accessfd = rfd,
      rpc_offset = off\<rparr> = (d, n1)" by (metis surj_pair)
  show ?thesis
    using assms True r by (cases d)
      (auto simp: hvac_client_comm_gen_read_rpc_def wait_under_inv l recorded_def d client_ops assert_run_eq_Inr)
qed

lemma gen_seek_sends:
  assumes "hvac_client_comm_gen_seek_rpc (recording E) h fd off w ((n, l), c) = Inr (r, (n', l'), c')"
  shows "l' = l @ [Seek_Message \<lparr>seek_fd = index_value 0 (fd_redir_map c) fd, seek_offset = off, seek_whence = w\<rparr>]"
proof -
  from assms obtain a c1 where l: "lookup_server (recording E) h c = Inr (a, c1)"
    by (auto simp: hvac_client_comm_gen_seek_rpc_def bind_run_eq_Inr)
  from lookup_server_frame [OF l] obtain cache where c1: "c1 = c\<lparr>address_cache := cache\<rparr>" by blast
  obtain d n1 where d: "fwd_seek E n a \<lparr>seek_fd = index_value 0 (fd_redir_map c) fd, seek_offset = off,
      seek_whence = w\<rparr> = (d, n1)" by (metis surj_pair)
  show ?thesis
    using assms by (cases d)
      (auto simp: hvac_client_comm_gen_seek_rpc_def l c1 recorded_def d client_ops assert_run_eq_Inr)
qed

lemma gen_close_sends:
  assumes "hvac_client_comm_gen_close_rpc (recording E) h fd ((n, l), c) = Inr ((n', l'), c')"
  shows "l' = l \<or> (\<exists>rfd. fd_redir_map c fd = Some rfd \<and> rfd \<noteq> 0 \<and> l' = l @ [Close_Message \<lparr>close_fd = rfd\<rparr>])"
proof -
  from assms obtain a c1 where l: "lookup_server (recording E) h c = Inr (a, c1)"
    by (auto simp: hvac_client_comm_gen_close_rpc_def bind_run_eq_Inr)
  from lookup_server_frame [OF l] obtain cache where c1: "c1 = c\<lparr>address_cache := cache\<rparr>" by blast
  show ?thesis
    using assms by (cases "fd_redir_map c fd")
      (auto simp: hvac_client_comm_gen_close_rpc_def l c1 recorded_def client_ops assert_run_eq_Inr Let_def
        split: if_splits prod.splits)
qed

lemma stats_sends:
  assumes "hvac_client_request_server_to_print_stats (recording E) ident ((n, l), c) = Inr (r, (n', l'), c')"
  shows "(l' = l \<or> l' = l @ [Stats_Message \<lparr>dummy_arg = 0\<rparr>]) \<and> (\<exists>cache. c' = c\<lparr>address_cache := cache\<rparr>)"
proof (cases ident)
  case None
  with assms show ?thesis
    by (auto simp: hvac_client_request_server_to_print_stats_def intro: exI [of _ "address_cache c"])
next
  case (Some s)
  with assms obtain a c1 where l: "lookup_server (recording E) (atoi s) c = Inr (a, c1)"
    by (auto simp: hvac_client_request_server_to_print_stats_def bind_run_eq_Inr)
  from lookup_server_frame [OF l] obtain cache where c1: "c1 = c\<lparr>address_cache := cache\<rparr>" by blast
  show ?thesis
    using assms Some
    by (auto simp: hvac_client_request_server_to_print_stats_def l c1 recorded_def client_ops assert_run_eq_Inr Let_def
        split: if_splits prod.splits)
qed

section \<open>The invariant\<close>

definition redir_typed :: "client \<Rightarrow> bool" where
  "redir_typed c \<longleftrightarrow> (\<forall>fd r. fd_redir_map c fd = Some r \<longrightarrow> is_int32 r)"

definition wire_inv :: "message list \<Rightarrow> client \<Rightarrow> bool" where
  "wire_inv l c \<longleftrightarrow> client_inv c \<and> redir_typed c \<and> (\<forall>m \<in> set l. message_ok m)"

lemma wire_invD:
  assumes "wire_inv l c"
  shows "client_inv c" and "fd_redir_map c fd = Some r \<Longrightarrow> is_int32 r \<and> 0 \<le> r" and "\<forall>m \<in> set l. message_ok m"
  using assms client_invD(4) unfolding wire_inv_def redir_typed_def by blast+

lemma wire_invI:
  assumes "client_inv c'" and "wire_inv l c" and "\<And>fd r. fd_redir_map c' fd = Some r \<Longrightarrow> is_int32 r"
    and "l' = l \<or> (\<exists>m. l' = l @ [m] \<and> message_ok m)"
  shows "wire_inv l' c'"
  using assms unfolding wire_inv_def redir_typed_def by auto

lemma index_typed:
  assumes "wire_inv l c"
  shows "is_int32 (index_value 0 (fd_redir_map c) fd) \<and> 0 \<le> index_value 0 (fd_redir_map c) fd"
    and "index_insert 0 (fd_redir_map c) fd fd' = Some r \<Longrightarrow> is_int32 r"
  using wire_invD(2) [OF assms, of fd] wire_invD(2) [OF assms, of fd']
  by (auto simp: index_value_def index_insert_def split: option.splits if_splits)

lemma wire_inv_index_insert:
  "wire_inv l c \<Longrightarrow> wire_inv l (c\<lparr>fd_redir_map := index_insert 0 (fd_redir_map c) fd\<rparr>)"
  by (rule wire_invI [of _ l c]) (auto simp: client_inv_index_insert wire_invD index_typed)

lemma gen_read_wire:
  assumes g: "hvac_client_comm_gen_read_rpc (recording E) h fd buf_ok count off wk ((n, l), c) = Inr (r, (n', l'), c')"
    and inv: "wire_inv l c" and off: "is_int64 off"
  shows "wire_inv l' c'"
proof (rule wire_invI [OF _ inv])
  note I = wire_invD [OF inv]
  from gen_read_frame [OF I(1) g] obtain cache where c': "c' = c\<lparr>address_cache := cache\<rparr>" by blast
  with I show "client_inv c'" "\<And>x y. fd_redir_map c' x = Some y \<Longrightarrow> is_int32 y" by auto
  show "l' = l \<or> (\<exists>m. l' = l @ [m] \<and> message_ok m)"
    using gen_read_sends [OF g I(1)] I(2) [of fd] off by (force simp: message_ok_def)
qed

lemma remote_read_wire:
  assumes "hvac_remote_read (recording E) fd buf_ok count wk ((n, l), c) = Inr (r, (n', l'), c')" and "wire_inv l c"
  shows "wire_inv l' c'"
  using assms by (auto simp: hvac_remote_read_def bind_run_eq_Inr split: option.splits elim!: gen_read_wire)

lemma remote_pread_wire:
  assumes "hvac_remote_pread (recording E) fd buf_ok count off wk ((n, l), c) = Inr (r, (n', l'), c')"
    and "wire_inv l c" and "is_int64 off"
  shows "wire_inv l' c'"
  using assms wire_inv_index_insert [OF assms(2), of fd]
  by (auto simp: hvac_remote_pread_def bind_run_eq_Inr Let_def split: option.splits if_splits elim!: gen_read_wire)

lemma remote_lseek_wire:
  assumes s: "hvac_remote_lseek (recording E) fd loff whence ((n, l), c) = Inr (r, (n', l'), c')"
    and inv: "wire_inv l c" and ty: "is_int32 loff" "is_int32 whence"
  shows "wire_inv l' c'"
proof (cases "fd_map c fd")
  case None
  with s inv show ?thesis by (simp add: hvac_remote_lseek_def)
next
  case (Some p)
  with s obtain h where g: "hvac_client_comm_gen_seek_rpc (recording E) h fd loff whence ((n, l), c) = Inr (r, (n', l'), c')"
    by (auto simp: hvac_remote_lseek_def bind_run_eq_Inr)
  from gen_seek_frame [OF g] obtain cache where
    c': "c' = c\<lparr>address_cache := cache, fd_redir_map := index_insert 0 (fd_redir_map c) fd\<rparr>" by blast
  show ?thesis
  proof (rule wire_invI [OF _ inv])
    show "client_inv c'" using remote_lseek_inv [OF wire_invD(1) [OF inv] s] by blast
    show "is_int32 y" if "fd_redir_map c' x = Some y" for x y using index_typed(2) [OF inv] that by (simp add: c')
    show "l' = l \<or> (\<exists>m. l' = l @ [m] \<and> message_ok m)"
      using gen_seek_sends [OF g] index_typed(1) [OF inv] ty by (auto simp: message_ok_def)
  qed
qed

lemma remove_fd_wire:
  assumes r: "hvac_remove_fd (recording E) fd ((n, l), c) = Inr (b, (n', l'), c')" and inv: "wire_inv l c"
  shows "wire_inv l' c'"
proof (rule wire_invI [OF remove_fd_inv [OF wire_invD(1) [OF inv] r] inv])
  note I = wire_invD [OF inv]
  show "is_int32 y" if "fd_redir_map c' x = Some y" for x y
  proof (cases "fd_map c fd")
    case None
    with r that I(2) show ?thesis by (auto simp: hvac_remove_fd_def hvac_remote_close_def)
  next
    case (Some p)
    with remove_fd_result [OF r] that I(2) show ?thesis by (auto split: if_splits)
  qed
  show "l' = l \<or> (\<exists>m. l' = l @ [m] \<and> message_ok m)"
  proof (cases "fd_map c fd")
    case None
    with r show ?thesis by (auto simp: hvac_remove_fd_def hvac_remote_close_def)
  next
    case (Some p)
    with r obtain h c1 where "hvac_client_comm_gen_close_rpc (recording E) h fd ((n, l), c) = Inr ((n', l'), c1)"
      by (auto simp: hvac_remove_fd_def hvac_remote_close_def bind_run_eq_Inr)
    from gen_close_sends [OF this] I(2) [of fd] show ?thesis by (force simp: message_ok_def)
  qed
qed

lemma track_file_wire:
  assumes t: "hvac_track_file (recording E) path flags fd ((n, l), c) = Inr (b, (n', l'), c')"
    and fd: "fd_in_range fd" and path: "is_c_string path" and inv: "wire_inv l c" and E: "env_typed E"
  shows "wire_inv l' c'"
  using t
proof (cases rule: track_file_cases)
  case skipped
  with inv show ?thesis by simp
next
  case (tracked p)
  then have p: "is_c_string p" using E path by (auto simp: track_path_def env_typed_def Let_def split: option.splits if_splits)
  from tracked t obtain h c1 r e m where
    c1: "c1 = c\<lparr>fd_map := (fd_map c)(fd \<mapsto> p), cl_engine := e, g_mercury_init := m\<rparr>"
    and g: "hvac_client_comm_gen_open_rpc (recording E) h p fd ((n, l), c1) = Inr (r, (n', l'), c')"
    using track_file_tracked [OF t] by metis
  show ?thesis
  proof (rule wire_invI [OF track_file_inv [OF wire_invD(1) [OF inv] t fd] inv])
    show "is_int32 y" if "fd_redir_map c' x = Some y" for x y
      using gen_open_result [OF g fd] gen_open_sends [OF g E] that wire_invD(2) [OF inv]
      by (auto simp: c1 split: if_splits)
    show "l' = l \<or> (\<exists>m. l' = l @ [m] \<and> message_ok m)"
      using gen_open_sends [OF g E] p by (auto simp: message_ok_def)
  qed
qed

lemma stats_wire:
  assumes "hvac_client_request_server_to_print_stats (recording E) ident ((n, l), c) = Inr (r, (n', l'), c')"
    and "wire_inv l c"
  shows "wire_inv l' c'"
  using stats_sends [OF assms(1)] assms(2) by (auto simp: wire_inv_def redir_typed_def message_ok_def)

lemma client_init_wire:
  assumes "hvac_client_init E rc pid us (c, t) = Inr (lg, c', t')" and "wire_inv l c"
  shows "wire_inv l c'"
  using assms client_init_inv [OF wire_invD(1) [OF assms(2)] assms(1)]
  by (auto simp: wire_inv_def redir_typed_def hvac_client_init_def bind_run_eq_Inr split: if_splits option.splits)

lemma typed_step_wire:
  assumes "typed_step (recording E) ((n, l), c) ((n', l'), c')" and "wire_inv l c" and "env_typed E"
  shows "wire_inv l' c'"
  using assms(1)
proof cases
  case (ty_init rc pid us t lg t')
  with client_init_wire [OF ty_init(3)] assms(2) show ?thesis by simp
next
  case (ty_track path flags fd b)
  from track_file_wire [OF ty_track assms(2,3)] show ?thesis .
next
  case (ty_read fd buf_ok count wk r)
  from remote_read_wire [OF ty_read(1) assms(2)] show ?thesis .
next
  case (ty_pread fd buf_ok count off wk r)
  from remote_pread_wire [OF ty_pread(1) assms(2) ty_pread(3)] show ?thesis .
next
  case (ty_lseek fd loff whence pos)
  from remote_lseek_wire [OF ty_lseek(1) assms(2) ty_lseek(2,3)] show ?thesis .
next
  case (ty_remove fd b)
  from remove_fd_wire [OF ty_remove assms(2)] show ?thesis .
next
  case (ty_stats ident r)
  from stats_wire [OF ty_stats assms(2)] show ?thesis .
qed

lemma typed_steps_wire:
  assumes "(typed_step (recording E))\<^sup>*\<^sup>* ((n, l), c) ((n', l'), c')" and "wire_inv l c" and "env_typed E"
  shows "wire_inv l' c'"
proof -
  have "wire_inv (snd (fst y)) (snd y)" if "(typed_step (recording E))\<^sup>*\<^sup>* x y" "wire_inv (snd (fst x)) (snd x)" for x y
    using that
  proof (induction rule: rtranclp_induct)
    case (step y z)
    then show ?case using typed_step_wire [OF _ _ assms(3)] by (metis prod.collapse)
  qed simp
  from this [OF assms(1)] assms(2) show ?thesis by simp
qed

section \<open>Property\<close>

text \<open>
  C20: messages fit their declared types. From the load of the library on, whatever the
  application calls with arguments of the C prototypes and whatever the network answers, every message
  handed to Mercury has all its fields in the ranges that \<open>mthvac_comm.h\<close> declares for them, so
  that encoding loses nothing; a read or a close names a positive remote descriptor, and a seek one
  that is not negative.
\<close>

theorem messages_well_typed:
  assumes "env_typed E" and "(typed_step (recording E))\<^sup>*\<^sup>* ((n, []), client_initial) ((n', l), c)" and "m \<in> set l"
  shows "wire_typed m \<and> names_descriptor m"
proof -
  have "wire_inv [] client_initial"
    using client_initial_inv by (simp add: wire_inv_def redir_typed_def) (simp add: client_initial_def)
  from typed_steps_wire [OF assms(2) this assms(1)] assms(3) show ?thesis by (auto simp: wire_inv_def message_ok_def)
qed

section \<open>Sample run\<close>

lemma recording_calls:
  "hvac_client_init (recording E) = hvac_client_init E" "ensure_mercury (recording E) = ensure_mercury E"
  "host_of (recording E) = host_of E" "lookup_server (recording E) = lookup_server E"
  by (simp_all add: fun_eq_iff hvac_client_init_def ensure_mercury_def host_of_def lookup_server_def
      cong: option.case_cong)

lemma sample_recorded_track:
  "hvac_track_file (recording (sample_env 9)) ''/data/a'' O_RDONLY 5 (((), []), sample_client) =
     Inr (True, ((), [Open_Message \<lparr>open_path = ''/data/a''\<rparr>]), sample_tracked ''/data/a'' 9)"
proof -
  have p: "track_path (sample_env 9 :: unit client_env) sample_client ''/data/a'' = Some ''/data/a''"
    by (rule sample_track_path) (simp add: sample_path)
  have "hvac_client_comm_gen_open_rpc (recording (sample_env 9)) 0 ''/data/a'' 5 (((), []), sample_opening ''/data/a'') =
      Inr (9, ((), [Open_Message \<lparr>open_path = ''/data/a''\<rparr>]), sample_tracked ''/data/a'' 9)"
    by (simp add: hvac_client_comm_gen_open_rpc_def recording_calls sample_lookup client_ops HG_SUCCESS_def int32_id Let_def
        sample_tracked_def recorded_def) (simp add: recording_def)
  moreover have "fd_map sample_client = Map.empty" by (simp add: sample_client_def client_initial_def)
  ultimately show ?thesis
    using p sample_flags by (simp add: hvac_track_file_def recording_calls sample_ensure sample_host)
qed

theorem messages_well_typed_witness:
  "\<exists>l c. (typed_step (recording (sample_env 9)))\<^sup>*\<^sup>* (((), []), client_initial) (((), l), c) \<and>
     Open_Message \<lparr>open_path = ''/data/a''\<rparr> \<in> set l \<and> wire_typed (Open_Message \<lparr>open_path = ''/data/a''\<rparr>)"
proof -
  let ?E = "recording (sample_env 9 :: unit client_env)" and ?m = "Open_Message \<lparr>open_path = ''/data/a''\<rparr>"
  have E: "env_typed (sample_env 9 :: unit client_env)" by (auto simp: env_typed_def intro: is_int32I)
  from sample_init obtain lg t' where
    "hvac_client_init ?E 0 77 12 (client_initial, timer_initial) = Inr (lg, sample_client, t')"
    unfolding recording_calls by blast
  then have "typed_step ?E (((), []), client_initial) (((), []), sample_client)" by (rule ty_init)
  moreover have "typed_step ?E (((), []), sample_client) (((), [?m]), sample_tracked ''/data/a'' 9)"
    by (rule ty_track [OF sample_recorded_track]) (simp_all add: fd_in_range_def is_c_string_def)
  ultimately have r: "(typed_step ?E)\<^sup>*\<^sup>* (((), []), client_initial) (((), [?m]), sample_tracked ''/data/a'' 9)" by simp
  from messages_well_typed [OF E r, of ?m] r show ?thesis by auto
qed

end
