(* ===== verification/HVAC_Locks.thy ===== *)
theory HVAC_Locks
  imports HVAC_Fd_State HVAC_Comm
begin

text \<open>
  Locks at the granularity of single lock operations and single accesses of shared data. The first
  part is the lazy initialisation of the lock array of the client (\<open>init_fd_state_rwlocks\<close>,
  \<open>mthvac_comm_client.cpp\<close>), which tests and sets a plain flag; the second part is the server's
  progress thread and its data mover around \<open>data_mutex\<close> (\<open>mthvac_comm.cpp\<close>,
  \<open>mthvac_data_mover.cpp\<close>), which share \<open>data_queue\<close> and \<open>path_cache_map\<close>.
\<close>

section \<open>Lazy initialisation of the lock array\<close>

text \<open>
  A thread that writes the table of the descriptor states: it tests the flag, initialises the locks
  one by one if the flag was not set, and then takes and releases the lock of its own descriptor.
  Initialising a lock leaves it free, whoever held it.
\<close>

datatype lock_pc = L_Start | L_Init nat | L_Ready | L_Inside

record lock_array =
  rwlocks_initialized :: bool
  lock_holder :: "int \<rightharpoonup> nat"
  lock_pc :: "nat \<Rightarrow> lock_pc"

definition lock_array_initial :: lock_array where
  "lock_array_initial = \<lparr>rwlocks_initialized = False, lock_holder = Map.empty, lock_pc = (\<lambda>t. L_Start)\<rparr>"

inductive init_step :: "(nat \<Rightarrow> int) \<Rightarrow> lock_array \<Rightarrow> lock_array \<Rightarrow> bool" for fd where
  test_set: "lock_pc s t = L_Start \<Longrightarrow> rwlocks_initialized s \<Longrightarrow>
    init_step fd s (s\<lparr>lock_pc := (lock_pc s)(t := L_Ready)\<rparr>)"
| test_unset: "lock_pc s t = L_Start \<Longrightarrow> \<not> rwlocks_initialized s \<Longrightarrow>
    init_step fd s (s\<lparr>lock_pc := (lock_pc s)(t := L_Init 0)\<rparr>)"
| init_one: "lock_pc s t = L_Init n \<Longrightarrow> int n < FD_STATE_SHARDS \<Longrightarrow>
    init_step fd s (s\<lparr>lock_pc := (lock_pc s)(t := L_Init (Suc n)), lock_holder := (lock_holder s)(int n := None)\<rparr>)"
| set_flag: "lock_pc s t = L_Init n \<Longrightarrow> \<not> int n < FD_STATE_SHARDS \<Longrightarrow>
    init_step fd s (s\<lparr>lock_pc := (lock_pc s)(t := L_Ready), rwlocks_initialized := True\<rparr>)"
| acquire: "lock_pc s t = L_Ready \<Longrightarrow> lock_holder s (get_fd_rwlock (fd t)) = None \<Longrightarrow>
    init_step fd s (s\<lparr>lock_pc := (lock_pc s)(t := L_Inside),
      lock_holder := (lock_holder s)(get_fd_rwlock (fd t) \<mapsto> t)\<rparr>)"
| release: "lock_pc s t = L_Inside \<Longrightarrow>
    init_step fd s (s\<lparr>lock_pc := (lock_pc s)(t := L_Start),
      lock_holder := (lock_holder s)(get_fd_rwlock (fd t) := None)\<rparr>)"

text \<open>Every thread inside holds its lock, and no thread is still initialising.\<close>

definition locks_held :: "(nat \<Rightarrow> int) \<Rightarrow> lock_array \<Rightarrow> bool" where
  "locks_held fd s \<longleftrightarrow> rwlocks_initialized s \<and> (\<forall>t n. lock_pc s t \<noteq> L_Init n) \<and>
     (\<forall>t. lock_pc s t = L_Inside \<longrightarrow> lock_holder s (get_fd_rwlock (fd t)) = Some t)"

lemma init_step_held: "init_step fd s s' \<Longrightarrow> locks_held fd s \<Longrightarrow> locks_held fd s'"
proof (induction rule: init_step.induct)
  case (release s t)
  have "get_fd_rwlock (fd u) \<noteq> get_fd_rwlock (fd t)" if "lock_pc s u = L_Inside" "u \<noteq> t" for u
    using release that unfolding locks_held_def by (metis option.inject)
  with release show ?case by (auto simp: locks_held_def)
qed (auto simp: locks_held_def split: if_splits)

lemma init_steps_held: "(init_step fd)\<^sup>*\<^sup>* s s' \<Longrightarrow> locks_held fd s \<Longrightarrow> locks_held fd s'"
  by (induction rule: rtranclp_induct) (auto dest: init_step_held)

text \<open>The loop of one thread from the test of the flag to the end of the loop.\<close>

lemma init_loop:
  assumes "pc t = L_Init n" and "int (n + k) \<le> FD_STATE_SHARDS"
  shows "(init_step fd)\<^sup>*\<^sup>* \<lparr>rwlocks_initialized = b, lock_holder = h, lock_pc = pc\<rparr>
    \<lparr>rwlocks_initialized = b, lock_holder = (\<lambda>i. if int n \<le> i \<and> i < int (n + k) then None else h i),
     lock_pc = pc(t := L_Init (n + k))\<rparr>"
  using assms
proof (induction k)
  case 0
  then have "pc(t := L_Init (n + 0)) = pc" by (simp add: fun_upd_idem)
  moreover have "(\<lambda>i. if int n \<le> i \<and> i < int (n + 0) then None else h i) = h" by (rule ext) auto
  ultimately show ?case by simp
next
  case (Suc k)
  let ?h = "\<lambda>i. if int n \<le> i \<and> i < int (n + k) then None else h i"
  have "?h(int (n + k) := None) = (\<lambda>i. if int n \<le> i \<and> i < int (n + Suc k) then None else h i)" by (rule ext) auto
  with init_one [of "\<lparr>rwlocks_initialized = b, lock_holder = ?h, lock_pc = pc(t := L_Init (n + k))\<rparr>" t "n + k" fd] Suc.prems
  have "init_step fd \<lparr>rwlocks_initialized = b, lock_holder = ?h, lock_pc = pc(t := L_Init (n + k))\<rparr>
      \<lparr>rwlocks_initialized = b, lock_holder = (\<lambda>i. if int n \<le> i \<and> i < int (n + Suc k) then None else h i),
       lock_pc = pc(t := L_Init (n + Suc k))\<rparr>" by simp
  moreover have "(init_step fd)\<^sup>*\<^sup>* \<lparr>rwlocks_initialized = b, lock_holder = h, lock_pc = pc\<rparr>
      \<lparr>rwlocks_initialized = b, lock_holder = ?h, lock_pc = pc(t := L_Init (n + k))\<rparr>"
    using Suc by (simp only: of_nat_add of_nat_Suc)
  ultimately show ?case by (rule rtranclp.rtrancl_into_rtrancl [rotated])
qed

lemma init_complete:
  assumes "pc t = L_Init 0"
  shows "(init_step fd)\<^sup>*\<^sup>* \<lparr>rwlocks_initialized = b, lock_holder = h, lock_pc = pc\<rparr>
    \<lparr>rwlocks_initialized = True, lock_holder = (\<lambda>i. if 0 \<le> i \<and> i < FD_STATE_SHARDS then None else h i),
     lock_pc = pc(t := L_Ready)\<rparr>"
proof -
  let ?h = "\<lambda>i. if 0 \<le> i \<and> i < FD_STATE_SHARDS then None else h i"
  have "(init_step fd)\<^sup>*\<^sup>* \<lparr>rwlocks_initialized = b, lock_holder = h, lock_pc = pc\<rparr>
      \<lparr>rwlocks_initialized = b, lock_holder = ?h, lock_pc = pc(t := L_Init 64)\<rparr>"
    using init_loop [of pc t 0 64 fd b h, OF assms] by (simp add: FD_STATE_SHARDS_def)
  moreover have "init_step fd \<lparr>rwlocks_initialized = b, lock_holder = ?h, lock_pc = pc(t := L_Init 64)\<rparr>
      \<lparr>rwlocks_initialized = True, lock_holder = ?h, lock_pc = pc(t := L_Ready)\<rparr>"
    using set_flag [of "\<lparr>rwlocks_initialized = b, lock_holder = ?h, lock_pc = pc(t := L_Init 64)\<rparr>" t 64 fd]
    by (simp add: FD_STATE_SHARDS_def)
  ultimately show ?thesis by simp
qed

section \<open>The progress thread and the data mover\<close>

text \<open>
  The handlers of open and close on the progress thread, and the mover thread, with one position
  for every lock operation and every access of shared data. \<open>H_Find\<close> is the look-up in
  \<open>path_cache_map\<close>; a close of a path that is not found goes on to the queue.
\<close>

datatype handler_pc =
    H_Idle
  | H_Find bool string
  | H_Lock string
  | H_Push string
  | H_Signal
  | H_Unlock

datatype copier_pc = M_Lock | M_Call_Wait | M_Waiting | M_Relock | M_Drain | M_Unlock | M_Copy | M_Insert

datatype server_thread = Handler | Mover

record shared_data =
  hpc :: handler_pc
  mpc :: copier_pc
  data_mutex :: "server_thread option"
  cached :: "string list"
  queued :: "string list"
  to_copy :: "string list"

definition shared_initial :: shared_data where
  "shared_initial = \<lparr>hpc = H_Idle, mpc = M_Lock, data_mutex = None, cached = [], queued = [], to_copy = []\<rparr>"

inductive access_step :: "shared_data \<Rightarrow> shared_data \<Rightarrow> bool" where
  request: "hpc s = H_Idle \<Longrightarrow> access_step s (s\<lparr>hpc := H_Find is_close p\<rparr>)"
| found: "hpc s = H_Find is_close p \<Longrightarrow> \<not> is_close \<or> p \<in> set (cached s) \<Longrightarrow> access_step s (s\<lparr>hpc := H_Idle\<rparr>)"
| not_found: "hpc s = H_Find True p \<Longrightarrow> p \<notin> set (cached s) \<Longrightarrow> access_step s (s\<lparr>hpc := H_Lock p\<rparr>)"
| handler_lock: "hpc s = H_Lock p \<Longrightarrow> data_mutex s = None \<Longrightarrow>
    access_step s (s\<lparr>hpc := H_Push p, data_mutex := Some Handler\<rparr>)"
| push: "hpc s = H_Push p \<Longrightarrow> access_step s (s\<lparr>hpc := H_Signal, queued := queue_push p (queued s)\<rparr>)"
| signal: "hpc s = H_Signal \<Longrightarrow>
    access_step s (s\<lparr>hpc := H_Unlock, mpc := (if mpc s = M_Waiting then M_Relock else mpc s)\<rparr>)"
| handler_unlock: "hpc s = H_Unlock \<Longrightarrow> access_step s (s\<lparr>hpc := H_Idle, data_mutex := None\<rparr>)"
| mover_lock: "mpc s = M_Lock \<Longrightarrow> data_mutex s = None \<Longrightarrow>
    access_step s (s\<lparr>mpc := M_Call_Wait, data_mutex := Some Mover\<rparr>)"
| call_wait: "mpc s = M_Call_Wait \<Longrightarrow> access_step s (s\<lparr>mpc := M_Waiting, data_mutex := None\<rparr>)"
| spurious_wake: "mpc s = M_Waiting \<Longrightarrow> access_step s (s\<lparr>mpc := M_Relock\<rparr>)"
| mover_relock: "mpc s = M_Relock \<Longrightarrow> data_mutex s = None \<Longrightarrow>
    access_step s (s\<lparr>mpc := M_Drain, data_mutex := Some Mover\<rparr>)"
| drain: "mpc s = M_Drain \<Longrightarrow> drain_queue (queued s) (to_copy s) = (q, loc) \<Longrightarrow>
    access_step s (s\<lparr>mpc := M_Unlock, queued := q, to_copy := loc\<rparr>)"
| mover_unlock: "mpc s = M_Unlock \<Longrightarrow> access_step s (s\<lparr>mpc := M_Copy, data_mutex := None\<rparr>)"
| copied: "mpc s = M_Copy \<Longrightarrow> to_copy s \<noteq> [] \<Longrightarrow> access_step s (s\<lparr>mpc := M_Insert\<rparr>)"
| copy_failed: "mpc s = M_Copy \<Longrightarrow> to_copy s = p # rest \<Longrightarrow> access_step s (s\<lparr>to_copy := rest\<rparr>)"
| insert_entry: "mpc s = M_Insert \<Longrightarrow> to_copy s = p # rest \<Longrightarrow>
    access_step s (s\<lparr>mpc := M_Copy, cached := p # cached s, to_copy := rest\<rparr>)"
| copies_done: "mpc s = M_Copy \<Longrightarrow> to_copy s = [] \<Longrightarrow> access_step s (s\<lparr>mpc := M_Lock\<rparr>)"

text \<open>What the next step of each thread touches, and whether it changes it.\<close>

datatype shared_object = Data_Queue | Path_Cache_Map

fun handler_access :: "handler_pc \<Rightarrow> (shared_object \<times> bool) option" where
  "handler_access (H_Find is_close p) = Some (Path_Cache_Map, False)"
| "handler_access (H_Push p) = Some (Data_Queue, True)"
| "handler_access h = None"

fun mover_access :: "copier_pc \<Rightarrow> (shared_object \<times> bool) option" where
  "mover_access M_Drain = Some (Data_Queue, True)"
| "mover_access M_Insert = Some (Path_Cache_Map, True)"
| "mover_access m = None"

definition data_race :: "shared_object \<Rightarrow> shared_data \<Rightarrow> bool" where
  "data_race x s \<longleftrightarrow> (\<exists>a b. handler_access (hpc s) = Some (x, a) \<and> mover_access (mpc s) = Some (x, b) \<and> (a \<or> b))"

fun handler_holds :: "handler_pc \<Rightarrow> bool" where
  "handler_holds (H_Push p) = True"
| "handler_holds H_Signal = True"
| "handler_holds H_Unlock = True"
| "handler_holds h = False"

definition mover_holds :: "copier_pc \<Rightarrow> bool" where
  "mover_holds m = (m \<in> {M_Call_Wait, M_Drain, M_Unlock})"

definition mutex_inv :: "shared_data \<Rightarrow> bool" where
  "mutex_inv s \<longleftrightarrow> (data_mutex s = Some Handler \<longleftrightarrow> handler_holds (hpc s)) \<and>
     (data_mutex s = Some Mover \<longleftrightarrow> mover_holds (mpc s))"

lemma access_step_mutex: "access_step s t \<Longrightarrow> mutex_inv s \<Longrightarrow> mutex_inv t"
  by (induction rule: access_step.induct) (auto simp: mutex_inv_def mover_holds_def)

lemma access_steps_mutex: "access_step\<^sup>*\<^sup>* s t \<Longrightarrow> mutex_inv s \<Longrightarrow> mutex_inv t"
  by (induction rule: rtranclp_induct) (auto dest: access_step_mutex)

lemma mutex_inv_no_race: "mutex_inv s \<Longrightarrow> \<not> data_race Data_Queue s"
  by (cases "hpc s"; cases "mpc s") (auto simp: mutex_inv_def data_race_def mover_holds_def)

text \<open>A close of an uncached path, from its look-up to the point where the mover has the copy.\<close>

lemma shared_initial_mutex: "mutex_inv shared_initial"
  by (simp add: mutex_inv_def shared_initial_def mover_holds_def)

lemma close_to_insert:
  "access_step\<^sup>*\<^sup>* shared_initial
     \<lparr>hpc = H_Find is_close q, mpc = M_Insert, data_mutex = None, cached = [], queued = [], to_copy = [p]\<rparr>"
proof -
  define st where "st h m x q l = \<lparr>hpc = h, mpc = m, data_mutex = x, cached = [], queued = q, to_copy = l\<rparr>" for h m x q l
  have d: "drain_queue [p] [] = ([], [p])"
    by (simp add: drain_queue.simps queue_empty_def queue_front_def queue_pop_def queue_push_def)
  have "access_step\<^sup>*\<^sup>* (st H_Idle M_Lock None [] []) (st H_Idle M_Call_Wait (Some Mover) [] [])"
    using mover_lock [of "st H_Idle M_Lock None [] []"] by (simp add: st_def)
  also have "access_step (st H_Idle M_Call_Wait (Some Mover) [] []) (st H_Idle M_Waiting None [] [])"
    using call_wait [of "st H_Idle M_Call_Wait (Some Mover) [] []"] by (simp add: st_def)
  also have "access_step (st H_Idle M_Waiting None [] []) (st (H_Find True p) M_Waiting None [] [])"
    using request [where s = "st H_Idle M_Waiting None [] []" and p = p and is_close = True] by (simp add: st_def)
  also have "access_step (st (H_Find True p) M_Waiting None [] []) (st (H_Lock p) M_Waiting None [] [])"
    using not_found [of "st (H_Find True p) M_Waiting None [] []"] by (simp add: st_def)
  also have "access_step (st (H_Lock p) M_Waiting None [] []) (st (H_Push p) M_Waiting (Some Handler) [] [])"
    using handler_lock [of "st (H_Lock p) M_Waiting None [] []"] by (simp add: st_def)
  also have "access_step (st (H_Push p) M_Waiting (Some Handler) [] []) (st H_Signal M_Waiting (Some Handler) [p] [])"
    using push [of "st (H_Push p) M_Waiting (Some Handler) [] []"] by (simp add: st_def queue_push_def)
  also have "access_step (st H_Signal M_Waiting (Some Handler) [p] []) (st H_Unlock M_Relock (Some Handler) [p] [])"
    using signal [of "st H_Signal M_Waiting (Some Handler) [p] []"] by (simp add: st_def)
  also have "access_step (st H_Unlock M_Relock (Some Handler) [p] []) (st H_Idle M_Relock None [p] [])"
    using handler_unlock [of "st H_Unlock M_Relock (Some Handler) [p] []"] by (simp add: st_def)
  also have "access_step (st H_Idle M_Relock None [p] []) (st H_Idle M_Drain (Some Mover) [p] [])"
    using mover_relock [of "st H_Idle M_Relock None [p] []"] by (simp add: st_def)
  also have "access_step (st H_Idle M_Drain (Some Mover) [p] []) (st H_Idle M_Unlock (Some Mover) [] [p])"
    using drain [of "st H_Idle M_Drain (Some Mover) [p] []" "[]" "[p]"] by (simp add: st_def d)
  also have "access_step (st H_Idle M_Unlock (Some Mover) [] [p]) (st H_Idle M_Copy None [] [p])"
    using mover_unlock [of "st H_Idle M_Unlock (Some Mover) [] [p]"] by (simp add: st_def)
  also have "access_step (st H_Idle M_Copy None [] [p]) (st H_Idle M_Insert None [] [p])"
    using copied [of "st H_Idle M_Copy None [] [p]"] by (simp add: st_def)
  also have "access_step (st H_Idle M_Insert None [] [p]) (st (H_Find is_close q) M_Insert None [] [p])"
    using request [where s = "st H_Idle M_Insert None [] [p]" and p = q and is_close = is_close] by (simp add: st_def)
  finally show ?thesis by (simp add: st_def shared_initial_def)
qed

section \<open>Properties\<close>

text \<open>
  Once the lock array has been initialised and no thread is inside the initialisation, the
  locks work for ever after: no lock is initialised again, and two threads inside an access have
  descriptors of different shards.
\<close>

theorem initialised_locks_exclude:
  assumes "rwlocks_initialized s" and "\<And>t. lock_pc s t = L_Start" and "(init_step fd)\<^sup>*\<^sup>* s s'"
    and "lock_pc s' t = L_Inside" and "lock_pc s' u = L_Inside"
    and "get_fd_rwlock (fd t) = get_fd_rwlock (fd u)"
  shows "t = u \<and> (\<forall>x n. lock_pc s' x \<noteq> L_Init n)"
proof -
  have "locks_held fd s" using assms(1,2) by (simp add: locks_held_def)
  from init_steps_held [OF assms(3) this] have h: "locks_held fd s'" .
  with assms(4-6) have "Some t = Some u" unfolding locks_held_def by metis
  with h show ?thesis by (simp add: locks_held_def)
qed

text \<open>
  C34: the initialisation itself is not safe: the flag is tested and set without a lock. When two
  threads make the first accesses of the process at the same time, one of them can initialise the
  locks again while the other already holds its lock, and both change the table at the same time.
\<close>

theorem lazy_initialisation_races:
  assumes "t \<noteq> u" and "get_fd_rwlock (fd t) = get_fd_rwlock (fd u)" and "0 \<le> fd t"
  shows "\<exists>s. (init_step fd)\<^sup>*\<^sup>* lock_array_initial s \<and> lock_pc s t = L_Inside \<and> lock_pc s u = L_Inside"
proof -
  let ?n = "get_fd_rwlock (fd t)"
  have n: "0 \<le> ?n \<and> ?n < FD_STATE_SHARDS" by (rule shard_in_range [OF assms(3)])
  define pc where "pc = (\<lambda>x. L_Start)(t := L_Init 0, u := L_Init 0)"
  have pc: "pc t = L_Init 0" "pc u = L_Init 0" using assms(1) by (simp_all add: pc_def)
  have "(init_step fd)\<^sup>*\<^sup>* lock_array_initial (lock_array_initial\<lparr>lock_pc := (\<lambda>x. L_Start)(t := L_Init 0)\<rparr>)"
    using test_unset [of lock_array_initial t fd] by (simp add: lock_array_initial_def)
  also have "init_step fd (lock_array_initial\<lparr>lock_pc := (\<lambda>x. L_Start)(t := L_Init 0)\<rparr>) (\<lparr>rwlocks_initialized = False, lock_holder = Map.empty, lock_pc = pc\<rparr>)"
    using test_unset [of "lock_array_initial\<lparr>lock_pc := (\<lambda>x. L_Start)(t := L_Init 0)\<rparr>" u fd] assms(1)
    by (simp add: lock_array_initial_def pc_def)
  also have "(init_step fd)\<^sup>*\<^sup>* \<lparr>rwlocks_initialized = False, lock_holder = Map.empty, lock_pc = pc\<rparr>
      \<lparr>rwlocks_initialized = True, lock_holder = Map.empty, lock_pc = pc(t := L_Ready)\<rparr>"
    using init_complete [of pc t fd False Map.empty, OF pc(1)] by (simp add: if_split)
  also have "init_step fd \<lparr>rwlocks_initialized = True, lock_holder = Map.empty, lock_pc = pc(t := L_Ready)\<rparr>
      \<lparr>rwlocks_initialized = True, lock_holder = [?n \<mapsto> t], lock_pc = pc(t := L_Inside)\<rparr>"
    using acquire [of "\<lparr>rwlocks_initialized = True, lock_holder = Map.empty, lock_pc = pc(t := L_Ready)\<rparr>" t fd] by simp
  also have "(init_step fd)\<^sup>*\<^sup>* \<lparr>rwlocks_initialized = True, lock_holder = [?n \<mapsto> t], lock_pc = pc(t := L_Inside)\<rparr>
      \<lparr>rwlocks_initialized = True, lock_holder = Map.empty, lock_pc = pc(t := L_Inside, u := L_Ready)\<rparr>"
  proof -
    have "(\<lambda>i. if 0 \<le> i \<and> i < FD_STATE_SHARDS then None else [?n \<mapsto> t] i) = Map.empty" using n by auto
    with init_complete [of "pc(t := L_Inside)" u fd True "[?n \<mapsto> t]"] assms(1) pc show ?thesis by simp
  qed
  also have "init_step fd \<lparr>rwlocks_initialized = True, lock_holder = Map.empty, lock_pc = pc(t := L_Inside, u := L_Ready)\<rparr>
      \<lparr>rwlocks_initialized = True, lock_holder = [?n \<mapsto> u], lock_pc = pc(t := L_Inside, u := L_Inside)\<rparr>"
    using acquire [of "\<lparr>rwlocks_initialized = True, lock_holder = Map.empty, lock_pc = pc(t := L_Inside, u := L_Ready)\<rparr>" u fd]
      assms(2) by simp
  finally have "(init_step fd)\<^sup>*\<^sup>* lock_array_initial
      \<lparr>rwlocks_initialized = True, lock_holder = [?n \<mapsto> u], lock_pc = pc(t := L_Inside, u := L_Inside)\<rparr>" by simp
  moreover have "(pc(t := L_Inside, u := L_Inside)) t = L_Inside" "(pc(t := L_Inside, u := L_Inside)) u = L_Inside" by simp_all
  ultimately show ?thesis by (metis lock_array.select_convs(3))
qed

text \<open>
  C35: \<open>data_mutex\<close> protects the queue: in no reachable state are a handler and the mover about to
  touch \<open>data_queue\<close> at the same time. It does not protect the cache map: for every path that is
  closed and every request that follows there is a reachable state in which the mover is about to
  insert into \<open>path_cache_map\<close> while the handler is about to search it.
\<close>

theorem mutex_protects_queue_only:
  "(\<forall>s. access_step\<^sup>*\<^sup>* shared_initial s \<longrightarrow> \<not> data_race Data_Queue s) \<and>
   (\<exists>s. access_step\<^sup>*\<^sup>* shared_initial s \<and> hpc s = H_Find is_close q \<and> to_copy s = [p] \<and> data_race Path_Cache_Map s)"
proof
  show "\<forall>s. access_step\<^sup>*\<^sup>* shared_initial s \<longrightarrow> \<not> data_race Data_Queue s"
    using access_steps_mutex [OF _ shared_initial_mutex] mutex_inv_no_race by blast
  show "\<exists>s. access_step\<^sup>*\<^sup>* shared_initial s \<and> hpc s = H_Find is_close q \<and> to_copy s = [p] \<and> data_race Path_Cache_Map s"
    using close_to_insert [where is_close = is_close and q = q and p = p] by (rule_tac exI, intro conjI, assumption) (auto simp: data_race_def)
qed

theorem initialised_locks_exclude_witness:
  "\<exists>s'. (init_step (\<lambda>t. 3))\<^sup>*\<^sup>* (lock_array_initial\<lparr>rwlocks_initialized := True\<rparr>) s' \<and> lock_pc s' 7 = L_Inside \<and>
     (\<forall>u. lock_pc s' u = L_Inside \<longrightarrow> u = 7)"
proof -
  let ?s = "lock_array_initial\<lparr>rwlocks_initialized := True\<rparr>"
  let ?s1 = "?s\<lparr>lock_pc := (lock_pc ?s)(7 := L_Ready)\<rparr>"
  let ?s2 = "?s1\<lparr>lock_pc := (lock_pc ?s1)(7 := L_Inside), lock_holder := (lock_holder ?s1)(get_fd_rwlock 3 \<mapsto> 7)\<rparr>"
  have "init_step (\<lambda>t. 3) ?s ?s1" by (rule test_set) (simp_all add: lock_array_initial_def)
  moreover have "init_step (\<lambda>t. 3) ?s1 ?s2" by (rule acquire) (simp_all add: lock_array_initial_def)
  ultimately have r: "(init_step (\<lambda>t. 3))\<^sup>*\<^sup>* ?s ?s2" by simp
  have "u = 7" if "lock_pc ?s2 u = L_Inside" for u
    using initialised_locks_exclude [OF _ _ r that, of 7] by (simp add: lock_array_initial_def)
  moreover have "lock_pc ?s2 7 = L_Inside" by simp
  ultimately show ?thesis using r by blast
qed

theorem lazy_initialisation_races_witness:
  "\<exists>s. (init_step (\<lambda>t. 5))\<^sup>*\<^sup>* lock_array_initial s \<and> lock_pc s 1 = L_Inside \<and> lock_pc s 2 = L_Inside"
  using lazy_initialisation_races [of 1 2 "\<lambda>t. 5"] by simp

theorem mutex_protects_queue_only_witness:
  "\<not> data_race Data_Queue shared_initial \<and>
   (\<exists>s. access_step\<^sup>*\<^sup>* shared_initial s \<and> hpc s = H_Find False ''/data/b'' \<and> to_copy s = [''/data/a''] \<and>
     data_race Path_Cache_Map s \<and> \<not> data_race Data_Queue s)"
  using mutex_protects_queue_only [of False "''/data/b''" "''/data/a''"] by blast

end
