(* ===== verification/HVAC_Server_Stats.thy ===== *)
theory HVAC_Server_Stats
  imports HVAC_Comm HVAC_Timer
begin

text \<open>
  The server process with its statistics: the handlers of \<open>mthvac_comm.cpp\<close> inside their
  \<open>HVAC_TIMING\<close> scopes, dispatched on the requests of the clients, and the statistics request that
  prints what the scopes have recorded.
\<close>

section \<open>Timed scopes\<close>

text \<open>
  \<open>HVAC_TIMING(name)\<close> declares a guard whose destructor runs when the scope is left normally; an
  abort of the process records nothing. The first argument is what the clock and the exchange loop
  do at the end: spurious failures and microseconds.
\<close>

type_synonym timing = "nat \<times> int"

definition HVAC_TIMING :: "timing \<Rightarrow> string \<Rightarrow> (timer_state \<Rightarrow> ('a \<times> timer_state) run) \<Rightarrow> timer_state \<Rightarrow> ('a \<times> timer_state) run" where
  "HVAC_TIMING tm name body t = bind_run (body t) (\<lambda>(r, t'). Inr (r, TimerGuard_end (fst tm) name (snd tm) t'))"

definition untimed :: "'a run \<Rightarrow> timer_state \<Rightarrow> ('a \<times> timer_state) run" where
  "untimed x t = bind_run x (\<lambda>r. Inr (r, t))"

definition open_tag :: string where "open_tag = ''HvacComm_(hvac_open_rpc_handler)_total''"
definition close_tag :: string where "close_tag = ''HvacComm_(hvac_close_rpc_handler)_total''"
definition read_tag :: string where "read_tag = ''HvacComm_(hvac_rpc_handler)_total''"
definition bulk_tag :: string where "bulk_tag = ''HvacComm_(hvac_rpc_handler_bulk_cb)_total''"

section \<open>Requests\<close>

datatype server_request =
    Open_Request hvac_open_in_t
  | Read_Request hvac_rpc_in_t
  | Seek_Request hvac_seek_in_t
  | Close_Request hvac_close_in_t
  | Stats_Request

datatype server_reply =
    Open_Reply hvac_open_out_t
  | Read_Reply hvac_rpc_out_t "byte list"
  | Seek_Reply hvac_seek_out_t
  | No_Reply
  | Stats_Reply hvac_rpc_trigger_srv_print_stats_out_t

record 'o server_process =
  sp_server :: "'o server"
  sp_timer :: timer_state
  sp_stdout :: string

text \<open>
  One request. The scope of the read handler has ended when the progress thread triggers the
  callback of the transfer. \<open>order\<close> is the iteration order of the table of the statistics.
\<close>

definition serve_open :: "'o posix_ops \<Rightarrow> mercury \<Rightarrow> timing \<Rightarrow> hvac_open_in_t \<Rightarrow> 'o server \<Rightarrow> timer_state \<Rightarrow>
    ((hvac_open_out_t \<times> 'o server) \<times> timer_state) run" where
  "serve_open ops hg tm i s = HVAC_TIMING tm open_tag (untimed (hvac_open_rpc_handler ops hg i s))"

definition serve_close :: "'o posix_ops \<Rightarrow> mercury \<Rightarrow> timing \<Rightarrow> hvac_close_in_t \<Rightarrow> 'o server \<Rightarrow> timer_state \<Rightarrow>
    ('o server \<times> timer_state) run" where
  "serve_close ops hg tm i s = HVAC_TIMING tm close_tag (untimed (hvac_close_rpc_handler ops hg i s))"

definition serve_rpc :: "'o posix_ops \<Rightarrow> mercury \<Rightarrow> timing \<Rightarrow> timing \<Rightarrow> hvac_rpc_in_t \<Rightarrow> 'o server \<Rightarrow> timer_state \<Rightarrow>
    (((hvac_rpc_out_t \<times> byte list) \<times> 'o server) \<times> timer_state) run" where
  "serve_rpc ops hg tm tm2 i s t =
     bind_run (HVAC_TIMING tm read_tag (untimed (hvac_rpc_handler ops hg i s)) t) (\<lambda>((st, s'), t1).
     bind_run (HVAC_TIMING tm2 bulk_tag (untimed (hvac_rpc_handler_bulk_cb hg st)) t1) (\<lambda>(r, t2).
     Inr ((r, s'), t2)))"

definition serve_request ::
    "'o posix_ops \<Rightarrow> mercury \<Rightarrow> (real \<Rightarrow> string) \<Rightarrow> (timer_state \<Rightarrow> string list) \<Rightarrow> timing \<Rightarrow> timing \<Rightarrow> server_request \<Rightarrow>
     'o server_process \<Rightarrow> (server_reply \<times> 'o server_process) run" where
  "serve_request ops hg fmt order tm tm2 req ps =
     (case req of
        Open_Request i \<Rightarrow>
          bind_run (serve_open ops hg tm i (sp_server ps) (sp_timer ps)) (\<lambda>((out, s), t).
          Inr (Open_Reply out, ps\<lparr>sp_server := s, sp_timer := t\<rparr>))
      | Read_Request i \<Rightarrow>
          bind_run (serve_rpc ops hg tm tm2 i (sp_server ps) (sp_timer ps)) (\<lambda>(((out, bytes), s), t).
          Inr (Read_Reply out bytes, ps\<lparr>sp_server := s, sp_timer := t\<rparr>))
      | Seek_Request i \<Rightarrow>
          bind_run (hvac_seek_rpc_handler ops hg i (sp_server ps)) (\<lambda>(out, s).
          Inr (Seek_Reply out, ps\<lparr>sp_server := s\<rparr>))
      | Close_Request i \<Rightarrow>
          bind_run (serve_close ops hg tm i (sp_server ps) (sp_timer ps)) (\<lambda>(s, t).
          Inr (No_Reply, ps\<lparr>sp_server := s, sp_timer := t\<rparr>))
      | Stats_Request \<Rightarrow>
          (case hvac_trigger_srv_print_stats_handler hg of (out, printed, ret) \<Rightarrow>
           Inr (Stats_Reply out,
             (if printed then ps\<lparr>sp_stdout := sp_stdout ps @ print_all_stats fmt (-1) (order (sp_timer ps)) (sp_timer ps)\<rparr> else ps))))"

text \<open>A sequence of requests, each with its timings, and the sections it times.\<close>

fun serve_requests ::
    "'o posix_ops \<Rightarrow> mercury \<Rightarrow> (real \<Rightarrow> string) \<Rightarrow> (timer_state \<Rightarrow> string list) \<Rightarrow> (timing \<times> timing \<times> server_request) list \<Rightarrow>
     'o server_process \<Rightarrow> (server_reply list \<times> 'o server_process) run" where
  "serve_requests ops hg fmt order [] ps = Inr ([], ps)"
| "serve_requests ops hg fmt order ((tm, tm2, req) # reqs) ps =
     bind_run (serve_request ops hg fmt order tm tm2 req ps) (\<lambda>(r, ps1).
     bind_run (serve_requests ops hg fmt order reqs ps1) (\<lambda>(rs, ps2). Inr (r # rs, ps2)))"

fun sections :: "timing \<times> timing \<times> server_request \<Rightarrow> (nat \<times> string \<times> int) list" where
  "sections (tm, tm2, Open_Request i) = [(fst tm, open_tag, snd tm)]"
| "sections (tm, tm2, Read_Request j) = [(fst tm, read_tag, snd tm), (fst tm2, bulk_tag, snd tm2)]"
| "sections (tm, tm2, Seek_Request k) = []"
| "sections (tm, tm2, Close_Request l) = [(fst tm, close_tag, snd tm)]"
| "sections (tm, tm2, Stats_Request) = []"

fun is_open_request :: "server_request \<Rightarrow> bool" where
  "is_open_request (Open_Request i) = True"
| "is_open_request req = False"

fun is_close_request :: "server_request \<Rightarrow> bool" where
  "is_close_request (Close_Request i) = True"
| "is_close_request req = False"

fun is_read_request :: "server_request \<Rightarrow> bool" where
  "is_read_request (Read_Request i) = True"
| "is_read_request req = False"

definition served :: "(server_request \<Rightarrow> bool) \<Rightarrow> (timing \<times> timing \<times> server_request) list \<Rightarrow> int" where
  "served P reqs = int (length (filter (\<lambda>(tm, tm2, req). P req) reqs))"

definition timed_kinds :: "(string \<times> (server_request \<Rightarrow> bool)) list" where
  "timed_kinds = [(open_tag, is_open_request), (close_tag, is_close_request), (read_tag, is_read_request), (bulk_tag, is_read_request)]"

section \<open>Lemmas\<close>

lemmas tag_defs = open_tag_def close_tag_def read_tag_def bulk_tag_def

lemma HVAC_TIMING_eq_Inr:
  "HVAC_TIMING tm name (untimed x) t = Inr (r, t') \<longleftrightarrow> x = Inr r \<and> t' = TimerGuard_end (fst tm) name (snd tm) t"
  by (cases x) (auto simp: HVAC_TIMING_def untimed_def)

lemma record_calls_append: "record_calls (xs @ ys) t = record_calls ys (record_calls xs t)"
  by (induction xs t rule: record_calls.induct) simp_all

text \<open>The statistics of a request are its sections, and the server state moves as without them.\<close>

lemma serve_request_timer:
  assumes "serve_request ops hg fmt order tm tm2 req ps = Inr (r, ps')"
  shows "sp_timer ps' = record_calls (sections (tm, tm2, req)) (sp_timer ps)"
  using assms
  by (cases req) (auto simp: serve_request_def serve_open_def serve_close_def serve_rpc_def bind_run_eq_Inr HVAC_TIMING_eq_Inr
      split: prod.splits if_splits)

lemma serve_request_steps:
  assumes "serve_request ops hg fmt order tm tm2 req ps = Inr (r, ps')"
  shows "(server_step ops hg nvmepath)\<^sup>*\<^sup>* (sp_server ps) (sp_server ps')"
proof (cases req)
  case (Open_Request i)
  with assms obtain out where "hvac_open_rpc_handler ops hg i (sp_server ps) = Inr (out, sp_server ps')"
    by (auto simp: serve_request_def serve_open_def bind_run_eq_Inr HVAC_TIMING_eq_Inr)
  from server_step.on_open [OF this] show ?thesis by blast
next
  case (Read_Request i)
  with assms obtain st where "hvac_rpc_handler ops hg i (sp_server ps) = Inr (st, sp_server ps')"
    by (auto simp: serve_request_def serve_rpc_def bind_run_eq_Inr HVAC_TIMING_eq_Inr)
  from server_step.on_read [OF this] show ?thesis by blast
next
  case (Seek_Request i)
  with assms obtain out where "hvac_seek_rpc_handler ops hg i (sp_server ps) = Inr (out, sp_server ps')"
    by (auto simp: serve_request_def bind_run_eq_Inr)
  from server_step.on_seek [OF this] show ?thesis by blast
next
  case (Close_Request i)
  with assms have "hvac_close_rpc_handler ops hg i (sp_server ps) = Inr (sp_server ps')"
    by (auto simp: serve_request_def serve_close_def bind_run_eq_Inr HVAC_TIMING_eq_Inr)
  from server_step.on_close [OF this] show ?thesis by blast
next
  case Stats_Request
  with assms show ?thesis by (auto simp: serve_request_def split: prod.splits if_splits)
qed

lemma serve_requests_timer:
  "serve_requests ops hg fmt order reqs ps = Inr (rs, ps') \<Longrightarrow>
     sp_timer ps' = record_calls (concat (map sections reqs)) (sp_timer ps) \<and>
     (server_step ops hg nvmepath)\<^sup>*\<^sup>* (sp_server ps) (sp_server ps') \<and> length rs = length reqs"
proof (induction reqs arbitrary: ps rs)
  case (Cons x reqs)
  obtain tm tm2 req where x: "x = (tm, tm2, req)" by (cases x)
  from Cons.prems obtain r ps1 rs1 where r: "serve_request ops hg fmt order tm tm2 req ps = Inr (r, ps1)"
    and rs: "serve_requests ops hg fmt order reqs ps1 = Inr (rs1, ps')" "rs = r # rs1"
    by (auto simp: x bind_run_eq_Inr)
  from serve_request_timer [OF r] serve_request_steps [OF r, of nvmepath] Cons.IH [OF rs(1)] rs(2) show ?case
    by (auto simp: x record_calls_append)
qed simp

lemma durations_append: "durations tag (xs @ ys) = durations tag xs @ durations tag ys"
  by (simp add: durations_def)

lemma section_counts:
  "int (length (durations open_tag (concat (map sections reqs)))) = served is_open_request reqs"
  "int (length (durations close_tag (concat (map sections reqs)))) = served is_close_request reqs"
  "int (length (durations read_tag (concat (map sections reqs)))) = served is_read_request reqs"
  "int (length (durations bulk_tag (concat (map sections reqs)))) = served is_read_request reqs"
proof -
  have "length (durations open_tag (sections x)) = (if is_open_request (snd (snd x)) then 1 else 0) \<and>
      length (durations close_tag (sections x)) = (if is_close_request (snd (snd x)) then 1 else 0) \<and>
      length (durations read_tag (sections x)) = (if is_read_request (snd (snd x)) then 1 else 0) \<and>
      length (durations bulk_tag (sections x)) = (if is_read_request (snd (snd x)) then 1 else 0)" for x
    by (cases x rule: sections.cases) (simp_all add: durations_def tag_defs)
  then show "int (length (durations open_tag (concat (map sections reqs)))) = served is_open_request reqs"
    "int (length (durations close_tag (concat (map sections reqs)))) = served is_close_request reqs"
    "int (length (durations read_tag (concat (map sections reqs)))) = served is_read_request reqs"
    "int (length (durations bulk_tag (concat (map sections reqs)))) = served is_read_request reqs"
    by (induction reqs) (auto simp: served_def durations_append durations_def [where cs = "[]"])
qed

lemma served_le: "served P reqs \<le> int (length reqs)"
  by (simp add: served_def)

lemma stat_rows_member:
  assumes "k \<in> set keys" and "stat_table t k = Some s"
  shows "\<exists>a b. stat_rows fmt w1 w2 w3 w4 keys t = a @ stat_row fmt w1 w2 w3 w4 k s @ b"
proof -
  from split_list [OF assms(1)] obtain xs ys where "keys = xs @ k # ys" by blast
  with assms(2) show ?thesis
    by (intro exI [of _ "stat_rows fmt w1 w2 w3 w4 xs t"] exI [of _ "stat_rows fmt w1 w2 w3 w4 ys t"]) (simp add: stat_rows_def)
qed

lemma print_all_stats_member:
  assumes "k \<in> set keys" and "stat_table t k = Some s"
  shows "\<exists>a b. print_all_stats fmt e keys t = a @ stat_row fmt 75 12 18 15 k s @ b"
proof -
  from stat_rows_member [OF assms, of fmt 75 12 18 15] obtain a b where
    ab: "stat_rows fmt 75 12 18 15 keys t = a @ stat_row fmt 75 12 18 15 k s @ b" by blast
  show ?thesis unfolding print_all_stats_def ab by (metis append_assoc)
qed

lemma record_calls_present:
  "durations tag cs \<noteq> [] \<Longrightarrow> tag \<in> dom (stat_table (record_calls cs t))"
proof -
  have keep: "tag \<in> dom (stat_table t) \<Longrightarrow> tag \<in> dom (stat_table (record_calls cs t))" for cs t
    by (induction cs t rule: record_calls.induct) (auto simp: TimerGuard_end_stat)
  show "durations tag cs \<noteq> [] \<Longrightarrow> tag \<in> dom (stat_table (record_calls cs t))"
  proof (induction cs t rule: record_calls.induct)
    case (2 k g us cs t)
    show ?case
    proof (cases "g = tag")
      case True
      with keep [of "TimerGuard_end k g us t" cs] show ?thesis by (simp add: TimerGuard_end_stat)
    next
      case False
      with 2 show ?thesis by (simp add: durations_def)
    qed
  qed (simp add: durations_def)
qed

section \<open>Properties\<close>

lemma timed_kind_count:
  "(tag, P) \<in> set timed_kinds \<Longrightarrow> int (length (durations tag (concat (map sections reqs)))) = served P reqs"
  using section_counts [of reqs] by (auto simp: timed_kinds_def)

text \<open>
  C36: the statistics a server prints are those of the requests it has served. After any sequence of
  requests a fresh server process has answered, the count of each timed section is the number of
  requests of its kind, its total is the sum of their durations, and a statistics request prints a row
  with these two numbers for every kind of which there was a request.
\<close>

theorem server_statistics_exact:
  assumes "serve_requests ops hg fmt order reqs \<lparr>sp_server = s, sp_timer = timer_initial, sp_stdout = txt\<rparr> = Inr (rs, ps)"
    and "int (length reqs) < 2 ^ 64" and "(tag, P) \<in> set timed_kinds"
    and "hg_get_input hg = HG_SUCCESS" and "set (order (sp_timer ps)) = dom (stat_table (sp_timer ps))"
    and "st = \<lparr>total_us = (\<Sum>us\<leftarrow>durations tag (concat (map sections reqs)). real_of_int us), calls = served P reqs\<rparr>"
  shows "index_value zero_stat (stat_table (sp_timer ps)) tag = st \<and> length rs = length reqs \<and>
    (server_step ops hg nvmepath)\<^sup>*\<^sup>* s (sp_server ps) \<and>
    (\<exists>ps'. serve_request ops hg fmt order tm tm2 Stats_Request ps = Inr (Stats_Reply \<lparr>stats_status = 0\<rparr>, ps') \<and>
       sp_server ps' = sp_server ps \<and>
       (served P reqs > 0 \<longrightarrow> (\<exists>before after. sp_stdout ps' = before @ stat_row fmt 75 12 18 15 tag st @ after)))"
proof -
  let ?cs = "concat (map sections reqs)"
  have t: "sp_timer ps = record_calls ?cs timer_initial" and steps: "(server_step ops hg nvmepath)\<^sup>*\<^sup>* s (sp_server ps)"
    and l: "length rs = length reqs"
    using serve_requests_timer [OF assms(1), of nvmepath] by simp_all
  have "int (length (durations tag ?cs)) < 2 ^ 64"
    using timed_kind_count [OF assms(3), of reqs] served_le [of P reqs] assms(2) by linarith
  with record_calls_stat [of timer_initial tag ?cs] timed_kind_count [OF assms(3), of reqs]
  have st: "index_value zero_stat (stat_table (sp_timer ps)) tag = st"
    by (simp add: t assms(6) timer_initial_def zero_stat_def)
  let ?txt = "print_all_stats fmt (-1) (order (sp_timer ps)) (sp_timer ps)"
  let ?ps = "ps\<lparr>sp_stdout := sp_stdout ps @ ?txt\<rparr>"
  have srv: "serve_request ops hg fmt order tm tm2 Stats_Request ps = Inr (Stats_Reply \<lparr>stats_status = 0\<rparr>, ?ps)"
    using assms(4) by (simp add: serve_request_def hvac_trigger_srv_print_stats_handler_def)
  have "\<exists>before after. sp_stdout ?ps = before @ stat_row fmt 75 12 18 15 tag st @ after" if "served P reqs > 0"
  proof -
    from that timed_kind_count [OF assms(3), of reqs] have "durations tag ?cs \<noteq> []" by auto
    from record_calls_present [OF this, of timer_initial] st assms(5) have
      "tag \<in> set (order (sp_timer ps))" "stat_table (sp_timer ps) tag = Some st"
      by (auto simp: t [symmetric])
    from print_all_stats_member [OF this, of fmt "-1"] obtain a b where "?txt = a @ stat_row fmt 75 12 18 15 tag st @ b" by blast
    then show ?thesis by (intro exI [of _ "sp_stdout ps @ a"] exI [of _ b]) simp
  qed
  with st steps l srv show ?thesis by auto
qed

theorem server_statistics_exact_witness:
  "\<exists>rs ps. serve_requests linux_ops sample_mercury (\<lambda>x. ''0.00'') (\<lambda>t. [open_tag])
     [((1, 9), (0, 0), Open_Request \<lparr>open_path = ''/data/a''\<rparr>)]
     \<lparr>sp_server = server_init sample_os, sp_timer = timer_initial, sp_stdout = []\<rparr> = Inr (rs, ps) \<and>
   index_value zero_stat (stat_table (sp_timer ps)) open_tag = \<lparr>total_us = 9, calls = 1\<rparr>"
proof -
  let ?reqs = "[((1, 9), (0, 0), Open_Request \<lparr>open_path = ''/data/a''\<rparr>)]"
  let ?ps = "\<lparr>sp_server = opened_server Mover_Locking, sp_timer = TimerGuard_end 1 open_tag 9 timer_initial, sp_stdout = []\<rparr>"
  have r: "serve_requests linux_ops sample_mercury (\<lambda>x. ''0.00'') (\<lambda>t. [open_tag]) ?reqs
     \<lparr>sp_server = server_init sample_os, sp_timer = timer_initial, sp_stdout = []\<rparr> =
     Inr ([Open_Reply \<lparr>open_ret_status = 3\<rparr>], ?ps)"
    by (simp add: serve_request_def serve_open_def HVAC_TIMING_def untimed_def sample_open)
  have "hg_get_input sample_mercury = HG_SUCCESS" by (simp add: sample_mercury_def HG_SUCCESS_def)
  moreover have "(open_tag, is_open_request) \<in> set timed_kinds" by (simp add: timed_kinds_def)
  moreover have "dom (stat_table (sp_timer ?ps)) = {open_tag}" by (simp add: TimerGuard_end_stat timer_initial_def)
  ultimately have "index_value zero_stat (stat_table (sp_timer ?ps)) open_tag =
      \<lparr>total_us = (\<Sum>us\<leftarrow>durations open_tag (concat (map sections ?reqs)). real_of_int us), calls = served is_open_request ?reqs\<rparr>"
    using server_statistics_exact [OF r, of open_tag is_open_request, OF _ _ _ _ refl, of "[]" "(0, 0)" "(0, 0)"] by simp
  also have "\<dots> = \<lparr>total_us = 9, calls = 1\<rparr>" by (simp add: durations_def served_def)
  finally show ?thesis using r by blast
qed

end
