(* ===== verification/HVAC_Client_Stats.thy ===== *)
theory HVAC_Client_Stats
  imports HVAC_Server_Stats HVAC_Client
begin

text \<open>
  The client with its timing guards (\<open>mthvac_client.cpp\<close>, \<open>mthvac_comm_client.cpp\<close>). The
  functions of \<open>HVAC_Client\<close> and \<open>HVAC_Comm_Client\<close> leave the macro \<open>HVAC_TIMING\<close> out; here they are
  written again with every guard in its scope. Erasing the timers gives back the functions without
  guards, and the recorded statistics are related as the scopes are nested, except that the guard of
  the last callback may be late.
\<close>

section \<open>Sections\<close>

datatype client_tag =
    Track_Total | Open_Dispatch | Read_Total | Read_Dispatch | Pread_Total | Pread_Dispatch
  | Tracked_Total | Get_Path_Total
  | Opening_Total | Ready_Total | Wait_Ready | Open_Cb | Read_Cb | Wait_Op | Wait_Done
  | Gen_Close | Open_Lookup | Open_Wait | Gen_Read | Read_Wait_Ready | Read_Wait_Op

fun tag_text :: "client_tag \<Rightarrow> string" where
  "tag_text Track_Total = ''CLIENT_(hvac_track_file)_total''"
| "tag_text Open_Dispatch = ''CLIENT_(comm_gen_open_rpc)_dispatch''"
| "tag_text Read_Total = ''CLIENT_(hvac_remote_read)_total''"
| "tag_text Read_Dispatch = ''CLIENT_(hvac_remote_read)_dispatch''"
| "tag_text Pread_Total = ''CLIENT_(hvac_remote_pread)_total''"
| "tag_text Pread_Dispatch = ''CLIENT_(hvac_remote_pread)_dispatch''"
| "tag_text Tracked_Total = ''CLIENT_(hvac_file_tracked)_total''"
| "tag_text Get_Path_Total = ''CLIENT_(hvac_get_path)_total''"
| "tag_text Opening_Total = ''HvacCommClient_(hvac_set_fd_opening)_total''"
| "tag_text Ready_Total = ''HvacCommClient_(hvac_set_fd_ready)_total''"
| "tag_text Wait_Ready = ''HvacCommClient_(hvac_wait_fd_ready)_total''"
| "tag_text Open_Cb = ''HvacCommClient_(hvac_open_cb)_total''"
| "tag_text Read_Cb = ''HvacCommClient_(hvac_read_cb)_total''"
| "tag_text Wait_Op = ''HvacCommClient_(hvac_wait_for_operation)_total''"
| "tag_text Wait_Done = ''HvacCommClient_(hvac_wait_for_operation)_wait_for_done''"
| "tag_text Gen_Close = ''HvacCommClient_(hvac_client_comm_gen_close_rpc)_total''"
| "tag_text Open_Lookup = ''HvacCommClient_(hvac_client_comm_gen_open_rpc)_addr_lookup''"
| "tag_text Open_Wait = ''HvacCommClient_(hvac_client_comm_gen_open_rpc)_wait_for_operation''"
| "tag_text Gen_Read = ''HvacCommClient_(hvac_client_comm_gen_read_rpc)_total''"
| "tag_text Read_Wait_Ready = ''HvacCommClient_(hvac_client_comm_gen_read_rpc)_wait_fd_ready''"
| "tag_text Read_Wait_Op = ''HvacCommClient_(hvac_client_comm_gen_read_rpc)_wait_for_operation''"

text \<open>
  The state of a timed computation: the statistics, the number of sections that have ended, and the
  section of a callback whose guard has not recorded yet. A guard records at the end of its scope, also
  when the scope is left by a \<open>return\<close>; a fault records nothing. The callbacks run on the
  progress thread, one after the other, and wake the waiting thread before they return, so the guard of
  a callback records at any time after that and before the next callback. \<open>clk k\<close> is what the exchange
  loop and the clock do at the end of section \<open>k\<close>, and whether such a guard has been faster.
\<close>

type_synonym clock = "nat \<Rightarrow> timing \<times> bool"
type_synonym timers = "timer_state \<times> nat \<times> client_tag option"
type_synonym 'a timed = "timers \<Rightarrow> ('a \<times> timers) run"

definition plain :: "'a run \<Rightarrow> 'a timed" where
  "plain x s = bind_run x (\<lambda>r. Inr (r, s))"

definition andthen :: "'a timed \<Rightarrow> ('a \<Rightarrow> 'b timed) \<Rightarrow> 'b timed" where
  "andthen x f s = bind_run (x s) (\<lambda>(r, s'). f r s')"

definition end_section :: "clock \<Rightarrow> client_tag \<Rightarrow> timers \<Rightarrow> timers" where
  "end_section clk tag = (\<lambda>(t, k, p). (TimerGuard_end (fst (fst (clk k))) (tag_text tag) (snd (fst (clk k))) t, Suc k, p))"

definition end_callback :: "clock \<Rightarrow> timers \<Rightarrow> timers" where
  "end_callback clk = (\<lambda>(t, k, p). case p of None \<Rightarrow> (t, k, None) | Some tag \<Rightarrow> end_section clk tag (t, k, None))"

definition guarded :: "clock \<Rightarrow> client_tag \<Rightarrow> 'a timed \<Rightarrow> 'a timed" where
  "guarded clk tag x s =
     bind_run (x s) (\<lambda>(r, s'). Inr (r, end_section clk tag (if snd (clk (fst (snd s'))) then end_callback clk s' else s')))"

text \<open>What starts when the callback before it has returned, and a callback with a guard.\<close>

definition after_callback :: "clock \<Rightarrow> 'a timed \<Rightarrow> 'a timed" where
  "after_callback clk x s = x (end_callback clk s)"

definition callback_guarded :: "clock \<Rightarrow> client_tag \<Rightarrow> 'a timed \<Rightarrow> 'a timed" where
  "callback_guarded clk tag x = after_callback clk (\<lambda>s. bind_run (x s) (\<lambda>(r, (t, k, p)). Inr (r, (t, k, Some tag))))"

section \<open>The communication layer\<close>

definition timed_set_fd_opening :: "clock \<Rightarrow> int \<Rightarrow> client \<Rightarrow> client timed" where
  "timed_set_fd_opening clk fd c = guarded clk Opening_Total (plain (Inr (c\<lparr>fds := hvac_set_fd_opening fd (fds c)\<rparr>)))"

definition timed_wait_fd_ready :: "clock \<Rightarrow> int \<Rightarrow> wakeup list \<Rightarrow> fd_table \<Rightarrow> (bool \<times> fd_table) timed" where
  "timed_wait_fd_ready clk fd wk t = guarded clk Wait_Ready (plain (hvac_wait_fd_ready fd wk t))"

definition timed_wait_for_operation :: "clock \<Rightarrow> hvac_sync_context \<Rightarrow> int timed" where
  "timed_wait_for_operation clk ctx =
     guarded clk Wait_Op (guarded clk Wait_Done (plain (hvac_wait_for_operation ctx)))"

definition timed_open_cb ::
    "clock \<Rightarrow> int \<Rightarrow> hvac_open_out_t \<Rightarrow> int \<Rightarrow> hvac_sync_context \<Rightarrow> client \<Rightarrow> (hvac_sync_context \<times> client) timed" where
  "timed_open_cb clk info_ret out local_fd ctx c =
     callback_guarded clk Open_Cb (\<lambda>s. assert_run (info_ret = HG_SUCCESS) (
       let fd = int32 local_fd in
       andthen (if open_ret_status out > 0
                then guarded clk Ready_Total (plain (Inr (c\<lparr>fd_redir_map := (fd_redir_map c)(fd \<mapsto> open_ret_status out),
                       fds := hvac_set_fd_ready fd (fds c)\<rparr>)))
                else plain (Inr (c\<lparr>fds := hvac_set_fd_error fd (fds c)\<rparr>)))
         (\<lambda>c'. plain (Inr (signal_sync (open_ret_status out) ctx, c'))) s))"

definition timed_read_cb ::
    "'n client_env \<Rightarrow> clock \<Rightarrow> int \<Rightarrow> hvac_rpc_out_t \<Rightarrow> hvac_sync_context \<Rightarrow> hvac_sync_context timed" where
  "timed_read_cb E clk info_ret out ctx = callback_guarded clk Read_Cb (plain (hvac_read_cb E info_ret out ctx))"

text \<open>
  The callback runs on the progress thread up to its signal before the wait can end. What it records
  in inner scopes therefore comes before the sections of the wait, its own section need not.
\<close>

definition timed_gen_open_rpc ::
    "'n client_env \<Rightarrow> clock \<Rightarrow> int \<Rightarrow> string \<Rightarrow> int \<Rightarrow> 'n \<times> client \<Rightarrow> (int \<times> 'n \<times> client) timed" where
  "timed_gen_open_rpc E clk svr_hash path fd = (\<lambda>(n, c).
     andthen (timed_set_fd_opening clk fd c) (\<lambda>c0.
     andthen (guarded clk Open_Lookup (plain (lookup_server E svr_hash c0))) (\<lambda>(addr, c1) s.
     hvac_comm_create_handle E addr (
     let (d, n') = fwd_open E n addr \<lparr>open_path = path\<rparr> in
     case d of
       Forward_Error r \<Rightarrow>
         hvac_comm_free_addr E addr (plain (Inr (-1, n', c1\<lparr>fds := hvac_set_fd_error fd (fds c1)\<rparr>)) s)
     | Never_Completes \<Rightarrow>
         hvac_comm_free_addr E addr (
         andthen (guarded clk Open_Wait (timed_wait_for_operation clk new_sync_context)) (\<lambda>r. plain (Inr (r, n', c1))) s)
     | Completes info out \<Rightarrow>
         hvac_comm_free_addr E addr (
         andthen (timed_open_cb clk info out (uint32 fd) new_sync_context c1) (\<lambda>(ctx, c2).
         andthen (guarded clk Open_Wait (timed_wait_for_operation clk ctx)) (\<lambda>r. plain (Inr (r, n', c2)))) s)))))"

definition timed_gen_read_rpc ::
    "'n client_env \<Rightarrow> clock \<Rightarrow> int \<Rightarrow> int \<Rightarrow> bool \<Rightarrow> int \<Rightarrow> int \<Rightarrow> wakeup list \<Rightarrow> 'n \<times> client \<Rightarrow>
     ((int \<times> byte list) \<times> 'n \<times> client) timed" where
  "timed_gen_read_rpc E clk svr_hash localfd buf_ok count offset wk = (\<lambda>(n, c).
     guarded clk Gen_Read (
     andthen (guarded clk Read_Wait_Ready (timed_wait_fd_ready clk localfd wk (fds c))) (\<lambda>(ready, t).
     let c0 = c\<lparr>fds := t\<rparr> in
     if \<not> ready then plain (Inr ((-1, []), n, c0))
     else case fd_redir_map c0 localfd of
       None \<Rightarrow> plain (Inr ((-1, []), n, c0))
     | Some rfd \<Rightarrow>
       if rfd = 0 then plain (Inr ((-1, []), n, c0))
       else
         andthen (plain (lookup_server E svr_hash c0)) (\<lambda>(addr, c1) s.
         assert_run buf_ok (
         hvac_comm_create_handle E addr (
         assert_run (cl_get_info E) (
         assert_run (cl_bulk_create E (uint64 count) = HG_SUCCESS) (
         let (d, n') = fwd_read E n addr
               \<lparr>input_val = int32 count, bulk_size = uint64 count, accessfd = rfd, rpc_offset = offset\<rparr> in
         case d of
           Forward_Error r \<Rightarrow> hvac_comm_free_addr E addr (plain (Inr ((-1, []), n', c1)) s)
         | Never_Completes \<Rightarrow>
             hvac_comm_free_addr E addr (
             andthen (guarded clk Read_Wait_Op (timed_wait_for_operation clk new_sync_context))
               (\<lambda>r. plain (Inr ((r, []), n', c1))) s)
         | Completes info (out, bytes) \<Rightarrow>
             hvac_comm_free_addr E addr (
             andthen (timed_read_cb E clk info out new_sync_context) (\<lambda>ctx.
             andthen (guarded clk Read_Wait_Op (timed_wait_for_operation clk ctx))
               (\<lambda>r. plain (Inr ((r, bytes), n', c1)))) s)))))))))"

definition timed_gen_seek_rpc ::
    "'n client_env \<Rightarrow> clock \<Rightarrow> int \<Rightarrow> int \<Rightarrow> int \<Rightarrow> int \<Rightarrow> 'n \<times> client \<Rightarrow> (int \<times> 'n \<times> client) timed" where
  "timed_gen_seek_rpc E clk svr_hash fd offset whence = (\<lambda>(n, c).
     andthen (plain (lookup_server E svr_hash c)) (\<lambda>(addr, c1) s.
     hvac_comm_create_handle E addr (
     let rfd = index_value 0 (fd_redir_map c1) fd;
         c2 = c1\<lparr>fd_redir_map := index_insert 0 (fd_redir_map c1) fd\<rparr>;
         (d, n') = fwd_seek E n addr \<lparr>seek_fd = rfd, seek_offset = offset, seek_whence = whence\<rparr> in
     case d of
       Forward_Error r \<Rightarrow> Inl Assertion_Failed
     | Never_Completes \<Rightarrow>
         hvac_comm_free_addr E addr (
         andthen (timed_wait_for_operation clk new_sync_context) (\<lambda>r. plain (Inr (r, n', c2))) s)
     | Completes info out \<Rightarrow>
         hvac_comm_free_addr E addr (
         after_callback clk
           (andthen (timed_wait_for_operation clk (hvac_seek_cb out new_sync_context)) (\<lambda>r. plain (Inr (r, n', c2)))) s))))"

definition timed_gen_close_rpc ::
    "'n client_env \<Rightarrow> clock \<Rightarrow> int \<Rightarrow> int \<Rightarrow> 'n \<times> client \<Rightarrow> ('n \<times> client) timed" where
  "timed_gen_close_rpc E clk svr_hash fd nc = guarded clk Gen_Close (plain (hvac_client_comm_gen_close_rpc E svr_hash fd nc))"

section \<open>The client library\<close>

definition timed_file_tracked :: "clock \<Rightarrow> client \<Rightarrow> int \<Rightarrow> bool timed" where
  "timed_file_tracked clk c fd = guarded clk Tracked_Total (plain (Inr (hvac_file_tracked c fd)))"

definition timed_get_path :: "clock \<Rightarrow> client \<Rightarrow> int \<Rightarrow> string option timed" where
  "timed_get_path clk c fd = guarded clk Get_Path_Total (plain (Inr (hvac_get_path c fd)))"

definition timed_track_file ::
    "'n client_env \<Rightarrow> clock \<Rightarrow> string \<Rightarrow> 32 word \<Rightarrow> int \<Rightarrow> 'n \<times> client \<Rightarrow> (bool \<times> 'n \<times> client) timed" where
  "timed_track_file E clk path flags fd = (\<lambda>(n, c).
     guarded clk Track_Total (
     if contains_str ''.ports.cfg.'' path then plain (Inr (False, n, c))
     else if and flags O_ACCMODE = O_WRONLY then plain (Inr (False, n, c))
     else if and flags O_APPEND \<noteq> 0 then plain (Inr (False, n, c))
     else case track_path E c path of
       None \<Rightarrow> plain (Inr (False, n, c))
     | Some p \<Rightarrow>
         andthen (plain (ensure_mercury E (c\<lparr>fd_map := (fd_map c)(fd \<mapsto> p)\<rparr>))) (\<lambda>c1.
         andthen (plain (host_of E c1 p)) (\<lambda>host.
         andthen (guarded clk Open_Dispatch (timed_gen_open_rpc E clk host p fd (n, c1))) (\<lambda>(open_result, n', c2).
         plain (Inr (\<not> open_result < 0, n', c2)))))))"

definition timed_remote_read ::
    "'n client_env \<Rightarrow> clock \<Rightarrow> int \<Rightarrow> bool \<Rightarrow> int \<Rightarrow> wakeup list \<Rightarrow> 'n \<times> client \<Rightarrow>
     ((int \<times> byte list) \<times> 'n \<times> client) timed" where
  "timed_remote_read E clk fd buf_ok count wk = (\<lambda>(n, c).
     guarded clk Read_Total (
     andthen (timed_file_tracked clk c fd) (\<lambda>tracked.
     if \<not> tracked then plain (Inr ((-1, []), n, c))
     else
       andthen (plain (host_of E c (the (fd_map c fd)))) (\<lambda>host.
       guarded clk Read_Dispatch (timed_gen_read_rpc E clk host fd buf_ok (int64 count) (-1) wk (n, c))))))"

definition timed_remote_pread ::
    "'n client_env \<Rightarrow> clock \<Rightarrow> int \<Rightarrow> bool \<Rightarrow> int \<Rightarrow> int \<Rightarrow> wakeup list \<Rightarrow> 'n \<times> client \<Rightarrow>
     ((int \<times> byte list) \<times> 'n \<times> client) timed" where
  "timed_remote_pread E clk fd buf_ok count offset wk = (\<lambda>(n, c).
     guarded clk Pread_Total (
     andthen (timed_file_tracked clk c fd) (\<lambda>tracked.
     if \<not> tracked then plain (Inr ((-1, []), n, c))
     else
       (let c1 = c\<lparr>fd_redir_map := index_insert 0 (fd_redir_map c) fd\<rparr> in
        if index_value 0 (fd_redir_map c) fd = 0 then plain (Inr ((-1, []), n, c1))
        else andthen (plain (host_of E c1 (the (fd_map c1 fd)))) (\<lambda>host.
             guarded clk Pread_Dispatch (timed_gen_read_rpc E clk host fd buf_ok (int64 count) offset wk (n, c1)))))))"

definition timed_remote_lseek ::
    "'n client_env \<Rightarrow> clock \<Rightarrow> int \<Rightarrow> int \<Rightarrow> int \<Rightarrow> 'n \<times> client \<Rightarrow> (int \<times> 'n \<times> client) timed" where
  "timed_remote_lseek E clk fd offset whence = (\<lambda>(n, c).
     andthen (timed_file_tracked clk c fd) (\<lambda>tracked.
     if \<not> tracked then plain (Inr (-1, n, c))
     else andthen (plain (host_of E c (the (fd_map c fd)))) (\<lambda>host.
          timed_gen_seek_rpc E clk host fd offset whence (n, c))))"

definition timed_remote_close :: "'n client_env \<Rightarrow> clock \<Rightarrow> int \<Rightarrow> 'n \<times> client \<Rightarrow> ('n \<times> client) timed" where
  "timed_remote_close E clk fd = (\<lambda>(n, c).
     andthen (timed_file_tracked clk c fd) (\<lambda>tracked.
     if \<not> tracked then plain (Inr (n, c))
     else andthen (plain (host_of E c (the (fd_map c fd)))) (\<lambda>host. timed_gen_close_rpc E clk host fd (n, c))))"

definition timed_remove_fd :: "'n client_env \<Rightarrow> clock \<Rightarrow> int \<Rightarrow> 'n \<times> client \<Rightarrow> (bool \<times> 'n \<times> client) timed" where
  "timed_remove_fd E clk fd nc =
     andthen (timed_remote_close E clk fd nc) (\<lambda>(n, c).
     plain (Inr (fd_map c fd \<noteq> None, n, c\<lparr>fd_map := (fd_map c)(fd := None)\<rparr>)))"

section \<open>Sequences of calls\<close>

datatype client_call =
    Track_Call string "32 word" int
  | Read_Call int bool int "wakeup list"
  | Pread_Call int bool int int "wakeup list"
  | Lseek_Call int int int
  | Remove_Call int
  | Path_Call int

datatype call_result =
    Tracked bool
  | Bytes int "byte list"
  | Position int
  | Removed bool
  | Path "string option"

fun run_call :: "'n client_env \<Rightarrow> client_call \<Rightarrow> 'n \<times> client \<Rightarrow> (call_result \<times> 'n \<times> client) run" where
  "run_call E (Track_Call path flags fd) nc = bind_run (hvac_track_file E path flags fd nc) (\<lambda>(b, x). Inr (Tracked b, x))"
| "run_call E (Read_Call fd ok count wk) nc = bind_run (hvac_remote_read E fd ok count wk nc) (\<lambda>((r, d), x). Inr (Bytes r d, x))"
| "run_call E (Pread_Call fd ok count off wk) nc =
     bind_run (hvac_remote_pread E fd ok count off wk nc) (\<lambda>((r, d), x). Inr (Bytes r d, x))"
| "run_call E (Lseek_Call fd off whence) nc = bind_run (hvac_remote_lseek E fd off whence nc) (\<lambda>(r, x). Inr (Position r, x))"
| "run_call E (Remove_Call fd) nc = bind_run (hvac_remove_fd E fd nc) (\<lambda>(b, x). Inr (Removed b, x))"
| "run_call E (Path_Call fd) nc = Inr (Path (hvac_get_path (snd nc) fd), nc)"

fun timed_call :: "'n client_env \<Rightarrow> clock \<Rightarrow> client_call \<Rightarrow> 'n \<times> client \<Rightarrow> (call_result \<times> 'n \<times> client) timed" where
  "timed_call E clk (Track_Call path flags fd) nc = andthen (timed_track_file E clk path flags fd nc) (\<lambda>(b, x). plain (Inr (Tracked b, x)))"
| "timed_call E clk (Read_Call fd ok count wk) nc =
     andthen (timed_remote_read E clk fd ok count wk nc) (\<lambda>((r, d), x). plain (Inr (Bytes r d, x)))"
| "timed_call E clk (Pread_Call fd ok count off wk) nc =
     andthen (timed_remote_pread E clk fd ok count off wk nc) (\<lambda>((r, d), x). plain (Inr (Bytes r d, x)))"
| "timed_call E clk (Lseek_Call fd off whence) nc =
     andthen (timed_remote_lseek E clk fd off whence nc) (\<lambda>(r, x). plain (Inr (Position r, x)))"
| "timed_call E clk (Remove_Call fd) nc = andthen (timed_remove_fd E clk fd nc) (\<lambda>(b, x). plain (Inr (Removed b, x)))"
| "timed_call E clk (Path_Call fd) nc = andthen (timed_get_path clk (snd nc) fd) (\<lambda>p. plain (Inr (Path p, nc)))"

fun run_calls :: "'n client_env \<Rightarrow> client_call list \<Rightarrow> 'n \<times> client \<Rightarrow> (call_result list \<times> 'n \<times> client) run" where
  "run_calls E [] nc = Inr ([], nc)"
| "run_calls E (k # ks) nc =
     bind_run (run_call E k nc) (\<lambda>(r, x). bind_run (run_calls E ks x) (\<lambda>(rs, y). Inr (r # rs, y)))"

fun timed_calls ::
    "'n client_env \<Rightarrow> clock \<Rightarrow> client_call list \<Rightarrow> 'n \<times> client \<Rightarrow> (call_result list \<times> 'n \<times> client) timed" where
  "timed_calls E clk [] nc = plain (Inr ([], nc))"
| "timed_calls E clk (k # ks) nc =
     andthen (timed_call E clk k nc) (\<lambda>(r, x). andthen (timed_calls E clk ks x) (\<lambda>(rs, y). plain (Inr (r # rs, y))))"

section \<open>Erasing the timers\<close>

definition erases :: "'a timed \<Rightarrow> 'a run \<Rightarrow> bool" where
  "erases x y \<longleftrightarrow> (\<forall>s. map_sum id fst (x s) = y)"

named_theorems erase_intros "a timed computation and the one without timers"

lemma erases_plain [erase_intros]: "erases (plain y) y"
  by (cases y) (simp_all add: erases_def plain_def)

lemma erasesD: "erases x y \<Longrightarrow> map_sum id fst (x s) = y"
  unfolding erases_def by blast

lemma erases_guarded [erase_intros]: "erases x y \<Longrightarrow> erases (guarded clk tag x) y"
  unfolding erases_def
proof
  fix s
  assume "\<forall>s. map_sum id fst (x s) = y"
  then have "map_sum id fst (x s) = y" by blast
  then show "map_sum id fst (guarded clk tag x s) = y" by (cases "x s") (auto simp: guarded_def)
qed

lemma erases_after [erase_intros]: "erases x y \<Longrightarrow> erases (after_callback clk x) y"
  unfolding erases_def after_callback_def by blast

lemma erases_callback [erase_intros]: "erases x y \<Longrightarrow> erases (callback_guarded clk tag x) y"
  unfolding callback_guarded_def
proof (rule erases_after)
  assume x: "erases x y"
  show "erases (\<lambda>s. bind_run (x s) (\<lambda>(r, (t, k, p)). Inr (r, (t, k, Some tag)))) y"
    unfolding erases_def
  proof
    fix s
    from erasesD [OF x, of s] show "map_sum id fst (bind_run (x s) (\<lambda>(r, (t, k, p)). Inr (r, (t, k, Some tag)))) = y"
      by (cases "x s") auto
  qed
qed

lemma erases_andthen [erase_intros]:
  assumes "erases x y" and "\<And>r. erases (f r) (g r)"
  shows "erases (andthen x f) (bind_run y g)"
  unfolding erases_def
proof
  fix s
  show "map_sum id fst (andthen x f s) = bind_run y g"
    using erasesD [OF assms(1), of s] erasesD [OF assms(2)] by (cases "x s") (auto simp: andthen_def)
qed

lemma erases_create [erase_intros]:
  "erases x y \<Longrightarrow> erases (\<lambda>s. hvac_comm_create_handle E a (x s)) (hvac_comm_create_handle E a y)"
  by (simp add: erases_def hvac_comm_create_handle_def assert_run_def)

lemma erases_free [erase_intros]:
  "erases x y \<Longrightarrow> erases (\<lambda>s. hvac_comm_free_addr E a (x s)) (hvac_comm_free_addr E a y)"
  by (simp add: erases_def hvac_comm_free_addr_def assert_run_def)

lemma erases_assert [erase_intros]: "erases x y \<Longrightarrow> erases (\<lambda>s. assert_run b (x s)) (assert_run b y)"
  by (simp add: erases_def assert_run_def)

lemma erases_fault [erase_intros]: "erases (\<lambda>s. Inl e) (Inl e)"
  by (simp add: erases_def)

lemma erases_if [erase_intros]: "erases x y \<Longrightarrow> erases x' y' \<Longrightarrow> erases (if b then x else x') (if b then y else y')"
  by simp

lemma erases_prod [erase_intros]:
  "(\<And>a b. erases (f a b) (g a b)) \<Longrightarrow> erases (case p of (a, b) \<Rightarrow> f a b) (case p of (a, b) \<Rightarrow> g a b)"
  by (cases p) simp

lemma erases_prod_state [erase_intros]:
  "(\<And>a b. erases (\<lambda>s. f a b s) (g a b)) \<Longrightarrow> erases (\<lambda>s. case p of (a, b) \<Rightarrow> f a b s) (case p of (a, b) \<Rightarrow> g a b)"
  by (cases p) simp

lemma erases_prod_app [erase_intros]:
  "(\<And>a b. erases (f a b z) (g a b z)) \<Longrightarrow> erases ((case p of (a, b) \<Rightarrow> f a b) z) ((case p of (a, b) \<Rightarrow> g a b) z)"
  by (cases p) simp

lemma erases_option [erase_intros]:
  "erases x x' \<Longrightarrow> (\<And>a. erases (y a) (y' a)) \<Longrightarrow>
     erases (case v of None \<Rightarrow> x | Some a \<Rightarrow> y a) (case v of None \<Rightarrow> x' | Some a \<Rightarrow> y' a)"
  by (cases v) simp_all

lemma erases_delivery [erase_intros]:
  "(\<And>r. erases (x r) (x' r)) \<Longrightarrow> erases y y' \<Longrightarrow> (\<And>i p. erases (z i p) (z' i p)) \<Longrightarrow>
     erases (\<lambda>s. case d of Forward_Error r \<Rightarrow> x r s | Never_Completes \<Rightarrow> y s | Completes i p \<Rightarrow> z i p s)
       (case d of Forward_Error r \<Rightarrow> x' r | Never_Completes \<Rightarrow> y' | Completes i p \<Rightarrow> z' i p)"
  by (cases d) simp_all

lemma erases_wait_ready [erase_intros]: "erases (timed_wait_fd_ready clk fd wk t) (hvac_wait_fd_ready fd wk t)"
  unfolding timed_wait_fd_ready_def by (intro erase_intros)

lemma erases_wait_op [erase_intros]: "erases (timed_wait_for_operation clk ctx) (hvac_wait_for_operation ctx)"
  unfolding timed_wait_for_operation_def by (intro erase_intros)

lemma erases_read_cb [erase_intros]: "erases (timed_read_cb E clk i out ctx) (hvac_read_cb E i out ctx)"
  unfolding timed_read_cb_def by (intro erase_intros)

lemma erases_open_cb [erase_intros]: "erases (timed_open_cb clk i out fd ctx c) (hvac_open_cb i out fd ctx c)"
proof -
  have "hvac_open_cb i out fd ctx c = assert_run (i = HG_SUCCESS) (
      bind_run (if open_ret_status out > 0
          then Inr (c\<lparr>fd_redir_map := (fd_redir_map c)(int32 fd \<mapsto> open_ret_status out), fds := hvac_set_fd_ready (int32 fd) (fds c)\<rparr>)
          else Inr (c\<lparr>fds := hvac_set_fd_error (int32 fd) (fds c)\<rparr>))
        (\<lambda>c'. Inr (signal_sync (open_ret_status out) ctx, c')))"
    by (simp add: hvac_open_cb_def Let_def)
  then show ?thesis unfolding timed_open_cb_def Let_def by (simp only:) (intro erase_intros)
qed

lemma erases_gen_open [erase_intros]:
  "erases (timed_gen_open_rpc E clk h p fd nc) (hvac_client_comm_gen_open_rpc E h p fd nc)"
proof (cases nc)
  case (Pair n c)
  have "hvac_client_comm_gen_open_rpc E h p fd (n, c) =
      bind_run (Inr (c\<lparr>fds := hvac_set_fd_opening fd (fds c)\<rparr>)) (\<lambda>c0. bind_run (lookup_server E h c0) (\<lambda>(addr, c1).
        hvac_comm_create_handle E addr (
        case fwd_open E n addr \<lparr>open_path = p\<rparr> of (d, n') \<Rightarrow>
        (case d of
          Forward_Error r \<Rightarrow> hvac_comm_free_addr E addr (Inr (-1, n', c1\<lparr>fds := hvac_set_fd_error fd (fds c1)\<rparr>))
        | Never_Completes \<Rightarrow>
            hvac_comm_free_addr E addr (bind_run (hvac_wait_for_operation new_sync_context) (\<lambda>r. Inr (r, n', c1)))
        | Completes info out \<Rightarrow>
            hvac_comm_free_addr E addr (
            bind_run (hvac_open_cb info out (uint32 fd) new_sync_context c1) (\<lambda>(ctx, c2).
            bind_run (hvac_wait_for_operation ctx) (\<lambda>r. Inr (r, n', c2))))))))"
    by (simp add: hvac_client_comm_gen_open_rpc_def)
  then show ?thesis
    unfolding Pair timed_gen_open_rpc_def timed_set_fd_opening_def Let_def prod.case
    by (simp only:) (intro erase_intros)
qed

lemma erases_gen_read [erase_intros]:
  "erases (timed_gen_read_rpc E clk h fd ok count off wk nc) (hvac_client_comm_gen_read_rpc E h fd ok count off wk nc)"
  unfolding timed_gen_read_rpc_def hvac_client_comm_gen_read_rpc_def Let_def
  by (intro erase_intros)

lemma erases_gen_seek [erase_intros]:
  "erases (timed_gen_seek_rpc E clk h fd off whence nc) (hvac_client_comm_gen_seek_rpc E h fd off whence nc)"
  unfolding timed_gen_seek_rpc_def hvac_client_comm_gen_seek_rpc_def Let_def
  by (intro erase_intros)

lemma erases_gen_close [erase_intros]:
  "erases (timed_gen_close_rpc E clk h fd nc) (hvac_client_comm_gen_close_rpc E h fd nc)"
  unfolding timed_gen_close_rpc_def by (intro erase_intros)

lemma erases_track [erase_intros]: "erases (timed_track_file E clk path flags fd nc) (hvac_track_file E path flags fd nc)"
  unfolding timed_track_file_def hvac_track_file_def by (intro erase_intros)

lemma erases_get_path [erase_intros]: "erases (timed_get_path clk c fd) (Inr (hvac_get_path c fd))"
  unfolding timed_get_path_def by (intro erase_intros)

text \<open>The test whether a descriptor is tracked has no effect besides its section.\<close>

lemma erases_tracked:
  assumes "erases (f (fd_map c fd \<noteq> None)) y"
  shows "erases (andthen (timed_file_tracked clk c fd) f) y"
proof -
  have "erases (timed_file_tracked clk c fd) (Inr (fd_map c fd \<noteq> None))"
    unfolding timed_file_tracked_def hvac_file_tracked_def by (intro erase_intros)
  then have t: "map_sum id fst (timed_file_tracked clk c fd s) = Inr (fd_map c fd \<noteq> None)" for s by (rule erasesD)
  show ?thesis
    unfolding erases_def
  proof
    fix s
    from t [of s] obtain s' where "timed_file_tracked clk c fd s = Inr (fd_map c fd \<noteq> None, s')"
      by (cases "timed_file_tracked clk c fd s") auto
    then show "map_sum id fst (andthen (timed_file_tracked clk c fd) f s) = y"
      using erasesD [OF assms, of s'] by (simp add: andthen_def)
  qed
qed

lemma erases_remote_read [erase_intros]:
  "erases (timed_remote_read E clk fd ok count wk nc) (hvac_remote_read E fd ok count wk nc)"
proof (cases nc)
  case (Pair n c)
  show ?thesis
    unfolding Pair timed_remote_read_def hvac_remote_read_def prod.case
    by (intro erases_guarded erases_tracked) (cases "fd_map c fd"; simp; intro erase_intros)
qed

lemma erases_remote_pread [erase_intros]:
  "erases (timed_remote_pread E clk fd ok count off wk nc) (hvac_remote_pread E fd ok count off wk nc)"
proof (cases nc)
  case (Pair n c)
  show ?thesis
    unfolding Pair timed_remote_pread_def hvac_remote_pread_def prod.case Let_def
    by (intro erases_guarded erases_tracked) (cases "fd_map c fd"; simp; intro erase_intros impI conjI)
qed

lemma erases_remote_lseek [erase_intros]:
  "erases (timed_remote_lseek E clk fd off whence nc) (hvac_remote_lseek E fd off whence nc)"
proof (cases nc)
  case (Pair n c)
  show ?thesis
    unfolding Pair timed_remote_lseek_def hvac_remote_lseek_def prod.case
    by (intro erases_tracked) (cases "fd_map c fd"; simp; intro erase_intros)
qed

lemma erases_remote_close [erase_intros]: "erases (timed_remote_close E clk fd nc) (hvac_remote_close E fd nc)"
proof (cases nc)
  case (Pair n c)
  show ?thesis
    unfolding Pair timed_remote_close_def hvac_remote_close_def prod.case
    by (intro erases_tracked) (cases "fd_map c fd"; simp; intro erase_intros)
qed

lemma erases_remove_fd [erase_intros]: "erases (timed_remove_fd E clk fd nc) (hvac_remove_fd E fd nc)"
  unfolding timed_remove_fd_def hvac_remove_fd_def by (intro erase_intros)

lemma erases_call [erase_intros]: "erases (timed_call E clk k nc) (run_call E k nc)"
proof (cases k)
  case (Path_Call fd)
  have "run_call E k nc = bind_run (Inr (hvac_get_path (snd nc) fd)) (\<lambda>p. Inr (Path p, nc))" by (simp add: Path_Call)
  then show ?thesis unfolding Path_Call timed_call.simps by (simp only:) (intro erase_intros)
qed (simp_all only: timed_call.simps run_call.simps, (intro erase_intros)+)

lemma erases_calls: "erases (timed_calls E clk ks nc) (run_calls E ks nc)"
proof (induction ks arbitrary: nc)
  case Nil
  show ?case unfolding timed_calls.simps run_calls.simps by (intro erase_intros)
next
  case (Cons k ks)
  show ?case unfolding timed_calls.simps run_calls.simps by (intro erase_intros Cons.IH)
qed

section \<open>The recorded sections\<close>

text \<open>
  \<open>logs x S\<close>: whenever \<open>x\<close> ends without a fault, the sections it has recorded and left pending are,
  besides the one that was pending before, those of one of the lists in \<open>S\<close>.
\<close>

fun entries :: "clock \<Rightarrow> nat \<Rightarrow> client_tag list \<Rightarrow> (nat \<times> string \<times> int) list" where
  "entries clk k [] = []"
| "entries clk k (tag # ts) = (fst (fst (clk k)), tag_text tag, snd (fst (clk k))) # entries clk (Suc k) ts"

fun pending :: "client_tag option \<Rightarrow> client_tag list" where
  "pending None = []"
| "pending (Some tag) = [tag]"

definition late_ok :: "client_tag option \<Rightarrow> bool" where
  "late_ok p \<longleftrightarrow> p = None \<or> p = Some Open_Cb \<or> p = Some Read_Cb"

text \<open>The same tags, each as often.\<close>

definition permuted :: "'b list \<Rightarrow> 'b list \<Rightarrow> bool" where
  "permuted us vs \<longleftrightarrow> length us = length vs \<and> (\<forall>x. count_list us x = count_list vs x)"

definition recorded :: "clock \<Rightarrow> timers \<Rightarrow> client_tag list \<Rightarrow> timers \<Rightarrow> bool" where
  "recorded clk s us s' \<longleftrightarrow> (\<exists>ts. fst (snd s') = fst (snd s) + length ts \<and> fst s' = record_calls (entries clk (fst (snd s)) ts) (fst s) \<and>
     permuted (ts @ pending (snd (snd s'))) (us @ pending (snd (snd s))))"

definition logs :: "clock \<Rightarrow> 'a timed \<Rightarrow> client_tag list set \<Rightarrow> bool" where
  "logs clk x S \<longleftrightarrow> (\<forall>s r s'. x s = Inr (r, s') \<longrightarrow> late_ok (snd (snd s)) \<longrightarrow>
     late_ok (snd (snd s')) \<and> (\<exists>us \<in> S. recorded clk s us s'))"

lemma logsI:
  assumes "\<And>s r s'. x s = Inr (r, s') \<Longrightarrow> late_ok (snd (snd s)) \<Longrightarrow> late_ok (snd (snd s')) \<and> (\<exists>us \<in> S. recorded clk s us s')"
  shows "logs clk x S"
  using assms unfolding logs_def by blast

lemma logsD:
  assumes "logs clk x S" and "x s = Inr (r, s')" and "late_ok (snd (snd s))"
  obtains us where "us \<in> S" "recorded clk s us s'" "late_ok (snd (snd s'))"
  using assms unfolding logs_def by blast

lemma entries_append: "entries clk k (us @ vs) = entries clk k us @ entries clk (k + length us) vs"
  by (induction us arbitrary: k) simp_all

lemma recorded_refl [simp]: "recorded clk s [] s"
  unfolding recorded_def by (rule exI [of _ "[]"]) (simp add: permuted_def)

lemma recorded_trans:
  assumes "recorded clk s us s1" and "recorded clk s1 vs s2"
  shows "recorded clk s (us @ vs) s2"
proof -
  from assms obtain ts ts' where
    "fst (snd s1) = fst (snd s) + length ts \<and> fst s1 = record_calls (entries clk (fst (snd s)) ts) (fst s) \<and>
       permuted (ts @ pending (snd (snd s1))) (us @ pending (snd (snd s)))"
    "fst (snd s2) = fst (snd s1) + length ts' \<and> fst s2 = record_calls (entries clk (fst (snd s1)) ts') (fst s1) \<and>
       permuted (ts' @ pending (snd (snd s2))) (vs @ pending (snd (snd s1)))"
    unfolding recorded_def by blast
  moreover from this have "permuted ((ts @ ts') @ pending (snd (snd s2))) ((us @ vs) @ pending (snd (snd s)))"
    by (fastforce simp: permuted_def)
  ultimately show ?thesis
    unfolding recorded_def by (intro exI [of _ "ts @ ts'"]) (simp add: entries_append record_calls_append)
qed

lemma recorded_section: "recorded clk s [tag] (end_section clk tag s)"
  unfolding recorded_def by (cases s, rule exI [of _ "[tag]"]) (simp add: end_section_def permuted_def)

lemma recorded_callback: "recorded clk s [] (end_callback clk s)"
proof (cases s)
  case (fields t k p)
  show ?thesis
    unfolding recorded_def fields
    by (rule exI [of _ "pending p"]) (cases p; simp add: end_callback_def end_section_def permuted_def)
qed

lemma late_section [simp]: "snd (snd (end_section clk tag s)) = snd (snd s)"
  by (cases s) (simp add: end_section_def)

lemma late_callback [simp]: "late_ok (snd (snd (end_callback clk s)))"
  by (cases s) (simp add: end_callback_def end_section_def late_ok_def split: option.split)

definition conc :: "'b list set \<Rightarrow> 'b list set \<Rightarrow> 'b list set" where
  "conc S T = (\<Union>us \<in> S. (\<lambda>vs. us @ vs) ` T)"

named_theorems log_intros "the sections a timed computation records"

lemma logs_sub: "logs clk x S \<Longrightarrow> S \<subseteq> T \<Longrightarrow> logs clk x T"
  unfolding logs_def by blast

lemma logs_plain [log_intros]: "logs clk (plain y) {[]}"
  by (rule logsI) (cases y; simp add: plain_def)

lemma guarded_Inr:
  assumes "guarded clk tag x s = Inr (r, s')"
  obtains s1 where "x s = Inr (r, s1)"
    and "s' = end_section clk tag (if snd (clk (fst (snd s1))) then end_callback clk s1 else s1)"
  using assms by (cases "x s") (auto simp: guarded_def)

lemma logs_guarded [log_intros]: "logs clk x S \<Longrightarrow> logs clk (guarded clk tag x) (conc S {[tag]})"
proof (rule logsI)
  fix s r s'
  assume x: "logs clk x S" and l: "late_ok (snd (snd s))" and "guarded clk tag x s = Inr (r, s')"
  then obtain s1 where 1: "x s = Inr (r, s1)"
    and s': "s' = end_section clk tag (if snd (clk (fst (snd s1))) then end_callback clk s1 else s1)"
    by (elim guarded_Inr)
  from logsD [OF x 1 l] obtain us where us: "us \<in> S" "recorded clk s us s1" "late_ok (snd (snd s1))" .
  have "recorded clk s us (if snd (clk (fst (snd s1))) then end_callback clk s1 else s1)"
    using us(2) recorded_trans [OF us(2) recorded_callback] by simp
  from recorded_trans [OF this recorded_section, of tag] us(1,3)
  show "late_ok (snd (snd s')) \<and> (\<exists>us \<in> conc S {[tag]}. recorded clk s us s')"
    by (auto simp: s' conc_def)
qed

lemma logs_after [log_intros]: "logs clk x S \<Longrightarrow> logs clk (after_callback clk x) S"
proof (rule logsI)
  fix s r s'
  assume x: "logs clk x S" and "after_callback clk x s = Inr (r, s')"
  then have "x (end_callback clk s) = Inr (r, s')" by (simp add: after_callback_def)
  from logsD [OF x this late_callback] obtain us where "us \<in> S" "recorded clk (end_callback clk s) us s'" "late_ok (snd (snd s'))" .
  with recorded_trans [OF recorded_callback, of clk s us s'] show "late_ok (snd (snd s')) \<and> (\<exists>us \<in> S. recorded clk s us s')"
    by auto
qed

text \<open>A callback records nothing of its own section; the scopes in it are over before the guard is left behind.\<close>

definition flushed :: "'a timed \<Rightarrow> bool" where
  "flushed x \<longleftrightarrow> (\<forall>s r s'. x s = Inr (r, s') \<longrightarrow> snd (snd s) = None \<longrightarrow> snd (snd s') = None)"

lemma logs_callback:
  assumes x: "logs clk x S" and f: "flushed x" and tag: "tag = Open_Cb \<or> tag = Read_Cb"
  shows "logs clk (callback_guarded clk tag x) (conc S {[tag]})"
proof (rule logsI)
  fix s r s'
  assume "callback_guarded clk tag x s = Inr (r, s')"
  then obtain t k p where 1: "x (end_callback clk s) = Inr (r, (t, k, p))" and s': "s' = (t, k, Some tag)"
    by (cases "x (end_callback clk s)") (auto simp: callback_guarded_def after_callback_def)
  have "snd (snd (end_callback clk s)) = None"
    by (cases s) (simp add: end_callback_def end_section_def split: option.split)
  with f 1 have p: "p = None" unfolding flushed_def by fastforce
  from logsD [OF x 1 late_callback] obtain us where us: "us \<in> S" "recorded clk (end_callback clk s) us (t, k, p)" .
  have "recorded clk (t, k, p) [tag] s'"
    unfolding recorded_def by (rule exI [of _ "[]"]) (simp add: p s' permuted_def)
  from recorded_trans [OF recorded_trans [OF recorded_callback us(2)] this] us(1) tag
  show "late_ok (snd (snd s')) \<and> (\<exists>us \<in> conc S {[tag]}. recorded clk s us s')"
    by (auto simp: s' conc_def late_ok_def)
qed

lemma logs_andthen [log_intros]:
  assumes "logs clk x S" and "\<And>r. logs clk (f r) T"
  shows "logs clk (andthen x f) (conc S T)"
proof (rule logsI)
  fix s r s'
  assume l: "late_ok (snd (snd s))" and "andthen x f s = Inr (r, s')"
  then obtain r1 s1 where 1: "x s = Inr (r1, s1)" and 2: "f r1 s1 = Inr (r, s')"
    by (cases "x s") (auto simp: andthen_def)
  from logsD [OF assms(1) 1 l] obtain us where us: "us \<in> S" "recorded clk s us s1" "late_ok (snd (snd s1))" .
  from logsD [OF assms(2) 2 us(3)] obtain vs where vs: "vs \<in> T" "recorded clk s1 vs s'" "late_ok (snd (snd s'))" .
  from recorded_trans [OF us(2) vs(2)] us(1) vs(1,3) show "late_ok (snd (snd s')) \<and> (\<exists>us \<in> conc S T. recorded clk s us s')"
    by (auto simp: conc_def)
qed

lemma logs_assert [log_intros]: "logs clk x S \<Longrightarrow> logs clk (\<lambda>s. assert_run b (x s)) S"
  by (simp add: logs_def assert_run_def)

lemma logs_create [log_intros]: "logs clk x S \<Longrightarrow> logs clk (\<lambda>s. hvac_comm_create_handle E a (x s)) S"
  unfolding hvac_comm_create_handle_def by (rule logs_assert)

lemma logs_free [log_intros]: "logs clk x S \<Longrightarrow> logs clk (\<lambda>s. hvac_comm_free_addr E a (x s)) S"
  unfolding hvac_comm_free_addr_def by (rule logs_assert)

lemma logs_fault [log_intros]: "logs clk (\<lambda>s. Inl e) {}"
  by (simp add: logs_def)

lemma logs_if [log_intros]: "logs clk x S \<Longrightarrow> logs clk y T \<Longrightarrow> logs clk (if b then x else y) (S \<union> T)"
  by (auto intro: logs_sub)

lemma logs_prod [log_intros]: "(\<And>a b. logs clk (f a b) S) \<Longrightarrow> logs clk (case p of (a, b) \<Rightarrow> f a b) S"
  by (cases p) simp

lemma logs_prod_state [log_intros]: "(\<And>a b. logs clk (\<lambda>s. f a b s) S) \<Longrightarrow> logs clk (\<lambda>s. case p of (a, b) \<Rightarrow> f a b s) S"
  by (cases p) simp

lemma logs_prod_app [log_intros]: "(\<And>a b. logs clk (f a b z) S) \<Longrightarrow> logs clk ((case p of (a, b) \<Rightarrow> f a b) z) S"
  by (cases p) simp

lemma logs_option [log_intros]:
  "logs clk x S \<Longrightarrow> (\<And>a. logs clk (y a) T) \<Longrightarrow> logs clk (case v of None \<Rightarrow> x | Some a \<Rightarrow> y a) (S \<union> T)"
  by (cases v) (auto intro: logs_sub)

lemma logs_delivery [log_intros]:
  "(\<And>r. logs clk (x r) S) \<Longrightarrow> logs clk y T \<Longrightarrow> (\<And>i p. logs clk (z i p) U) \<Longrightarrow>
     logs clk (\<lambda>s. case d of Forward_Error r \<Rightarrow> x r s | Never_Completes \<Rightarrow> y s | Completes i p \<Rightarrow> z i p s) (S \<union> T \<union> U)"
  by (cases d) (auto intro: logs_sub)

text \<open>A wait that nobody ends records nothing.\<close>

lemma logs_never: "logs clk (andthen (guarded clk tag (timed_wait_for_operation clk new_sync_context)) f) {}"
  by (simp add: logs_def andthen_def guarded_def timed_wait_for_operation_def plain_def hvac_wait_for_operation_def
      new_sync_context_def)

lemma conc_simps [simp]: "conc {} T = {}" "conc (insert us S) T = (\<lambda>vs. us @ vs) ` T \<union> conc S T"
  by (auto simp: conc_def)

section \<open>The sections of every function\<close>

definition read_traces :: "client_tag list set" where
  "read_traces = {[Wait_Ready, Read_Wait_Ready, Gen_Read],
     [Wait_Ready, Read_Wait_Ready, Read_Cb, Wait_Done, Wait_Op, Read_Wait_Op, Gen_Read]}"

definition open_traces :: "client_tag list set" where
  "open_traces = {[Opening_Total, Open_Lookup],
     [Opening_Total, Open_Lookup, Open_Cb, Wait_Done, Wait_Op, Open_Wait],
     [Opening_Total, Open_Lookup, Ready_Total, Open_Cb, Wait_Done, Wait_Op, Open_Wait]}"

lemma logs_wait_op [log_intros]: "logs clk (timed_wait_for_operation clk ctx) {[Wait_Done, Wait_Op]}"
  unfolding timed_wait_for_operation_def
  by (rule logs_sub, (rule log_intros)+, simp)

lemma flushed_intros:
  "flushed (plain y)" "flushed x \<Longrightarrow> flushed (\<lambda>s. assert_run b (x s))"
  by (auto simp: flushed_def plain_def assert_run_def bind_run_eq_Inr split: if_splits)

lemma flushed_guarded: "flushed x \<Longrightarrow> flushed (guarded clk tag x)"
  unfolding flushed_def
proof (intro allI impI)
  fix s r s'
  assume x: "\<forall>s r s'. x s = Inr (r, s') \<longrightarrow> snd (snd s) = None \<longrightarrow> snd (snd s') = None" and n: "snd (snd s) = None"
    and "guarded clk tag x s = Inr (r, s')"
  then obtain s1 where 1: "x s = Inr (r, s1)"
    and s': "s' = end_section clk tag (if snd (clk (fst (snd s1))) then end_callback clk s1 else s1)"
    by (elim guarded_Inr)
  from x 1 n have "snd (snd s1) = None" by blast
  then show "snd (snd s') = None" by (cases s1) (simp add: s' end_callback_def)
qed

lemma flushed_andthen: "flushed x \<Longrightarrow> (\<And>r. flushed (f r)) \<Longrightarrow> flushed (andthen x f)"
  by (fastforce simp: flushed_def andthen_def bind_run_eq_Inr)

lemma logs_read_cb [log_intros]: "logs clk (timed_read_cb E clk info out ctx) {[Read_Cb]}"
  unfolding timed_read_cb_def
  by (rule logs_sub [OF logs_callback [OF logs_plain flushed_intros(1)]]) simp_all

lemma logs_open_cb [log_intros]: "logs clk (timed_open_cb clk info out fd ctx c) {[Open_Cb], [Ready_Total, Open_Cb]}"
  unfolding timed_open_cb_def Let_def
proof (rule logs_sub [OF logs_callback])
  show "flushed (\<lambda>s. assert_run (info = HG_SUCCESS) (andthen
      (if open_ret_status out > 0 then guarded clk Ready_Total (plain (Inr (c\<lparr>fd_redir_map := (fd_redir_map c)(int32 fd \<mapsto> open_ret_status out),
          fds := hvac_set_fd_ready (int32 fd) (fds c)\<rparr>)))
       else plain (Inr (c\<lparr>fds := hvac_set_fd_error (int32 fd) (fds c)\<rparr>)))
      (\<lambda>c'. plain (Inr (signal_sync (open_ret_status out) ctx, c'))) s))"
    by (intro flushed_intros flushed_andthen) (simp add: flushed_intros flushed_guarded)
qed ((rule log_intros)+, simp_all)

lemma logs_gen_read [log_intros]: "logs clk (timed_gen_read_rpc E clk h fd ok count off wk nc) read_traces"
  unfolding timed_gen_read_rpc_def Let_def timed_wait_fd_ready_def
  by (rule logs_sub, (rule logs_never log_intros)+, simp add: read_traces_def)

lemma logs_gen_open [log_intros]: "logs clk (timed_gen_open_rpc E clk h p fd nc) open_traces"
  unfolding timed_gen_open_rpc_def timed_set_fd_opening_def Let_def
  by (rule logs_sub, (rule logs_never log_intros)+, simp add: open_traces_def)

lemma logs_gen_seek [log_intros]: "logs clk (timed_gen_seek_rpc E clk h fd off whence nc) {[Wait_Done, Wait_Op]}"
proof -
  have never: "logs clk (andthen (timed_wait_for_operation clk new_sync_context) f) {}" for f :: "int \<Rightarrow> 'x timed"
    by (simp add: logs_def andthen_def guarded_def timed_wait_for_operation_def plain_def hvac_wait_for_operation_def
        new_sync_context_def)
  show ?thesis
    unfolding timed_gen_seek_rpc_def Let_def
    by (rule logs_sub, (rule never log_intros)+, simp)
qed

lemma logs_gen_close [log_intros]: "logs clk (timed_gen_close_rpc E clk h fd nc) {[Gen_Close]}"
  unfolding timed_gen_close_rpc_def by (rule logs_sub, (rule log_intros)+, simp)

lemma logs_tracked [log_intros]: "logs clk (timed_file_tracked clk c fd) {[Tracked_Total]}"
  unfolding timed_file_tracked_def by (rule logs_sub, (rule log_intros)+, simp)

text \<open>What a call of each kind can record.\<close>

fun call_traces :: "client_call \<Rightarrow> client_tag list set" where
  "call_traces (Track_Call path flags fd) = insert [Track_Total] ((\<lambda>ts. ts @ [Open_Dispatch, Track_Total]) ` open_traces)"
| "call_traces (Read_Call fd ok count wk) =
     insert [Tracked_Total, Read_Total] ((\<lambda>ts. Tracked_Total # ts @ [Read_Dispatch, Read_Total]) ` read_traces)"
| "call_traces (Pread_Call fd ok count off wk) =
     insert [Tracked_Total, Pread_Total] ((\<lambda>ts. Tracked_Total # ts @ [Pread_Dispatch, Pread_Total]) ` read_traces)"
| "call_traces (Lseek_Call fd off whence) = {[Tracked_Total], [Tracked_Total, Wait_Done, Wait_Op]}"
| "call_traces (Remove_Call fd) = {[Tracked_Total], [Tracked_Total, Gen_Close]}"
| "call_traces (Path_Call fd) = {[Get_Path_Total]}"

lemmas trace_defs = read_traces_def open_traces_def

lemma logs_call: "logs clk (timed_call E clk k nc) (call_traces k)"
proof (cases k)
  case (Track_Call path flags fd)
  show ?thesis
    unfolding Track_Call timed_call.simps timed_track_file_def
    by (rule logs_sub, (rule log_intros)+, simp add: trace_defs)
next
  case (Read_Call fd ok count wk)
  show ?thesis
    unfolding Read_Call timed_call.simps timed_remote_read_def
    by (rule logs_sub, (rule log_intros)+, simp add: trace_defs)
next
  case (Pread_Call fd ok count off wk)
  show ?thesis
    unfolding Pread_Call timed_call.simps timed_remote_pread_def Let_def
    by (rule logs_sub, (rule log_intros)+, simp add: trace_defs)
next
  case (Lseek_Call fd off whence)
  show ?thesis
    unfolding Lseek_Call timed_call.simps timed_remote_lseek_def
    by (rule logs_sub, (rule log_intros)+, simp)
next
  case (Remove_Call fd)
  show ?thesis
    unfolding Remove_Call timed_call.simps timed_remove_fd_def timed_remote_close_def
    by (rule logs_sub, (rule log_intros)+, simp)
next
  case (Path_Call fd)
  show ?thesis
    unfolding Path_Call timed_call.simps timed_get_path_def
    by (rule logs_sub, (rule log_intros)+, simp)
qed

section \<open>Counts\<close>

text \<open>The relations between the counts of the sections that follow from their nesting.\<close>

definition nested :: "(client_tag \<Rightarrow> nat) \<Rightarrow> bool" where
  "nested N \<longleftrightarrow>
     N Gen_Read = N Read_Dispatch + N Pread_Dispatch \<and> N Read_Wait_Ready = N Gen_Read \<and> N Wait_Ready = N Gen_Read \<and>
     N Read_Cb = N Read_Wait_Op \<and> N Read_Wait_Op \<le> N Gen_Read \<and>
     N Opening_Total = N Open_Dispatch \<and> N Open_Lookup = N Open_Dispatch \<and> N Open_Dispatch \<le> N Track_Total \<and>
     N Open_Cb = N Open_Wait \<and> N Open_Wait \<le> N Open_Dispatch \<and> N Ready_Total \<le> N Open_Cb \<and>
     N Wait_Done = N Wait_Op \<and> N Open_Wait + N Read_Wait_Op \<le> N Wait_Op \<and>
     N Read_Dispatch \<le> N Read_Total \<and> N Pread_Dispatch \<le> N Pread_Total"

fun is_track :: "client_call \<Rightarrow> bool" where "is_track (Track_Call path flags fd) = True" | "is_track k = False"
fun is_read :: "client_call \<Rightarrow> bool" where "is_read (Read_Call fd ok count wk) = True" | "is_read k = False"
fun is_pread :: "client_call \<Rightarrow> bool" where "is_pread (Pread_Call fd ok count off wk) = True" | "is_pread k = False"
fun is_path :: "client_call \<Rightarrow> bool" where "is_path (Path_Call fd) = True" | "is_path k = False"

definition call_kinds :: "(client_tag \<times> (client_call \<Rightarrow> bool)) list" where
  "call_kinds = [(Track_Total, is_track), (Read_Total, is_read), (Pread_Total, is_pread), (Get_Path_Total, is_path),
     (Tracked_Total, \<lambda>k. \<not> is_track k \<and> \<not> is_path k)]"

lemma call_trace_counts:
  assumes "ts \<in> call_traces k"
  shows "nested (count_list ts)" and "length ts \<le> 10" and "(tag, P) \<in> set call_kinds \<Longrightarrow> count_list ts tag = (if P k then 1 else 0)"
  using assms by (cases k; auto simp: trace_defs nested_def call_kinds_def)+

definition counted :: "client_call list \<Rightarrow> client_tag list \<Rightarrow> bool" where
  "counted ks ts \<longleftrightarrow> nested (count_list ts) \<and> length ts \<le> 10 * length ks \<and>
     (\<forall>(tag, P) \<in> set call_kinds. count_list ts tag = length (filter P ks))"

lemma counted_Cons: "ts \<in> call_traces k \<Longrightarrow> counted ks us \<Longrightarrow> counted (k # ks) (ts @ us)"
proof -
  assume ts: "ts \<in> call_traces k" and us: "counted ks us"
  from call_trace_counts(1) [OF ts] us have "nested (count_list (ts @ us))"
    unfolding counted_def nested_def count_list_append by linarith
  moreover have "count_list (ts @ us) tag = length (filter P (k # ks))" if "(tag, P) \<in> set call_kinds" for tag P
    using call_trace_counts(3) [OF ts that] us that by (auto simp: counted_def)
  moreover have "length (ts @ us) \<le> 10 * length (k # ks)"
    using call_trace_counts(2) [OF ts] us by (simp add: counted_def)
  ultimately show "counted (k # ks) (ts @ us)" by (auto simp: counted_def)
qed

lemma logs_calls: "logs clk (timed_calls E clk ks nc) {ts. counted ks ts}"
proof (induction ks arbitrary: nc)
  case Nil
  have "counted [] []" by (auto simp: counted_def nested_def call_kinds_def)
  then show ?case by (auto intro!: logs_sub [OF logs_plain])
next
  case (Cons k ks)
  have "conc (call_traces k) (conc {ts. counted ks ts} {[]}) \<subseteq> {ts. counted (k # ks) ts}"
    using counted_Cons by (fastforce simp: conc_def)
  then show ?case
    unfolding timed_calls.simps
    by (rule logs_sub [rotated]) (rule logs_call Cons.IH log_intros)+
qed

lemma tag_text_inj: "tag_text a = tag_text b \<longleftrightarrow> a = b"
  by (cases a; cases b; simp)

lemma durations_entries: "length (durations (tag_text tag) (entries clk k ts)) = count_list ts tag"
  by (induction ts arbitrary: k) (auto simp: durations_def tag_text_inj)

lemma entries_length [simp]: "length (entries clk k ts) = length ts"
  by (induction ts arbitrary: k) auto

definition section_calls :: "timer_state \<Rightarrow> client_tag \<Rightarrow> nat" where
  "section_calls t tag = nat (calls (index_value zero_stat (stat_table t) (tag_text tag)))"

lemma section_calls_record:
  assumes "length ts < 2 ^ 64"
  shows "section_calls (record_calls (entries clk 0 ts) timer_initial) tag = count_list ts tag"
proof -
  have "count_list ts tag \<le> length ts" by (rule count_le_length)
  with assms have "count_list ts tag < 2 ^ 64" by simp
  then have "int (length (durations (tag_text tag) (entries clk 0 ts))) < 2 ^ 64"
    unfolding durations_entries by (metis of_nat_less_iff of_nat_numeral of_nat_power)
  with record_calls_stat [of timer_initial "tag_text tag" "entries clk 0 ts"] show ?thesis
    by (simp add: section_calls_def timer_initial_def zero_stat_def durations_entries)
qed

section \<open>Properties\<close>

text \<open>
  C38: the statistics of a client are consistent. After any sequence of calls from fresh statistics at
  most one section is missing, that of the last callback of an open or a read, which has woken
  its caller and not returned yet. With it, each dispatch of a read has run the
  generator once and the generator has waited once for its descriptor; each read that was sent and answered
  has run its callback once; each dispatched open has marked its descriptor and looked up an address once, and
  was waited for exactly if its callback ran; and the waits and their loops are equally many. The
  sections of the entry points count the calls of their kinds.
\<close>

theorem client_statistics_consistent:
  assumes "timed_calls E clk ks nc (timer_initial, 0, None) = Inr (rs, (t, k, late))" and "10 * length ks < 2 ^ 64"
  shows "(late = None \<or> late = Some Open_Cb \<or> late = Some Read_Cb) \<and>
    nested (\<lambda>tag. section_calls t tag + (if late = Some tag then 1 else 0)) \<and>
    (\<forall>(tag, P) \<in> set call_kinds. section_calls t tag = length (filter P ks))"
proof -
  from logsD [OF logs_calls assms(1)] obtain us where us: "counted ks us" and l: "late_ok late"
    and r: "recorded clk (timer_initial, 0, None) us (t, k, late)"
    by (auto simp: late_ok_def)
  from r obtain ts where t: "t = record_calls (entries clk 0 ts) timer_initial" and m: "permuted (ts @ pending late) us"
    by (auto simp: recorded_def)
  from m have "length us = length (ts @ pending late)" by (simp add: permuted_def)
  with us assms(2) have "length ts < 2 ^ 64" by (simp add: counted_def)
  then have ts: "section_calls t = count_list ts" by (simp add: fun_eq_iff t section_calls_record)
  have c: "count_list us tag = section_calls t tag + (if late = Some tag then 1 else 0)" for tag
    unfolding ts using m by (cases late) (auto simp: permuted_def dest!: spec [of _ tag])
  have "count_list us = (\<lambda>tag. section_calls t tag + (if late = Some tag then 1 else 0))"
    by (rule ext) (rule c)
  with us have "nested (\<lambda>tag. section_calls t tag + (if late = Some tag then 1 else 0))" by (simp add: counted_def)
  moreover have "section_calls t tag = length (filter P ks)" if "(tag, P) \<in> set call_kinds" for tag P
  proof -
    from that l have "late \<noteq> Some tag" by (auto simp: call_kinds_def late_ok_def)
    with c [of tag] us that show ?thesis by (auto simp: counted_def)
  qed
  ultimately show ?thesis using l by (auto simp: late_ok_def)
qed

text \<open>The callback of the open is late; a section of it that has ended is there.\<close>

theorem client_statistics_consistent_witness:
  "\<exists>rs t k late. timed_calls (sample_env 9) (\<lambda>i. ((2, 30), False)) [Track_Call ''/data/a'' O_RDONLY 5, Path_Call 5, Read_Call 7 True 10 []]
      ((), sample_client) (timer_initial, 0, None) = Inr (rs, (t, k, late)) \<and>
     section_calls t Track_Total = 1 \<and> section_calls t Read_Total = 1 \<and> section_calls t Tracked_Total = 1 \<and>
     section_calls t Opening_Total = section_calls t Open_Dispatch"
proof -
  let ?ks = "[Track_Call ''/data/a'' O_RDONLY 5, Path_Call 5, Read_Call 7 True 10 []]" and ?clk = "\<lambda>i. ((2, 30), False)"
  let ?x = "timed_calls (sample_env 9) ?clk ?ks ((), sample_client) (timer_initial, 0, None)"
  have "fd_map (sample_tracked ''/data/a'' 9) = [5 \<mapsto> ''/data/a'']" by (simp add: sample_tracked_def)
  then have "\<exists>rs. run_calls (sample_env 9) ?ks ((), sample_client) = Inr (rs, (), sample_tracked ''/data/a'' 9)"
    using sample_track_data [of 9 "()"] by (simp add: hvac_remote_read_def)
  moreover have "map_sum id fst ?x = run_calls (sample_env 9) ?ks ((), sample_client)"
    using erases_calls by (rule erasesD)
  ultimately obtain rs t k late where r: "?x = Inr (rs, (t, k, late))" by (cases ?x) auto
  from client_statistics_consistent [OF r] have
    "section_calls t Track_Total = 1 \<and> section_calls t Read_Total = 1 \<and> section_calls t Tracked_Total = 1 \<and>
     section_calls t Opening_Total = section_calls t Open_Dispatch"
    by (auto simp: call_kinds_def nested_def)
  with r show ?thesis by blast
qed

end
