(* ===== verification/HVAC_Reports.thy ===== *)
theory HVAC_Reports
  imports HVAC_Timer
begin

text \<open>
  The exported call history (\<open>export_tag_call_history_to_file\<close>, \<open>mthvac_timer.h\<close>) read back. The
  repository has no reader of this format; \<open>parse_rows\<close> is the specification of one, and the round
  trip says that the text determines the durations it was written from.
\<close>

section \<open>Reading rows of two numbers\<close>

text \<open>A number followed by the given character.\<close>

definition scan_field :: "char \<Rightarrow> string \<Rightarrow> (int \<times> string) option" where
  "scan_field c s =
     (case scan_nat s of
        Some (n, d # t) \<Rightarrow> if d = c then Some (n, t) else None
      | _ \<Rightarrow> None)"

lemma scan_field_shorter: "scan_field c s = Some (n, t) \<Longrightarrow> length t < length s"
  by (auto simp: scan_field_def dest!: scan_nat_shorter split: option.splits list.splits if_splits)

definition scan_row :: "string \<Rightarrow> ((int \<times> int) \<times> string) option" where
  "scan_row s =
     (case scan_field CHR '','' s of
        None \<Rightarrow> None
      | Some (i, t) \<Rightarrow>
          (case scan_field CHR 0x0A t of
             None \<Rightarrow> None
           | Some (d, u) \<Rightarrow> Some ((i, d), u)))"

lemma scan_row_shorter: "scan_row s = Some (x, u) \<Longrightarrow> length u < length s"
  by (auto simp: scan_row_def split: option.splits dest!: scan_field_shorter)

function parse_rows :: "string \<Rightarrow> (int \<times> int) list \<times> string" where
  "parse_rows s =
     (case scan_row s of
        None \<Rightarrow> ([], s)
      | Some (x, u) \<Rightarrow> (case parse_rows u of (xs, rest) \<Rightarrow> (x # xs, rest)))"
  by pat_completeness auto
termination
  by (relation "measure length") (auto dest: scan_row_shorter)

declare parse_rows.simps [simp del]

lemma not_digit: "\<not> is_digit CHR '',''" "\<not> is_digit CHR 0x0A"
  by (simp_all add: is_digit_def digit_chars_def)

lemma scan_field_show: "\<not> is_digit c \<Longrightarrow> scan_field c (show_nat n @ c # t) = Some (int n, t)"
  by (simp add: scan_field_def scan_nat_show)

lemma scan_row_show: "0 \<le> d \<Longrightarrow> scan_row (show_nat i @ '','' @ show_int d @ newline @ t) = Some ((int i, d), t)"
  by (simp add: scan_row_def scan_field_show not_digit show_int_def newline_def)

definition numbered :: "nat \<Rightarrow> int list \<Rightarrow> (int \<times> int) list" where
  "numbered k ds = zip (map int [k..<k + length ds]) ds"

lemma numbered_Cons: "numbered k (d # ds) = (int k, d) # numbered (Suc k) ds"
  by (simp add: numbered_def upt_rec)

lemma parse_rows_from:
  assumes "\<forall>d \<in> set ds. 0 \<le> d" and "scan_row t = None"
  shows "parse_rows (concat (map (\<lambda>(i, d). show_nat i @ '','' @ show_int d @ newline) (zip [k..<k + length ds] ds)) @ t) =
    (numbered k ds, t)"
  using assms
proof (induction ds arbitrary: k)
  case Nil
  then show ?case by (simp add: parse_rows.simps numbered_def)
next
  case (Cons d ds)
  have "zip [k..<k + length (d # ds)] (d # ds) = (k, d) # zip [Suc k..<Suc k + length ds] ds"
    by (simp add: upt_rec)
  then show ?case
    using Cons.IH [of "Suc k"] Cons.prems scan_row_show [of d k] by (subst parse_rows.simps) (simp add: numbered_Cons del: upt_Suc)
qed

lemma parse_history_rows:
  "\<forall>d \<in> set ds. 0 \<le> d \<Longrightarrow> scan_row t = None \<Longrightarrow> parse_rows (history_rows ds @ t) = (numbered 1 ds, t)"
  using parse_rows_from [of ds t 1] by (simp add: history_rows_def)

text \<open>A text that does not start with a digit holds no row.\<close>

lemma scan_row_none: "c # s = t \<Longrightarrow> \<not> is_digit c \<Longrightarrow> scan_row t = None"
  by (auto simp: scan_row_def scan_field_def scan_nat_def)

section \<open>The report\<close>

definition history_title :: "string \<Rightarrow> int \<Rightarrow> string" where
  "history_title tag epoch_num =
     newline @ ''=== HVAC Detailed Call History for Tag: '' @ quote @ tag @ quote @ '' ('' @
     (if epoch_num \<ge> 0 then '', For Client Epoch: '' @ show_int epoch_num else []) @ '') ==='' @ newline @
     ''Call_Index,Duration_us'' @ newline"

definition history_trailer :: "string \<Rightarrow> int list \<Rightarrow> string" where
  "history_trailer tag ds =
     (if ds = [] then ''(No calls recorded for this tag in this period/since last reset)'' @ newline else []) @
     ''--- End of detailed history for tag: '' @ quote @ tag @ quote @ '' (Exported '' @ show_nat (length ds) @ '' calls) ---'' @
     newline @ replicate 78 CHR ''='' @ newline"

lemma history_report_parts:
  "call_history_table t tag = Some ds \<Longrightarrow>
     history_report tag e t = history_title tag e @ history_rows ds @ history_trailer tag ds"
  by (simp add: history_report_def history_title_def history_trailer_def)

lemma history_trailer_no_row: "scan_row (history_trailer tag ds) = None"
proof -
  have "\<not> is_digit CHR ''(''" "\<not> is_digit CHR ''-''" by (simp_all add: is_digit_def digit_chars_def)
  then show ?thesis by (auto simp: history_trailer_def intro: scan_row_none)
qed

section \<open>Properties\<close>

text \<open>
  C40: the exported history is a faithful record. After any sequence of timed sections for a tag with
  detailed logging, exporting the tag appends to the file and leaves what was there and every other
  file alone; behind the title of the report the rows read back as exactly the recorded durations,
  numbered from 1 in order, and nothing of the trailer is taken for a row.
\<close>

theorem exported_history_reads_back:
  assumes "tag \<in> detailed_tags t" and "\<forall>d \<in> set (durations tag cs). 0 \<le> d" and "durations tag cs \<noteq> []"
    and "filename \<noteq> []" and "fs filename = Some old"
    and "fs' = export_tag_call_history_to_file True tag filename e (record_calls cs (reset_all_stats t)) fs"
  shows "\<exists>new. fs' filename = Some (old @ history_title tag e @ new) \<and> fst (parse_rows new) = numbered 1 (durations tag cs) \<and>
    (\<forall>f. f \<noteq> filename \<longrightarrow> fs' f = fs f)"
proof -
  let ?t = "record_calls cs (reset_all_stats t)"
  have h: "index_value [] (call_history_table ?t) tag = durations tag cs"
    using record_calls_history [of tag "reset_all_stats t" cs] reset_index(2) [OF assms(1)] reset_index(3) [of t] assms(1) by simp
  with assms(3) have "call_history_table ?t tag = Some (durations tag cs)"
    by (auto simp: index_value_def split: option.splits)
  then have "history_report tag e ?t = history_title tag e @ history_rows (durations tag cs) @ history_trailer tag (durations tag cs)"
    by (rule history_report_parts)
  with assms(4-6) parse_history_rows [OF assms(2) history_trailer_no_row, of tag "durations tag cs"] show ?thesis
    by (intro exI [of _ "history_rows (durations tag cs) @ history_trailer tag (durations tag cs)"])
      (simp add: export_tag_call_history_to_file_def)
qed

theorem exported_history_reads_back_witness:
  "\<exists>new. (export_tag_call_history_to_file True ''open'' ''h.csv'' 2
      (record_calls [(0, ''open'', 17), (2, ''read'', 4), (0, ''open'', 250)]
        (reset_all_stats (enable_detailed_call_logging_for_tag ''open'' timer_initial))) [''h.csv'' \<mapsto> ''x'']) ''h.csv'' =
      Some (''x'' @ history_title ''open'' 2 @ new) \<and> fst (parse_rows new) = [(1, 17), (2, 250)]"
proof -
  have d: "durations ''open'' [(0, ''open'', 17), (2, ''read'', 4), (0, ''open'', 250)] = [17, 250]"
    by (simp add: durations_def)
  have "numbered (Suc 0) [17, 250] = [(1, 17), (2, 250)]" by (simp add: numbered_def upt_rec)
  with exported_history_reads_back [of "''open''" "enable_detailed_call_logging_for_tag ''open'' timer_initial"
      "[(0, ''open'', 17), (2, ''read'', 4), (0, ''open'', 250)]" "''h.csv''" "[''h.csv'' \<mapsto> ''x'']" "''x''", OF _ _ _ _ _ refl, of 2]
  show ?thesis by (simp add: d enable_detailed_call_logging_for_tag_def) blast
qed

end
