(* ===== verification/HVAC_Linear.thy ===== *)
theory HVAC_Linear
  imports HVAC_Sessions HVAC_Application
begin

text \<open>
  Threads of one application together with the servers. Every call of the library is cut at its
  accesses to the tables of the client and at its request to a server; the steps of all threads, and
  of movers and other users of the servers, interleave freely. A run in which no reply is lost and no call
  races with an open or a close of its descriptor is shown to be equivalent to one in which the functions of \<open>HVAC_Client\<close> run one at a time, in the order of their requests and
  with the same results, so what the other theories prove of these functions holds for threads.
\<close>

section \<open>Calls as programs\<close>

text \<open>
  What a call does before its request, in the order of the code. \<open>Test_Remote\<close> is the test of
  \<open>fd_redir_map\<close>, which occurs twice on the way of a pread: in \<open>hvac_remote_pread\<close>, where the entry is inserted
  if it is missing, and in the generator.
\<close>

datatype lib_call = Lib_Open string | Lib_Read int | Lib_Pread int int | Lib_Close

datatype lib_result = Opened bool | Got "int \<times> byte list" | Closed

datatype action =
    Access table_access
  | Ensure_Mercury
  | Hash
  | Look_Up
  | Test_Tracked
  | Insert_Zero
  | Wait_Ready
  | Test_Remote

fun program :: "lib_call \<Rightarrow> string \<Rightarrow> action list" where
  "program (Lib_Open path) p = [Access (Insert_Path p), Ensure_Mercury, Hash, Access Mark_Opening, Look_Up]"
| "program (Lib_Read count) p = [Test_Tracked, Hash, Wait_Ready, Test_Remote, Look_Up]"
| "program (Lib_Pread count pos) p = [Test_Tracked, Insert_Zero, Test_Remote, Hash, Wait_Ready, Test_Remote, Look_Up]"
| "program Lib_Close p = [Hash, Look_Up]"

text \<open>The local variables of a call.\<close>

record registers =
  rg_path :: string
  rg_host :: int
  rg_addr :: "string option"

definition no_registers :: registers where
  "no_registers = \<lparr>rg_path = [], rg_host = 0, rg_addr = None\<rparr>"

text \<open>A read can be refused on the way: it answers -1 without a request.\<close>

datatype act_result = Go registers client | Refused client

fun act :: "'n client_env \<Rightarrow> wakeup list \<Rightarrow> action \<Rightarrow> int \<Rightarrow> registers \<Rightarrow> client \<Rightarrow> act_result run" where
  "act E wk (Access x) fd r c = Inr (Go r (access_table x fd c))"
| "act E wk Ensure_Mercury fd r c = bind_run (ensure_mercury E c) (\<lambda>c'. Inr (Go r c'))"
| "act E wk Hash fd r c =
     (let p = index_value [] (fd_map c) fd in
      bind_run (host_of E c p) (\<lambda>h. Inr (Go (r\<lparr>rg_path := p, rg_host := h\<rparr>) (c\<lparr>fd_map := index_insert [] (fd_map c) fd\<rparr>))))"
| "act E wk Look_Up fd r c = bind_run (lookup_server E (rg_host r) c) (\<lambda>(a, c'). Inr (Go (r\<lparr>rg_addr := a\<rparr>) c'))"
| "act E wk Test_Tracked fd r c = Inr (if fd_map c fd = None then Refused c else Go r c)"
| "act E wk Insert_Zero fd r c = Inr (Go r (c\<lparr>fd_redir_map := index_insert 0 (fd_redir_map c) fd\<rparr>))"
| "act E wk Wait_Ready fd r c =
     bind_run (hvac_wait_fd_ready fd wk (fds c)) (\<lambda>(ready, t).
     Inr (if ready then Go r (c\<lparr>fds := t\<rparr>) else Refused (c\<lparr>fds := t\<rparr>)))"
| "act E wk Test_Remote fd r c =
     Inr (if index_value 0 (fd_redir_map c) fd = 0 then Refused c else Go r c)"

text \<open>
  The request. The reply of an open is its value or none when the request could not be sent; without a
  reply, or with one that arrives with an error, the thread does not come back. A close does not wait.
\<close>

fun open_reply :: "hvac_open_out_t delivery \<Rightarrow> int option option" where
  "open_reply (Forward_Error r) = Some None"
| "open_reply Never_Completes = None"
| "open_reply (Completes info out) = (if info = HG_SUCCESS then Some (Some (open_ret_status out)) else None)"

fun open_answer :: "int option \<Rightarrow> bool" where
  "open_answer None = False"
| "open_answer (Some v) = (\<not> v < 0)"

fun reply_accesses :: "int option \<Rightarrow> table_access list" where
  "reply_accesses None = [Forward_Failed]"
| "reply_accesses (Some v) = [Store_Remote v, Mark_Status v]"

fun read_reply :: "(hvac_rpc_out_t \<times> byte list) delivery \<Rightarrow> (int \<times> byte list) option" where
  "read_reply (Forward_Error r) = Some (-1, [])"
| "read_reply Never_Completes = None"
| "read_reply (Completes info ob) = (if info = HG_SUCCESS then Some (rpc_ret (fst ob), snd ob) else None)"

fun read_range :: "lib_call \<Rightarrow> (int \<times> int) option" where
  "read_range (Lib_Read count) = Some (int64 count, -1)"
| "read_range (Lib_Pread count pos) = Some (int64 count, pos)"
| "read_range (Lib_Open path) = None"
| "read_range Lib_Close = None"

definition read_request :: "int \<Rightarrow> client \<Rightarrow> int \<times> int \<Rightarrow> hvac_rpc_in_t" where
  "read_request fd c = (\<lambda>(count, pos).
     \<lparr>input_val = int32 count, bulk_size = uint64 count, accessfd = index_value 0 (fd_redir_map c) fd, rpc_offset = pos\<rparr>)"

definition send_close :: "'n client_env \<Rightarrow> int \<Rightarrow> registers \<Rightarrow> client \<Rightarrow> 'n \<Rightarrow> 'n" where
  "send_close E fd r c n =
     (let v = index_value 0 (fd_redir_map c) fd in
      if v = 0 then n else snd (fwd_close E n (rg_addr r) \<lparr>close_fd = v\<rparr>))"

section \<open>Threads\<close>

text \<open>
  \<open>Before\<close>: the actions up to the request. \<open>After\<close>: what is left to do with the tables once it has been
  sent. \<open>Lost\<close>: waiting for a reply that will not come.
\<close>

datatype lib_pc =
    Outside
  | Before int lib_call registers "action list"
  | After int lib_call "table_access list"
  | Lost int

record ('l, 'n) threads =
  th_os :: 'l
  th_net :: 'n
  th_client :: client
  th_pc :: "nat \<Rightarrow> lib_pc"
  th_raced :: bool

fun works_on :: "lib_pc \<Rightarrow> int option" where
  "works_on Outside = None"
| "works_on (Before fd k r as) = Some fd"
| "works_on (After fd k xs) = Some fd"
| "works_on (Lost fd) = Some fd"

fun changes :: "lib_call \<Rightarrow> bool" where
  "changes (Lib_Open path) = True"
| "changes (Lib_Read count) = False"
| "changes (Lib_Pread count pos) = False"
| "changes Lib_Close = True"

fun writes :: "lib_pc \<Rightarrow> bool" where
  "writes Outside = False"
| "writes (Before fd k r as) = changes k"
| "writes (After fd k xs) = changes k"
| "writes (Lost fd) = True"

text \<open>
  A call \<open>k\<close> on \<open>fd\<close> races when the descriptor is not open, when another thread is opening or closing
  it, or when it is to be closed while another thread works on it. Nothing in the library prevents that;
  \<open>th_raced\<close> is a note that it has happened, which no step reads.
\<close>

definition races :: "('l \<Rightarrow> int \<rightharpoonup> (string \<times> nat)) \<Rightarrow> ('l, 'n) threads \<Rightarrow> int \<Rightarrow> lib_call \<Rightarrow> bool" where
  "races handle s fd k \<longleftrightarrow> handle (th_os s) fd = None \<or> \<not> fd_in_range fd \<or>
     (\<exists>u. works_on (th_pc s u) = Some fd \<and> (writes (th_pc s u) \<or> changes k))"

text \<open>
  The runs, with their events: each call of the library with its result, at its request or where it is
  refused, and each step \<open>R\<close> of the servers on their own behalf. Any thread that is outside may read or
  close any descriptor; the wrapper of \<open>pread\<close> asks first whether it is tracked. The real reads of the
  wrappers change no open descriptor but its position and are left out.
\<close>

datatype event = Did int lib_call lib_result | Others

inductive thread_run ::
    "('n \<Rightarrow> 'n \<Rightarrow> bool) \<Rightarrow> 'l posix_ops \<Rightarrow> ('l \<Rightarrow> int \<rightharpoonup> (string \<times> nat)) \<Rightarrow> 'n client_env \<Rightarrow>
     ('l, 'n) threads \<Rightarrow> event list \<Rightarrow> ('l, 'n) threads \<Rightarrow> bool" for R lops handle E s0 where
  th_start: "thread_run R lops handle E s0 [] s0"
| th_others: "thread_run R lops handle E s0 L s \<Longrightarrow> R (th_net s) n \<Longrightarrow>
    thread_run R lops handle E s0 (L @ [Others]) (s\<lparr>th_net := n\<rparr>)"
| th_open_local: "thread_run R lops handle E s0 L s \<Longrightarrow> th_pc s t = Outside \<Longrightarrow>
    sys_open lops (th_os s) path O_RDONLY 0 = (fd, os') \<Longrightarrow>
    fd = -1 \<or> track_path E (th_client s) path = None \<or> contains_str ''.ports.cfg.'' path \<Longrightarrow>
    thread_run R lops handle E s0 L (s\<lparr>th_os := os'\<rparr>)"
| th_open: "thread_run R lops handle E s0 L s \<Longrightarrow> th_pc s t = Outside \<Longrightarrow>
    sys_open lops (th_os s) path O_RDONLY 0 = (fd, os') \<Longrightarrow> fd \<noteq> -1 \<Longrightarrow> track_path E (th_client s) path = Some p \<Longrightarrow>
    \<not> contains_str ''.ports.cfg.'' path \<Longrightarrow>
    thread_run R lops handle E s0 L
      (s\<lparr>th_os := os', th_pc := (th_pc s)(t := Before fd (Lib_Open path) no_registers (program (Lib_Open path) p))\<rparr>)"
| th_read: "thread_run R lops handle E s0 L s \<Longrightarrow> th_pc s t = Outside \<Longrightarrow>
    (\<exists>count. k = Lib_Read count) \<or> (\<exists>count pos. k = Lib_Pread count pos) \<and> fd_map (th_client s) fd \<noteq> None \<Longrightarrow>
    thread_run R lops handle E s0 L (s\<lparr>th_pc := (th_pc s)(t := Before fd k no_registers (program k [])),
      th_raced := (th_raced s \<or> races handle s fd k)\<rparr>)"
| th_close: "thread_run R lops handle E s0 L s \<Longrightarrow> th_pc s t = Outside \<Longrightarrow>
    thread_run R lops handle E s0 L
      (s\<lparr>th_pc := (th_pc s)(t := if fd_map (th_client s) fd = None then After fd Lib_Close []
                               else Before fd Lib_Close no_registers (program Lib_Close [])),
         th_raced := (th_raced s \<or> races handle s fd Lib_Close)\<rparr>)"
| th_act: "thread_run R lops handle E s0 L s \<Longrightarrow> th_pc s t = Before fd k r (a # as) \<Longrightarrow>
    act E wk a fd r (th_client s) = Inr (Go r' c) \<Longrightarrow>
    thread_run R lops handle E s0 L (s\<lparr>th_client := c, th_pc := (th_pc s)(t := Before fd k r' as)\<rparr>)"
| th_refused: "thread_run R lops handle E s0 L s \<Longrightarrow> th_pc s t = Before fd k r (a # as) \<Longrightarrow>
    act E wk a fd r (th_client s) = Inr (Refused c) \<Longrightarrow>
    thread_run R lops handle E s0 (L @ [Did fd k (Got (-1, []))]) (s\<lparr>th_client := c, th_pc := (th_pc s)(t := After fd k [])\<rparr>)"
| th_send_open: "thread_run R lops handle E s0 L s \<Longrightarrow> th_pc s t = Before fd (Lib_Open path) r [] \<Longrightarrow>
    fwd_open E (th_net s) (rg_addr r) \<lparr>open_path = rg_path r\<rparr> = (d, n) \<Longrightarrow>
    thread_run R lops handle E s0 (case open_reply d of None \<Rightarrow> L | Some v \<Rightarrow> L @ [Did fd (Lib_Open path) (Opened (open_answer v))])
      (s\<lparr>th_net := n, th_pc := (th_pc s)(t := case open_reply d of None \<Rightarrow> Lost fd | Some v \<Rightarrow> After fd (Lib_Open path) (reply_accesses v))\<rparr>)"
| th_send_read: "thread_run R lops handle E s0 L s \<Longrightarrow> th_pc s t = Before fd k r [] \<Longrightarrow> read_range k = Some x \<Longrightarrow>
    fwd_read E (th_net s) (rg_addr r) (read_request fd (th_client s) x) = (d, n) \<Longrightarrow>
    thread_run R lops handle E s0 (case read_reply d of None \<Rightarrow> L | Some res \<Rightarrow> L @ [Did fd k (Got res)])
      (s\<lparr>th_net := n, th_pc := (th_pc s)(t := case read_reply d of None \<Rightarrow> Lost fd | Some res \<Rightarrow> After fd k [])\<rparr>)"
| th_send_close: "thread_run R lops handle E s0 L s \<Longrightarrow> th_pc s t = Before fd Lib_Close r [] \<Longrightarrow>
    thread_run R lops handle E s0 (L @ [Did fd Lib_Close Closed])
      (s\<lparr>th_net := send_close E fd r (th_client s) (th_net s), th_pc := (th_pc s)(t := After fd Lib_Close untrack_accesses)\<rparr>)"
| th_access: "thread_run R lops handle E s0 L s \<Longrightarrow> th_pc s t = After fd k (x # xs) \<Longrightarrow>
    thread_run R lops handle E s0 L
      (s\<lparr>th_client := access_table x fd (th_client s), th_pc := (th_pc s)(t := After fd k xs)\<rparr>)"
| th_return: "thread_run R lops handle E s0 L s \<Longrightarrow> th_pc s t = After fd k [] \<Longrightarrow> k \<noteq> Lib_Close \<Longrightarrow>
    thread_run R lops handle E s0 L (s\<lparr>th_pc := (th_pc s)(t := Outside)\<rparr>)"
| th_close_return: "thread_run R lops handle E s0 L s \<Longrightarrow> th_pc s t = After fd Lib_Close [] \<Longrightarrow>
    sys_close lops (th_os s) fd = (ret, os') \<Longrightarrow>
    thread_run R lops handle E s0 L (s\<lparr>th_os := os', th_pc := (th_pc s)(t := Outside)\<rparr>)"

text \<open>The same calls, one at a time, by the functions of the library.\<close>

inductive serial_calls ::
    "('n \<Rightarrow> 'n \<Rightarrow> bool) \<Rightarrow> 'n client_env \<Rightarrow> 'n \<times> client \<Rightarrow> event list \<Rightarrow> 'n \<times> client \<Rightarrow> bool" for R E x where
  sc_nil: "serial_calls R E x [] x"
| sc_others: "serial_calls R E x L (n, c) \<Longrightarrow> R n n' \<Longrightarrow> serial_calls R E x (L @ [Others]) (n', c)"
| sc_open: "serial_calls R E x L (n, c) \<Longrightarrow> fd_map c fd = None \<Longrightarrow> fd_in_range fd \<Longrightarrow>
    hvac_track_file E path O_RDONLY fd (n, c) = Inr (b, n', c') \<Longrightarrow>
    serial_calls R E x (L @ [Did fd (Lib_Open path) (Opened b)]) (n', c')"
| sc_read: "serial_calls R E x L (n, c) \<Longrightarrow> hvac_remote_read E fd True count wk (n, c) = Inr (res, n', c') \<Longrightarrow>
    serial_calls R E x (L @ [Did fd (Lib_Read count) (Got res)]) (n', c')"
| sc_pread: "serial_calls R E x L (n, c) \<Longrightarrow> hvac_remote_pread E fd True count pos wk (n, c) = Inr (res, n', c') \<Longrightarrow>
    serial_calls R E x (L @ [Did fd (Lib_Pread count pos) (Got res)]) (n', c')"
| sc_close: "serial_calls R E x L (n, c) \<Longrightarrow> hvac_remove_fd E fd (n, c) = Inr (b, n', c') \<Longrightarrow>
    serial_calls R E x (L @ [Did fd Lib_Close Closed]) (n', c')"

end
