(* ===== verification/HVAC_Linear_Steps.thy ===== *)
theory HVAC_Linear_Steps
  imports HVAC_Linear "HOL-Library.Sublist"
begin

text \<open>
  The calls of the serial runs of \<open>HVAC_Linear\<close> as relations between states, the invariant that ties a
  concurrent run to a serial one, and what each step of a thread keeps of it. Between the two runs stand
  the entries of each descriptor, which only the thread that works on the descriptor can make
  differ, and then by the accesses it has still to do.
\<close>

section \<open>Settings that no call changes\<close>

definition settled :: "'n client_env \<Rightarrow> client \<Rightarrow> client \<Rightarrow> bool" where
  "settled E c0 c \<longleftrightarrow> g_mercury_init c \<and> hvac_data_dir c = hvac_data_dir c0 \<and>
     g_hvac_server_count c = g_hvac_server_count c0 \<and> (\<forall>p a. resolves E c0 p a \<longrightarrow> resolves E c p a)"

lemma settled_fields:
  assumes "settled E c0 c" and "g_mercury_init c' = g_mercury_init c" and "hvac_data_dir c' = hvac_data_dir c"
    and "g_hvac_server_count c' = g_hvac_server_count c" and "address_cache c' = address_cache c"
  shows "settled E c0 c'"
  using assms resolves_fields [of E c _ _ c'] by (simp add: settled_def)

lemma settled_lookup:
  assumes "settled E c0 c" and "lookup_server E h c = Inr (a, c')"
  shows "settled E c0 c'"
  using assms(1) resolves_stable [OF _ assms(2)] lookup_server_frame [OF assms(2)] by (auto simp: settled_def)

lemma settled_host: "settled E c0 c \<Longrightarrow> host_of E c p = host_of E c0 p"
  by (simp add: settled_def host_of_def)

lemma settled_path: "settled E c0 c \<Longrightarrow> track_path E c p = track_path E c0 p"
  by (simp add: settled_def track_path_def cong: option.case_cong)

lemma settled_address:
  assumes "settled E c0 c" and "host_of E c0 p = Inr h" and "resolves E c0 p a"
    and "address_cache c' = address_cache c"
  obtains c2 where "lookup_server E h c' = Inr (Some a, c2)"
proof -
  from assms(1,3) have "resolves E c p a" by (simp add: settled_def)
  then obtain c1 where "lookup_server E h c = Inr (Some a, c1)"
    using settled_host [OF assms(1)] assms(2) by (auto simp: resolves_def)
  from lookup_server_fields [OF this assms(4)] that show thesis by blast
qed

section \<open>The calls in the serial run\<close>

lemma entries_eq:
  "fd_map c fd = fst (entries c fd)" "index_value 0 (fd_redir_map c) fd = fst (snd (entries c fd))"
  "fd_status_of (fds c) fd = snd (snd (entries c fd))"
  by (simp_all add: entries_def)

lemma entries_cong:
  "fd_map c' = fd_map c \<Longrightarrow> fd_redir_map c' = fd_redir_map c \<Longrightarrow> fds c' = fds c \<Longrightarrow> entries c' y = entries c y"
  by (simp add: entries_def)

lemma entries_insert_zero: "entries (c\<lparr>fd_redir_map := index_insert 0 (fd_redir_map c) fd\<rparr>) y = entries c y"
  by (simp add: entries_def index_value_insert)

lemma serial_open:
  assumes st: "settled E c0 c" and inv: "client_inv c" and ok: "client_ok E" and fd: "fd_in_range fd"
    and p: "track_path E c0 path = Some p" "\<not> contains_str ''.ports.cfg.'' path"
    and h: "host_of E c0 p = Inr h" and a: "resolves E c0 p a"
    and d: "fwd_open E n (Some a) \<lparr>open_path = p\<rparr> = (d, n')" "open_reply d = Some v"
  shows "\<exists>c'. hvac_track_file E path O_RDONLY fd (n, c) = Inr (open_answer v, n', c') \<and> client_inv c' \<and> settled E c0 c' \<and>
    (\<forall>y. entries c' y = (if y = fd then whole_op (Track p v) (entries c y) else entries c y))"
proof -
  let ?c1 = "c\<lparr>fd_map := (fd_map c)(fd \<mapsto> p)\<rparr>"
  let ?c2 = "?c1\<lparr>fds := hvac_set_fd_opening fd (fds ?c1)\<rparr>"
  have g: "and O_RDONLY O_ACCMODE \<noteq> O_WRONLY" "and O_RDONLY O_APPEND = 0"
    by (simp_all add: O_RDONLY_def O_WRONLY_def)
  obtain c3 where l: "lookup_server E h ?c2 = Inr (Some a, c3)"
    using settled_address [OF st h a, of ?c2] by auto
  have sc: "settled E c0 c3" by (rule settled_lookup [OF settled_fields [OF st] l]) simp_all
  from lookup_server_frame [OF l] obtain cache where c3: "c3 = ?c2\<lparr>address_cache := cache\<rparr>" by blast
  let ?c4 = "case v of Some r \<Rightarrow> if r > 0 then c3\<lparr>fd_redir_map := (fd_redir_map c3)(fd \<mapsto> r), fds := hvac_set_fd_ready fd (fds c3)\<rparr>
      else c3\<lparr>fds := hvac_set_fd_error fd (fds c3)\<rparr> | None \<Rightarrow> c3\<lparr>fds := hvac_set_fd_error fd (fds c3)\<rparr>"
  have o: "hvac_client_comm_gen_open_rpc E h p fd (n, ?c1) = Inr (case v of Some r \<Rightarrow> r | None \<Rightarrow> -1, n', ?c4)"
    using d(2) ok fd_key [OF fd]
    by (cases d) (auto simp: hvac_client_comm_gen_open_rpc_def l [simplified] d(1) client_ops client_ok_def HG_SUCCESS_def Let_def
        split: if_splits)
  have "host_of E ?c1 p = Inr h" using settled_host [OF settled_fields [OF st], of ?c1] h by simp
  moreover have "ensure_mercury E ?c1 = Inr ?c1" using st by (simp add: ensure_mercury_def settled_def)
  ultimately have t: "hvac_track_file E path O_RDONLY fd (n, c) = Inr (open_answer v, n', ?c4)"
    using p g settled_path [OF st] by (cases v) (simp_all add: hvac_track_file_def o)
  note S = ft.open_succeeds [OF client_invD(1) [OF inv]] ft.open_fails [OF client_invD(1) [OF inv]]
  have "entries ?c4 y = (if y = fd then whole_op (Track p v) (entries c y) else entries c y)" for y
    using S by (cases v) (auto simp: entries_def whole_op_def c3 index_value_def split: if_splits)
  moreover have "settled E c0 ?c4"
    by (rule settled_fields [OF sc]) (simp_all split: option.split)
  ultimately show ?thesis using t track_file_inv [OF inv t fd] by blast
qed

lemma serial_gen_read:
  assumes st: "settled E c0 c" and inv: "client_inv c" and ok: "client_ok E"
    and e: "fd_status_of (fds c) fd = Some HVAC_FD_READY" "index_value 0 (fd_redir_map c) fd \<noteq> 0"
    and h: "host_of E c0 p = Inr h" and a: "resolves E c0 p a"
    and d: "fwd_read E n (Some a) (read_request fd c (count, pos)) = (d, n')" "read_reply d = Some res"
  shows "\<exists>c'. hvac_client_comm_gen_read_rpc E h fd True count pos wk (n, c) = Inr (res, n', c') \<and>
    client_inv c' \<and> settled E c0 c' \<and> (\<forall>y. entries c' y = entries c y)"
proof -
  obtain c1 where l: "lookup_server E h c = Inr (Some a, c1)" using settled_address [OF st h a refl] by blast
  from lookup_server_frame [OF l] obtain cache where c1: "c1 = c\<lparr>address_cache := cache\<rparr>" by blast
  obtain v where m: "fd_redir_map c fd = Some v" "v \<noteq> 0" using e(2) by (cases "fd_redir_map c fd") auto
  have f: "fwd_read E n (Some a) \<lparr>input_val = int32 count, bulk_size = uint64 count, accessfd = v, rpc_offset = pos\<rparr> = (d, n')"
    using d(1) m by (simp add: read_request_def)
  have "hvac_client_comm_gen_read_rpc E h fd True count pos wk (n, c) = Inr (res, n', c1)"
    using d(2) ok e(1) m
    by (cases d) (auto simp: hvac_client_comm_gen_read_rpc_def wait_under_inv [OF inv] l client_ops client_ok_def HG_SUCCESS_def
        Let_def f split: if_splits)
  moreover have "client_inv c1" using inv by (simp add: c1 client_inv_def)
  moreover have "entries c1 y = entries c y" for y by (simp add: c1 entries_def)
  ultimately show ?thesis using settled_lookup [OF st l] by blast
qed

lemma serial_read:
  assumes st: "settled E c0 c" and inv: "client_inv c" and ok: "client_ok E" and k: "read_range k = Some x"
    and e: "fd_map c fd = Some p" "fd_status_of (fds c) fd = Some HVAC_FD_READY" "index_value 0 (fd_redir_map c) fd \<noteq> 0"
    and h: "host_of E c0 p = Inr h" and a: "resolves E c0 p a"
    and d: "fwd_read E n (Some a) (read_request fd c x) = (d, n')" "read_reply d = Some res"
    and run: "serial_calls R E y L (n, c)"
  shows "\<exists>c'. serial_calls R E y (L @ [Did fd k (Got res)]) (n', c') \<and>
    client_inv c' \<and> settled E c0 c' \<and> (\<forall>y. entries c' y = entries c y)"
proof -
  obtain count pos where x: "x = (count, pos)" by (cases x)
  have hc: "host_of E c p = Inr h" using settled_host [OF st] h by simp
  obtain v where m: "fd_redir_map c fd = Some v" "v \<noteq> 0" using e(3) by (cases "fd_redir_map c fd") auto
  from serial_gen_read [OF st inv ok e(2,3) h a d [unfolded x], of "[]"] obtain c' where
    g: "hvac_client_comm_gen_read_rpc E h fd True count pos [] (n, c) = Inr (res, n', c')"
    and c': "client_inv c'" "settled E c0 c'" "\<forall>y. entries c' y = entries c y" by blast
  show ?thesis
  proof (cases k)
    case (Lib_Read n1)
    with k x have "hvac_remote_read E fd True n1 [] (n, c) = Inr (res, n', c')"
      using e(1) hc g by (simp add: hvac_remote_read_def)
    from sc_read [OF run this] c' Lib_Read show ?thesis by blast
  next
    case (Lib_Pread n1 q)
    with k x have "hvac_remote_pread E fd True n1 q [] (n, c) = Inr (res, n', c')"
      using e(1) hc g m by (simp add: hvac_remote_pread_def)
    from sc_pread [OF run this] c' Lib_Pread show ?thesis by blast
  qed (use k in simp_all)
qed

lemma serial_refused:
  assumes st: "settled E c0 c" and inv: "client_inv c" and k: "read_range k = Some x"
    and e: "fd_status_of (fds c) fd \<noteq> Some HVAC_FD_READY" and res: "\<And>p. \<exists>a. resolves E c0 p a"
    and run: "serial_calls R E y L (n, c)"
  shows "\<exists>c'. serial_calls R E y (L @ [Did fd k (Got (-1, []))]) (n, c') \<and>
    client_inv c' \<and> settled E c0 c' \<and> (\<forall>y. entries c' y = entries c y)"
proof -
  have host: "\<exists>h. host_of E c p = Inr h" for p using res [of p] settled_host [OF st] by (auto simp: resolves_def)
  show ?thesis
  proof (cases k)
    case (Lib_Read n1)
    have "hvac_remote_read E fd True n1 [] (n, c) = Inr ((-1, []), n, c)"
    proof (cases "fd_map c fd")
      case (Some p)
      with host [of p] gen_read_not_ready [OF inv e] show ?thesis by (auto simp: hvac_remote_read_def)
    qed (simp add: hvac_remote_read_def)
    from sc_read [OF run this] Lib_Read inv st show ?thesis by blast
  next
    case (Lib_Pread n1 q)
    let ?c = "c\<lparr>fd_redir_map := index_insert 0 (fd_redir_map c) fd\<rparr>"
    have i: "client_inv ?c" "settled E c0 ?c"
      using client_inv_index_insert [OF inv] settled_fields [OF st] by simp_all
    have "\<exists>c'. hvac_remote_pread E fd True n1 q [] (n, c) = Inr ((-1, []), n, c') \<and> (c' = c \<or> c' = ?c)"
    proof (cases "fd_map c fd")
      case (Some p)
      from host [of p] have "\<exists>h. host_of E ?c p = Inr h" by (simp add: host_of_def split: if_splits)
      moreover have "hvac_client_comm_gen_read_rpc E h fd True (int64 n1) q [] (n, ?c) = Inr ((-1, []), n, ?c)" for h
        by (rule gen_read_not_ready [OF i(1)]) (use e in simp)
      ultimately show ?thesis using Some by (auto simp: hvac_remote_pread_def Let_def)
    qed (simp add: hvac_remote_pread_def)
    then obtain c' where c': "hvac_remote_pread E fd True n1 q [] (n, c) = Inr ((-1, []), n, c')" "c' = c \<or> c' = ?c" by blast
    from sc_pread [OF run c'(1)] c'(2) i inv st entries_insert_zero [of c fd] Lib_Pread show ?thesis by blast
  qed (use k in simp_all)
qed

lemma serial_close:
  assumes st: "settled E c0 c" and inv: "client_inv c" and ok: "client_ok E" and p: "fd_map c fd = Some p"
    and h: "host_of E c0 p = Inr h" and a: "resolves E c0 p a" "rg_addr r = Some a"
  shows "\<exists>c'. hvac_remove_fd E fd (n, c) = Inr (True, send_close E fd r c n, c') \<and> client_inv c' \<and> settled E c0 c' \<and>
    (\<forall>y. entries c' y = (if y = fd then whole_op Untrack (entries c y) else entries c y))"
proof -
  obtain c1 where l: "lookup_server E h c = Inr (Some a, c1)" using settled_address [OF st h a(1) refl] by blast
  from lookup_server_frame [OF l] obtain cache where c1: "c1 = c\<lparr>address_cache := cache\<rparr>" by blast
  have hc: "host_of E c p = Inr h" using settled_host [OF st] h by simp
  have "\<exists>b c'. hvac_remove_fd E fd (n, c) = Inr (b, send_close E fd r c n, c') \<and> address_cache c' = address_cache c1 \<and>
      g_mercury_init c' = g_mercury_init c1 \<and> hvac_data_dir c' = hvac_data_dir c1 \<and> g_hvac_server_count c' = g_hvac_server_count c1"
    using ok a(2)
    by (cases "fd_redir_map c fd")
      (auto simp: hvac_remove_fd_def hvac_remote_close_def hvac_client_comm_gen_close_rpc_def client_ops p hc l c1 client_ok_def
        HG_SUCCESS_def Let_def send_close_def split: prod.splits)
  then obtain b c' where g: "hvac_remove_fd E fd (n, c) = Inr (b, send_close E fd r c n, c')"
    and c': "address_cache c' = address_cache c1" "g_mercury_init c' = g_mercury_init c1" "hvac_data_dir c' = hvac_data_dir c1"
      "g_hvac_server_count c' = g_hvac_server_count c1" by blast
  have sc: "settled E c0 c'" by (rule settled_fields [OF settled_lookup [OF st l] c'(2-4,1)])
  from remove_fd_result [OF g] p obtain cache' where b: "b" and e: "c' = c\<lparr>fd_map := (fd_map c)(fd := None), address_cache := cache',
      fd_redir_map := (if fd_redir_map c fd = Some 0 then fd_redir_map c else (fd_redir_map c)(fd := None)),
      fds := hvac_cleanup_fd_state fd (fds c)\<rparr>" by auto
  have "entries c' y = (if y = fd then whole_op Untrack (entries c y) else entries c y)" for y
    using ft.status_cleanup [OF client_invD(1) [OF inv]]
    by (auto simp: e entries_def whole_op_def untrack_accesses_def index_value_def)
  with g b sc remove_fd_inv [OF inv g] show ?thesis by auto
qed

section \<open>What a thread knows\<close>

fun table_accesses :: "action list \<Rightarrow> table_access list" where
  "table_accesses [] = []"
| "table_accesses (a # as) = (case a of Access x \<Rightarrow> [x] | _ \<Rightarrow> []) @ table_accesses as"

text \<open>The local variables against the entries \<open>e\<close> of the descriptor, with \<open>as\<close> still to do.\<close>

definition knows :: "'n client_env \<Rightarrow> client \<Rightarrow> fd_entries \<Rightarrow> registers \<Rightarrow> action list \<Rightarrow> bool" where
  "knows E c0 e r as \<longleftrightarrow>
     (Hash \<notin> set as \<longrightarrow> fst e = Some (rg_path r) \<and> host_of E c0 (rg_path r) = Inr (rg_host r)) \<and>
     (Look_Up \<notin> set as \<longrightarrow> (\<exists>a. rg_addr r = Some a \<and> resolves E c0 (rg_path r) a))"

definition read_knows :: "fd_entries \<Rightarrow> action list \<Rightarrow> bool" where
  "read_knows e as \<longleftrightarrow> (Test_Tracked \<notin> set as \<longrightarrow> fst e \<noteq> None) \<and>
     (Wait_Ready \<notin> set as \<longrightarrow> snd (snd e) = Some HVAC_FD_READY) \<and>
     (Test_Remote \<notin> set as \<longrightarrow> fst (snd e) \<noteq> 0)"

text \<open>
  The entries \<open>e\<close> of the concurrent run against \<open>e'\<close> of the serial one. Before its request an
  open has not happened in the serial run, after it, it has.
\<close>

fun pc_ok :: "'n client_env \<Rightarrow> client \<Rightarrow> fd_entries \<Rightarrow> fd_entries \<Rightarrow> lib_pc \<Rightarrow> bool" where
  "pc_ok E c0 e e' Outside = True"
| "pc_ok E c0 e e' (Lost fd) = True"
| "pc_ok E c0 e e' (After fd k xs) = (fold local_access xs e = e' \<and> (k = Lib_Close \<longrightarrow> fst e' = None) \<and> (xs \<noteq> [] \<longrightarrow> changes k))"
| "pc_ok E c0 e e' (Before fd (Lib_Open path) r as) =
     (\<exists>p. suffix as (program (Lib_Open path) p) \<and> knows E c0 e r as \<and> track_path E c0 path = Some p \<and>
        \<not> contains_str ''.ports.cfg.'' path \<and> fst e' = None \<and>
        (Access (Insert_Path p) \<notin> set as \<longrightarrow> fst e = Some p) \<and>
        (\<forall>v. fold local_access (table_accesses as @ reply_accesses v) e = whole_op (Track p v) e'))"
| "pc_ok E c0 e e' (Before fd Lib_Close r as) =
     (suffix as (program Lib_Close []) \<and> knows E c0 e r as \<and> e = e' \<and> fst e \<noteq> None)"
| "pc_ok E c0 e e' (Before fd k r as) =
     (suffix as (program k []) \<and> knows E c0 e r as \<and> read_knows e as \<and> e = e')"

lemma pc_ok_read:
  "read_range k = Some x \<Longrightarrow> pc_ok E c0 e e' (Before fd k r as) \<longleftrightarrow>
     suffix as (program k []) \<and> knows E c0 e r as \<and> read_knows e as \<and> e = e'"
  by (cases k) simp_all

text \<open>One action: what it does to the entries, and what the thread knows afterwards.\<close>

lemma act_frame:
  assumes a: "act E wk a fd r C = Inr (Go r' C')" and wf: "fd_table_wf (fds C)" and st: "settled E c0 C" and fd: "fd_in_range fd"
    and m: "a = Hash \<Longrightarrow> fd_map C fd \<noteq> None" and w: "a = Wait_Ready \<Longrightarrow> fd_status_of (fds C) fd \<noteq> Some HVAC_FD_OPENING"
  shows "fd_table_wf (fds C') \<and> settled E c0 C' \<and>
    (\<forall>y. entries C' y = (if y = fd then fold local_access (table_accesses [a]) (entries C y) else entries C y))"
proof (cases a)
  case (Access x)
  note A = access_table_local [OF wf fd]
  have "settled E c0 (access_table x fd C)"
    by (rule settled_fields [OF st]; cases x) (simp_all add: erase_remote_def split: option.split)
  with a Access A show ?thesis by auto
next
  case Ensure_Mercury
  with a st wf show ?thesis by (auto simp: ensure_mercury_def settled_def)
next
  case Hash
  with a m wf st show ?thesis by (auto simp: bind_run_eq_Inr Let_def)
next
  case Look_Up
  with a obtain x where l: "lookup_server E (rg_host r) C = Inr (x, C')" by (auto simp: bind_run_eq_Inr)
  from lookup_server_frame [OF l] settled_lookup [OF st l] wf Look_Up show ?thesis by (auto simp: entries_def)
next
  case Wait_Ready
  with w have "hvac_wait_fd_ready fd wk (fds C) = Inr (fd_status_of (fds C) fd = Some HVAC_FD_READY, fds C)"
    using hvac_wait_settled [OF wf] hvac_wait_unknown [OF wf] by (cases "fd_status_of (fds C) fd") auto
  with a Wait_Ready wf st show ?thesis by (auto split: if_splits)
qed (use a wf st settled_fields [OF st] in \<open>auto simp: entries_insert_zero Let_def split: if_splits\<close>)

lemma knows_step:
  assumes k: "knows E c0 e r (a # as)" and a: "act E wk a fd r C = Inr (Go r' C')" and st: "settled E c0 C"
    and e: "fst e = fd_map C fd" "Hash \<in> set as \<or> fst (fold local_access (table_accesses [a]) e) = fst e" and m: "a = Hash \<Longrightarrow> fst e \<noteq> None"
    and l: "a = Look_Up \<Longrightarrow> Hash \<notin> set as" "Look_Up \<in> set as \<or> a = Look_Up \<or> Hash \<notin> set (a # as)" and res: "\<And>p. \<exists>b. resolves E c0 p b"
  shows "knows E c0 (fold local_access (table_accesses [a]) e) r' as"
proof (cases a)
  case Hash
  with m e(1) obtain p where p: "fd_map C fd = Some p" by auto
  with a Hash have "r' = r\<lparr>rg_path := p, rg_host := rg_host r'\<rparr>" "host_of E c0 p = Inr (rg_host r')"
    using settled_host [OF st] by (auto simp: bind_run_eq_Inr Let_def)
  with k Hash e p l(2) show ?thesis by (cases r; cases r') (auto simp: knows_def)
next
  case Look_Up
  with k l(1) have h: "fst e = Some (rg_path r)" "host_of E c0 (rg_path r) = Inr (rg_host r)" by (auto simp: knows_def)
  from res obtain b where b: "resolves E c0 (rg_path r) b" by blast
  from settled_address [OF st h(2) b refl] obtain c2 where "lookup_server E (rg_host r) C = Inr (Some b, c2)" by blast
  with a Look_Up have "r' = r\<lparr>rg_addr := Some b\<rparr>" by auto
  with h b Look_Up show ?thesis by (simp add: knows_def)
next
  case Ensure_Mercury
  with k a e show ?thesis by (auto simp: knows_def bind_run_eq_Inr)
next
  case Wait_Ready
  with k a e show ?thesis by (auto simp: knows_def bind_run_eq_Inr split: if_splits)
qed (use k a e in \<open>auto simp: knows_def Let_def split: if_splits\<close>)

lemma table_accesses_Cons: "table_accesses (a # as) = table_accesses [a] @ table_accesses as"
  by simp

lemma act_ok:
  assumes a: "act E wk a fd r C = Inr (Go r' C')" and pc: "pc_ok E c0 (entries C fd) e' (Before fd k r (a # as))"
    and wf: "fd_table_wf (fds C)" and st: "settled E c0 C" and fd: "fd_in_range fd"
    and w: "snd (snd e') \<noteq> Some HVAC_FD_OPENING" and res: "\<And>p. \<exists>b. resolves E c0 p b"
  shows "pc_ok E c0 (entries C' fd) e' (Before fd k r' as)" and "fd_table_wf (fds C')" and "settled E c0 C'"
    and "y \<noteq> fd \<Longrightarrow> entries C' y = entries C y" and "\<not> changes k \<Longrightarrow> entries C' fd = entries C fd"
proof -
  let ?e = "entries C fd" and ?loc = "fold local_access (table_accesses [a])"
  have shape: "(\<exists>p. suffix (a # as) (program k p)) \<and> knows E c0 ?e r (a # as)"
    using pc by (cases k) auto
  have m: "a = Hash \<Longrightarrow> fst ?e \<noteq> None" and ow: "a = Wait_Ready \<Longrightarrow> ?e = e'"
    using pc by (cases k; auto simp: suffix_Cons read_knows_def)+
  have F: "fd_table_wf (fds C') \<and> settled E c0 C' \<and> (\<forall>y. entries C' y = (if y = fd then ?loc (entries C y) else entries C y))"
    by (rule act_frame [OF a wf st fd]) (use m ow w in \<open>simp_all add: entries_eq\<close>)
  then show "fd_table_wf (fds C')" "settled E c0 C'" "y \<noteq> fd \<Longrightarrow> entries C' y = entries C y" by auto
  have e: "entries C' fd = ?loc ?e" using F by simp
  have loc: "?loc ?e = ?e" if "\<not> changes k \<or> k = Lib_Close" using shape that by (cases k) (auto simp: suffix_Cons)
  with e show "\<not> changes k \<Longrightarrow> entries C' fd = ?e" by simp
  have "knows E c0 (?loc ?e) r' as"
  proof (rule knows_step [OF _ a st _ _ _ _ _ res])
    show "knows E c0 ?e r (a # as)" using shape by blast
    show "fst ?e = fd_map C fd" by (simp add: entries_eq)
    show "Hash \<in> set as \<or> fst (?loc ?e) = fst ?e"
      using shape by (cases k; cases ?e) (auto simp: suffix_Cons)
    show "fst ?e \<noteq> None" if "a = Hash" using m that .
    show "Hash \<notin> set as" if "a = Look_Up" using shape that by (cases k) (auto simp: suffix_Cons)
    show "Look_Up \<in> set as \<or> a = Look_Up \<or> Hash \<notin> set (a # as)" using shape by (cases k) (auto simp: suffix_Cons)
  qed
  with e have kn: "knows E c0 (entries C' fd) r' as" by simp
  have rk: "read_knows (entries C' fd) as" if "\<not> changes k"
  proof -
    have o: "read_knows ?e (a # as)" "?e = e'" using pc that by (cases k; simp)+
    have "a = Wait_Ready \<Longrightarrow> snd (snd ?e) = Some HVAC_FD_READY"
      using a hvac_wait_settled [OF wf] hvac_wait_unknown [OF wf] w o(2)
      by (cases "fd_status_of (fds C) fd") (auto simp: entries_eq bind_run_eq_Inr split: if_splits)
    moreover have "a = Test_Remote \<Longrightarrow> fst (snd ?e) \<noteq> 0"
      using a by (auto simp: Let_def entries_eq split: if_splits)
    moreover have "a = Test_Tracked \<Longrightarrow> fst ?e \<noteq> None" using a by (auto simp: entries_eq split: if_splits)
    ultimately show ?thesis using o(1) e loc that by (auto simp: read_knows_def)
  qed
  show "pc_ok E c0 (entries C' fd) e' (Before fd k r' as)"
  proof (cases k)
    case (Lib_Open path)
    with pc obtain p where p: "suffix (a # as) (program k p)" "track_path E c0 path = Some p" "\<not> contains_str ''.ports.cfg.'' path"
      "fst e' = None" "Access (Insert_Path p) \<notin> set (a # as) \<longrightarrow> fst ?e = Some p"
      "\<And>v. fold local_access (table_accesses (a # as) @ reply_accesses v) ?e = whole_op (Track p v) e'" by auto
    have "Access (Insert_Path p) \<notin> set as \<longrightarrow> fst (?loc ?e) = Some p"
      using p(1,5) Lib_Open by (cases ?e) (auto simp: suffix_Cons)
    moreover have "fold local_access (table_accesses as @ reply_accesses v) (?loc ?e) = whole_op (Track p v) e'" for v
      using p(6) [of v] unfolding table_accesses_Cons [of a as] by simp
    ultimately show ?thesis using Lib_Open p(1-4) kn e suffix_ConsD [OF p(1)] by auto
  next
    case (Lib_Read count)
    with pc kn rk e loc show ?thesis by (auto dest: suffix_ConsD simp del: program.simps)
  next
    case (Lib_Pread count pos)
    with pc kn rk e loc show ?thesis by (auto dest: suffix_ConsD simp del: program.simps)
  next
    case Lib_Close
    with pc kn e loc show ?thesis by (auto dest: suffix_ConsD simp del: program.simps)
  qed
qed

lemma act_refused:
  assumes a: "act E wk a fd r C = Inr (Refused C')" and pc: "pc_ok E c0 (entries C fd) (entries c fd) (Before fd k r (a # as))"
    and wf: "fd_table_wf (fds C)" and inv: "client_inv c"
  shows "C' = C" and "\<exists>x. read_range k = Some x" and "fd_status_of (fds c) fd \<noteq> Some HVAC_FD_READY"
    and "entries C fd = entries c fd"
proof -
  have cs: "a = Test_Tracked \<or> a = Wait_Ready \<or> a = Test_Remote"
    using a by (cases a) (auto simp: bind_run_eq_Inr Let_def split: if_splits)
  then show k: "\<exists>x. read_range k = Some x" using pc by (cases k) (auto simp: suffix_Cons)
  with pc show e: "entries C fd = entries c fd" by (auto simp: pc_ok_read)
  note I = client_invD [OF inv]
  have ow: "fd_status_of (fds C) fd \<noteq> Some HVAC_FD_OPENING"
    using I(2) [of fd] e by (auto simp: entries_def)
  have W: "hvac_wait_fd_ready fd wk (fds C) = Inr (fd_status_of (fds C) fd = Some HVAC_FD_READY, fds C)"
    using ow hvac_wait_settled [OF wf] hvac_wait_unknown [OF wf] by (cases "fd_status_of (fds C) fd") auto
  from a cs W show "C' = C" by (auto simp: Let_def split: if_splits)
  show "fd_status_of (fds c) fd \<noteq> Some HVAC_FD_READY"
  proof
    assume r: "fd_status_of (fds c) fd = Some HVAC_FD_READY"
    from I(2) [OF r] I(3) [OF r] e r have "fd_map C fd \<noteq> None" "fd_status_of (fds C) fd = Some HVAC_FD_READY"
      "index_value 0 (fd_redir_map C) fd \<noteq> 0" by (auto simp: entries_def)
    with a cs W show False by (auto simp: Let_def split: if_splits)
  qed
qed

section \<open>The invariant\<close>

definition lin_inv ::
    "('l \<Rightarrow> int \<rightharpoonup> (string \<times> nat)) \<Rightarrow> 'n client_env \<Rightarrow> client \<Rightarrow> ('l, 'n) threads \<Rightarrow> client \<Rightarrow> bool" where
  "lin_inv handle E c0 s c \<longleftrightarrow>
     fd_table_wf (fds (th_client s)) \<and> settled E c0 (th_client s) \<and> client_inv c \<and> settled E c0 c \<and>
     (\<forall>t fd. works_on (th_pc s t) = Some fd \<longrightarrow> handle (th_os s) fd \<noteq> None \<and> fd_in_range fd \<and>
        pc_ok E c0 (entries (th_client s) fd) (entries c fd) (th_pc s t)) \<and>
     (\<forall>t u fd. works_on (th_pc s t) = Some fd \<longrightarrow> works_on (th_pc s u) = Some fd \<longrightarrow> writes (th_pc s t) \<longrightarrow> t = u) \<and>
     (\<forall>fd. (\<forall>t. works_on (th_pc s t) = Some fd \<longrightarrow> \<not> writes (th_pc s t)) \<longrightarrow> entries (th_client s) fd = entries c fd) \<and>
     (\<forall>fd. fst (entries (th_client s) fd) \<noteq> None \<or> fst (entries c fd) \<noteq> None \<longrightarrow> handle (th_os s) fd \<noteq> None)"

lemma lin_invD:
  assumes "lin_inv handle E c0 s c"
  shows "fd_table_wf (fds (th_client s))" and "settled E c0 (th_client s)" and "client_inv c" and "settled E c0 c"
    and "works_on (th_pc s t) = Some fd \<Longrightarrow> handle (th_os s) fd \<noteq> None \<and> fd_in_range fd \<and>
        pc_ok E c0 (entries (th_client s) fd) (entries c fd) (th_pc s t)"
    and "works_on (th_pc s t) = Some fd \<Longrightarrow> works_on (th_pc s u) = Some fd \<Longrightarrow> writes (th_pc s t) \<Longrightarrow> t = u"
    and "(\<And>t. works_on (th_pc s t) = Some fd \<Longrightarrow> \<not> writes (th_pc s t)) \<Longrightarrow> entries (th_client s) fd = entries c fd"
    and "fst (entries (th_client s) fd) \<noteq> None \<or> fst (entries c fd) \<noteq> None \<Longrightarrow> handle (th_os s) fd \<noteq> None"
  using assms unfolding lin_inv_def by blast+

lemma lin_inv_os:
  assumes "lin_inv handle E c0 s c" and "th_client s' = th_client s" "th_pc s' = th_pc s"
    and "\<And>fd. handle (th_os s) fd \<noteq> None \<Longrightarrow> handle (th_os s') fd \<noteq> None"
  shows "lin_inv handle E c0 s' c"
  using assms(1,4) unfolding lin_inv_def assms(2,3) by blast

lemma lin_inv_raced: "lin_inv handle E c0 (s\<lparr>th_raced := b\<rparr>) c = lin_inv handle E c0 s c"
  by (simp add: lin_inv_def)

text \<open>A step of thread \<open>t\<close> about the descriptor \<open>f\<close>, of which it is the only user or which it only reads.\<close>

lemma lin_inv_step:
  assumes inv: "lin_inv handle E c0 s c"
    and new: "fd_table_wf (fds C')" "settled E c0 C'" "client_inv c'" "settled E c0 c'"
    and s': "th_client s' = C'" "th_pc s' = (th_pc s)(t := pc')"
    and pcs: "works_on (th_pc s t) = None \<or> works_on (th_pc s t) = Some f" "works_on pc' = None \<or> works_on pc' = Some f"
    and frame: "\<And>y. y \<noteq> f \<Longrightarrow> entries C' y = entries (th_client s) y \<and> entries c' y = entries c y"
    and os: "\<And>y. y \<noteq> f \<or> \<not> writes (th_pc s t) \<Longrightarrow> handle (th_os s) y \<noteq> None \<Longrightarrow> handle (th_os s') y \<noteq> None"
    and own: "works_on pc' = Some f \<Longrightarrow> handle (th_os s') f \<noteq> None \<and> fd_in_range f \<and> pc_ok E c0 (entries C' f) (entries c' f) pc'"
    and use: "(\<forall>u. u \<noteq> t \<longrightarrow> works_on (th_pc s u) \<noteq> Some f) \<and> (writes pc' \<or> entries C' f = entries c' f) \<or>
      entries C' f = entries (th_client s) f \<and> entries c' f = entries c f \<and> \<not> writes pc' \<and> \<not> writes (th_pc s t) \<and>
        (\<forall>u. works_on (th_pc s u) = Some f \<longrightarrow> \<not> writes (th_pc s u))"
    and known: "fst (entries C' f) \<noteq> None \<or> fst (entries c' f) \<noteq> None \<Longrightarrow> handle (th_os s') f \<noteq> None"
  shows "lin_inv handle E c0 s' c'"
  unfolding lin_inv_def s'
proof (intro conjI allI impI)
  note D = lin_invD [OF inv]
  show "fd_table_wf (fds C')" "settled E c0 C'" "client_inv c'" "settled E c0 c'" by (fact new)+
  have os': "handle (th_os s') fd \<noteq> None" if "u \<noteq> t" "works_on (th_pc s u) = Some fd" for u fd
  proof (rule os)
    show "handle (th_os s) fd \<noteq> None" using D(5) [OF that(2)] by blast
    show "fd \<noteq> f \<or> \<not> writes (th_pc s t)" using use that by auto
  qed
  have other: "pc_ok E c0 (entries C' fd) (entries c' fd) (th_pc s u)" if "u \<noteq> t" "works_on (th_pc s u) = Some fd" for u fd
    using D(5) [OF that(2)] frame [of fd] use that by (cases "fd = f") auto
  fix u fd assume u: "works_on (((th_pc s)(t := pc')) u) = Some fd"
  show "handle (th_os s') fd \<noteq> None" "fd_in_range fd" "pc_ok E c0 (entries C' fd) (entries c' fd) (((th_pc s)(t := pc')) u)"
    using u own pcs(2) os' [of u fd] other [of u fd] D(5) [of u fd] by (cases "u = t"; auto)+
next
  fix u v fd
  assume "works_on (((th_pc s)(t := pc')) u) = Some fd" "works_on (((th_pc s)(t := pc')) v) = Some fd"
    "writes (((th_pc s)(t := pc')) u)"
  with lin_invD(6) [OF inv, of u fd v] use pcs(2) show "u = v"
    by (cases "u = t"; cases "v = t") auto
next
  fix fd assume n: "\<forall>u. works_on (((th_pc s)(t := pc')) u) = Some fd \<longrightarrow> \<not> writes (((th_pc s)(t := pc')) u)"
  then have no: "\<not> writes (th_pc s u)" if "u \<noteq> t" "works_on (th_pc s u) = Some fd" for u using that by (metis fun_upd_other)
  show "entries C' fd = entries c' fd"
  proof (cases "fd = f")
    case False
    with pcs(1) no have "\<not> writes (th_pc s u)" if "works_on (th_pc s u) = Some fd" for u using that by (cases "u = t") auto
    with lin_invD(7) [OF inv] frame [OF False] show ?thesis by metis
  next
    case True
    from use show ?thesis
    proof (elim disjE conjE)
      assume w: "writes pc'"
      with spec [OF n, of t] have "works_on pc' \<noteq> Some f" using True by auto
      with pcs(2) w show ?thesis by (cases pc') auto
    next
      assume e: "entries C' f = entries (th_client s) f" "entries c' f = entries c f"
        and nw: "\<forall>u. works_on (th_pc s u) = Some f \<longrightarrow> \<not> writes (th_pc s u)"
      from lin_invD(7) [OF inv, of f] nw e True show ?thesis by metis
    qed (simp add: True)
  qed
next
  fix fd assume "fst (entries C' fd) \<noteq> None \<or> fst (entries c' fd) \<noteq> None"
  with known lin_invD(8) [OF inv, of fd] frame [of fd] os [of fd] show "handle (th_os s') fd \<noteq> None"
    by (cases "fd = f") auto
qed

section \<open>Each step\<close>

lemma track_accesses_reply: "track_accesses p v = [Insert_Path p, Mark_Opening] @ reply_accesses v"
  by (cases v) simp_all

lemma read_shape: "read_range k = Some x \<Longrightarrow> \<not> changes k \<and> k \<noteq> Lib_Close"
  by (cases k) simp_all

lemma lin_act:
  assumes I: "lin_inv handle E c0 s c" and t: "th_pc s t = Before fd k r (a # as)"
    and a: "act E wk a fd r (th_client s) = Inr (Go r' C)" and res: "\<And>p. \<exists>b. resolves E c0 p b"
  shows "lin_inv handle E c0 (s\<lparr>th_client := C, th_pc := (th_pc s)(t := Before fd k r' as)\<rparr>) c"
proof -
  note D = lin_invD [OF I]
  from D(5) [of t fd] t have P: "handle (th_os s) fd \<noteq> None" "fd_in_range fd"
    "pc_ok E c0 (entries (th_client s) fd) (entries c fd) (Before fd k r (a # as))" by auto
  have w: "snd (snd (entries c fd)) \<noteq> Some HVAC_FD_OPENING"
    using client_invD(2) [OF D(3), of fd] by (auto simp: entries_def)
  note A = act_ok [OF a P(3) D(1,2) P(2) w res]
  have alone: "u \<noteq> t \<Longrightarrow> works_on (th_pc s u) \<noteq> Some fd" if "changes k" for u
    using D(6) [of t fd u] t that by auto
  have readers: "\<not> writes (th_pc s u)" if "\<not> changes k" "works_on (th_pc s u) = Some fd" for u
    using D(6) [of u fd t] t that by auto
  show ?thesis
    using A(1,4,5) t P alone readers D(8) [of fd]
    by (intro lin_inv_step [where t = t and f = fd and pc' = "Before fd k r' as", OF I A(2,3) D(3,4)]; cases "changes k"; auto)
qed

lemma lin_refused:
  assumes I: "lin_inv handle E c0 s c" and t: "th_pc s t = Before fd k r (a # as)"
    and a: "act E wk a fd r (th_client s) = Inr (Refused C)" and res: "\<And>p. \<exists>b. resolves E c0 p b"
    and run: "serial_calls R E y L (th_net s, c)"
  shows "\<exists>c'. serial_calls R E y (L @ [Did fd k (Got (-1, []))]) (th_net s, c') \<and>
    lin_inv handle E c0 (s\<lparr>th_client := C, th_pc := (th_pc s)(t := After fd k [])\<rparr>) c'"
proof -
  note D = lin_invD [OF I]
  from D(5) [of t fd] t have P: "handle (th_os s) fd \<noteq> None" "fd_in_range fd"
    "pc_ok E c0 (entries (th_client s) fd) (entries c fd) (Before fd k r (a # as))" by auto
  note A = act_refused [OF a P(3) D(1,3)]
  from A(2) obtain x where x: "read_range k = Some x" by blast
  from serial_refused [OF D(4,3) x A(3) res run] obtain c' where
    c': "serial_calls R E y (L @ [Did fd k (Got (-1, []))]) (th_net s, c')" "client_inv c'" "settled E c0 c'"
      "\<forall>y. entries c' y = entries c y" by blast
  have "\<not> writes (th_pc s u)" if "works_on (th_pc s u) = Some fd" for u
    using D(6) [of u fd t] t that read_shape [OF x] by auto
  then have "lin_inv handle E c0 (s\<lparr>th_client := C, th_pc := (th_pc s)(t := After fd k [])\<rparr>) c'"
    by (intro lin_inv_step [where t = t and f = fd and pc' = "After fd k []", OF I D(1,2) c'(2,3)])
      (use A c'(4) t P D(8) [of fd] read_shape [OF x] in auto)
  with c'(1) show ?thesis by blast
qed

lemma lin_send_open:
  assumes I: "lin_inv handle E c0 s c" and t: "th_pc s t = Before fd (Lib_Open path) r []" and ok: "client_ok E"
    and d: "fwd_open E (th_net s) (rg_addr r) \<lparr>open_path = rg_path r\<rparr> = (d, n)" "open_reply d = Some v"
    and run: "serial_calls R E y L (th_net s, c)"
  shows "\<exists>c'. serial_calls R E y (L @ [Did fd (Lib_Open path) (Opened (open_answer v))]) (n, c') \<and>
    lin_inv handle E c0 (s\<lparr>th_net := n, th_pc := (th_pc s)(t := After fd (Lib_Open path) (reply_accesses v))\<rparr>) c'"
proof -
  note D = lin_invD [OF I]
  from D(5) [of t fd] t have P: "handle (th_os s) fd \<noteq> None" "fd_in_range fd"
    "pc_ok E c0 (entries (th_client s) fd) (entries c fd) (Before fd (Lib_Open path) r [])" by auto
  from P(3) have p: "track_path E c0 path = Some (rg_path r)" "\<not> contains_str ''.ports.cfg.'' path" "fst (entries c fd) = None"
    "host_of E c0 (rg_path r) = Inr (rg_host r)"
    "\<And>v. fold local_access (reply_accesses v) (entries (th_client s) fd) = whole_op (Track (rg_path r) v) (entries c fd)"
    by (auto simp: knows_def)
  from P(3) obtain a where a: "rg_addr r = Some a" "resolves E c0 (rg_path r) a" by (auto simp: knows_def)
  from serial_open [OF D(4,3) ok P(2) p(1,2,4) a(2) d [unfolded a(1)]] obtain c' where
    c': "hvac_track_file E path O_RDONLY fd (th_net s, c) = Inr (open_answer v, n, c')" "client_inv c'" "settled E c0 c'"
      "\<forall>y. entries c' y = (if y = fd then whole_op (Track (rg_path r) v) (entries c y) else entries c y)" by blast
  have new: "fd_map c fd = None" using p(3) by (simp add: entries_eq)
  have "u \<noteq> t \<Longrightarrow> works_on (th_pc s u) \<noteq> Some fd" for u using D(6) [of t fd u] t by auto
  then have "lin_inv handle E c0 (s\<lparr>th_net := n, th_pc := (th_pc s)(t := After fd (Lib_Open path) (reply_accesses v))\<rparr>) c'"
    by (intro lin_inv_step [where t = t and f = fd and pc' = "After fd (Lib_Open path) (reply_accesses v)", OF I D(1,2) c'(2,3)])
      (use c'(4) p(5) t P in auto)
  with sc_open [OF run new P(2) c'(1)] show ?thesis by blast
qed

lemma lin_send_read:
  assumes I: "lin_inv handle E c0 s c" and t: "th_pc s t = Before fd k r []" and ok: "client_ok E"
    and x: "read_range k = Some x"
    and d: "fwd_read E (th_net s) (rg_addr r) (read_request fd (th_client s) x) = (d, n)" "read_reply d = Some res"
    and run: "serial_calls R E y L (th_net s, c)"
  shows "\<exists>c'. serial_calls R E y (L @ [Did fd k (Got res)]) (n, c') \<and>
    lin_inv handle E c0 (s\<lparr>th_net := n, th_pc := (th_pc s)(t := After fd k [])\<rparr>) c'"
proof -
  note D = lin_invD [OF I]
  from D(5) [of t fd] t have P: "handle (th_os s) fd \<noteq> None" "fd_in_range fd"
    "pc_ok E c0 (entries (th_client s) fd) (entries c fd) (Before fd k r [])" by auto
  from P(3) have e: "entries (th_client s) fd = entries c fd" "knows E c0 (entries c fd) r []" "read_knows (entries c fd) []"
    by (auto simp: pc_ok_read [OF x])
  from e(2,3) have q: "fd_map c fd = Some (rg_path r)" "fd_status_of (fds c) fd = Some HVAC_FD_READY"
    "index_value 0 (fd_redir_map c) fd \<noteq> 0" "host_of E c0 (rg_path r) = Inr (rg_host r)"
    by (auto simp: knows_def read_knows_def entries_eq)
  from e(2) obtain a where a: "rg_addr r = Some a" "resolves E c0 (rg_path r) a" by (auto simp: knows_def)
  have rq: "read_request fd (th_client s) x = read_request fd c x"
    using e(1) by (simp add: read_request_def entries_eq)
  from serial_read [OF D(4,3) ok x q a(2) d [unfolded a(1) rq] run] obtain c' where
    c': "serial_calls R E y (L @ [Did fd k (Got res)]) (n, c')" "client_inv c'" "settled E c0 c'"
      "\<forall>y. entries c' y = entries c y" by blast
  have "\<not> writes (th_pc s u)" if "works_on (th_pc s u) = Some fd" for u
    using D(6) [of u fd t] t that read_shape [OF x] by auto
  then have "lin_inv handle E c0 (s\<lparr>th_net := n, th_pc := (th_pc s)(t := After fd k [])\<rparr>) c'"
    by (intro lin_inv_step [where t = t and f = fd and pc' = "After fd k []", OF I D(1,2) c'(2,3)])
      (use e(1) c'(4) t P D(8) [of fd] read_shape [OF x] in auto)
  with c'(1) show ?thesis by blast
qed

lemma lin_send_close:
  assumes I: "lin_inv handle E c0 s c" and t: "th_pc s t = Before fd Lib_Close r []" and ok: "client_ok E"
    and run: "serial_calls R E y L (th_net s, c)"
  shows "\<exists>c'. serial_calls R E y (L @ [Did fd Lib_Close Closed]) (send_close E fd r (th_client s) (th_net s), c') \<and>
    lin_inv handle E c0 (s\<lparr>th_net := send_close E fd r (th_client s) (th_net s), th_pc := (th_pc s)(t := After fd Lib_Close untrack_accesses)\<rparr>) c'"
proof -
  note D = lin_invD [OF I]
  from D(5) [of t fd] t have P: "handle (th_os s) fd \<noteq> None" "fd_in_range fd"
    "pc_ok E c0 (entries (th_client s) fd) (entries c fd) (Before fd Lib_Close r [])" by auto
  from P(3) have e: "entries (th_client s) fd = entries c fd" "knows E c0 (entries c fd) r []" by auto
  from e(2) have q: "fd_map c fd = Some (rg_path r)" "host_of E c0 (rg_path r) = Inr (rg_host r)"
    by (auto simp: knows_def entries_eq)
  from e(2) obtain a where a: "rg_addr r = Some a" "resolves E c0 (rg_path r) a" by (auto simp: knows_def)
  have "index_value 0 (fd_redir_map (th_client s)) fd = index_value 0 (fd_redir_map c) fd" using e(1) by (simp add: entries_eq)
  then have n: "send_close E fd r (th_client s) (th_net s) = send_close E fd r c (th_net s)" by (simp add: send_close_def)
  from serial_close [OF D(4,3) ok q a(2,1)] obtain c' where
    c': "hvac_remove_fd E fd (th_net s, c) = Inr (True, send_close E fd r c (th_net s), c')" "client_inv c'" "settled E c0 c'"
      "\<forall>y. entries c' y = (if y = fd then whole_op Untrack (entries c y) else entries c y)" by blast
  have "u \<noteq> t \<Longrightarrow> works_on (th_pc s u) \<noteq> Some fd" for u using D(6) [of t fd u] t by auto
  moreover have "fst (whole_op Untrack e') = None" for e' by (cases e') (simp add: whole_op_def untrack_accesses_def)
  ultimately have "lin_inv handle E c0 (s\<lparr>th_net := send_close E fd r (th_client s) (th_net s),
      th_pc := (th_pc s)(t := After fd Lib_Close untrack_accesses)\<rparr>) c'"
    by (intro lin_inv_step [where t = t and f = fd and pc' = "After fd Lib_Close untrack_accesses", OF I D(1,2) c'(2,3)])
      (use c'(4) e(1) t P in \<open>auto simp: whole_op_def\<close>)
  with sc_close [OF run c'(1)] n show ?thesis by auto
qed

lemma lin_access:
  assumes I: "lin_inv handle E c0 s c" and t: "th_pc s t = After fd k (x # xs)" and k: "changes k"
  shows "lin_inv handle E c0 (s\<lparr>th_client := access_table x fd (th_client s), th_pc := (th_pc s)(t := After fd k xs)\<rparr>) c"
proof -
  note D = lin_invD [OF I]
  from D(5) [of t fd] t have P: "handle (th_os s) fd \<noteq> None" "fd_in_range fd"
    "pc_ok E c0 (entries (th_client s) fd) (entries c fd) (After fd k (x # xs))" by auto
  note A = access_table_local [OF D(1) P(2)]
  have st: "settled E c0 (access_table x fd (th_client s))"
    by (rule settled_fields [OF D(2)]; cases x) (simp_all add: erase_remote_def split: option.split)
  have "u \<noteq> t \<Longrightarrow> works_on (th_pc s u) \<noteq> Some fd" for u using D(6) [of t fd u] t k by auto
  then show ?thesis
    by (intro lin_inv_step [where t = t and f = fd and pc' = "After fd k xs", OF I A(1) st D(3,4)])
      (use A(2) t P k in auto)
qed

lemma lin_return:
  assumes I: "lin_inv handle E c0 s c" and t: "th_pc s t = After fd k []"
    and os: "\<And>y. y \<noteq> fd \<or> \<not> changes k \<Longrightarrow> handle (th_os s) y \<noteq> None \<Longrightarrow> handle os' y \<noteq> None"
    and k: "k \<noteq> Lib_Close \<Longrightarrow> os' = th_os s"
  shows "lin_inv handle E c0 (s\<lparr>th_os := os', th_pc := (th_pc s)(t := Outside)\<rparr>) c"
proof -
  note D = lin_invD [OF I]
  from D(5) [of t fd] t have P: "handle (th_os s) fd \<noteq> None" "entries (th_client s) fd = entries c fd"
    "k = Lib_Close \<longrightarrow> fst (entries c fd) = None" by auto
  have alone: "u \<noteq> t \<Longrightarrow> works_on (th_pc s u) \<noteq> Some fd" if "changes k" for u
    using D(6) [of t fd u] t that by auto
  have readers: "\<not> writes (th_pc s u)" if "\<not> changes k" "works_on (th_pc s u) = Some fd" for u
    using D(6) [of u fd t] t that by auto
  show ?thesis
    using P t os k D(8) [of fd] alone readers
    by (intro lin_inv_step [where t = t and f = fd and pc' = Outside, OF I D(1-4)]; cases "changes k"; auto)
qed

lemma lin_start_read:
  assumes I: "lin_inv handle E c0 s c" and t: "th_pc s t = Outside" and h: "handle (th_os s) fd \<noteq> None" "fd_in_range fd"
    and u: "\<And>u. works_on (th_pc s u) = Some fd \<Longrightarrow> \<not> writes (th_pc s u)"
    and k: "(\<exists>count. k = Lib_Read count) \<or> (\<exists>count pos. k = Lib_Pread count pos) \<and> fd_map (th_client s) fd \<noteq> None"
  shows "lin_inv handle E c0 (s\<lparr>th_pc := (th_pc s)(t := Before fd k no_registers (program k []))\<rparr>) c"
proof -
  note D = lin_invD [OF I]
  have e: "entries (th_client s) fd = entries c fd" using D(7) u by blast
  show ?thesis
    by (rule lin_inv_step [where t = t and f = fd and pc' = "Before fd k no_registers (program k [])", OF I D(1-4)])
      (use e t h u k in \<open>auto simp: knows_def read_knows_def\<close>)
qed

lemma lin_start_close:
  assumes I: "lin_inv handle E c0 s c" and t: "th_pc s t = Outside" and h: "handle (th_os s) fd \<noteq> None" "fd_in_range fd"
    and u: "\<And>u. works_on (th_pc s u) \<noteq> Some fd"
  shows "lin_inv handle E c0 (s\<lparr>th_pc := (th_pc s)(t := if fd_map (th_client s) fd = None then After fd Lib_Close []
      else Before fd Lib_Close no_registers (program Lib_Close []))\<rparr>) c"
proof -
  note D = lin_invD [OF I]
  have e: "entries (th_client s) fd = entries c fd" using D(7) u by blast
  then have "fd_map c fd = fd_map (th_client s) fd" by (simp add: entries_eq)
  then show ?thesis
    by (intro lin_inv_step [where t = t and f = fd and pc' = "if fd_map (th_client s) fd = None then After fd Lib_Close []
      else Before fd Lib_Close no_registers (program Lib_Close [])", OF I D(1-4)])
      (use e t h u in \<open>auto simp: knows_def entries_eq\<close>)
qed

end
