(* ===== verification/HVAC_Linearization.thy ===== *)
theory HVAC_Linearization
  imports HVAC_Linear_Steps
begin

text \<open>
  The runs of \<open>HVAC_Linear\<close> without lost replies and races are equivalent to serial runs, and no call gets
  stuck before its request.
\<close>

section \<open>All runs\<close>

text \<open>Up to the point where a thread has lost its reply or a call has raced with another one.\<close>

definition linear ::
    "('n \<Rightarrow> 'n \<Rightarrow> bool) \<Rightarrow> ('l \<Rightarrow> int \<rightharpoonup> (string \<times> nat)) \<Rightarrow> 'n client_env \<Rightarrow> ('l, 'n) threads \<Rightarrow> event list \<Rightarrow> ('l, 'n) threads \<Rightarrow> bool" where
  "linear R handle E s0 L s \<longleftrightarrow> (\<exists>t fd. th_pc s t = Lost fd) \<or> th_raced s \<or>
     (\<exists>c. serial_calls R E (th_net s0, th_client s0) L (th_net s, c) \<and> lin_inv handle E (th_client s0) s c)"

lemma linear_step:
  assumes "linear R handle E s0 L s" and "th_pc s' = (th_pc s)(t := pc')" and "\<And>fd. th_pc s t \<noteq> Lost fd" and "th_raced s \<Longrightarrow> th_raced s'"
    and "\<And>c. \<not> th_raced s' \<Longrightarrow> serial_calls R E (th_net s0, th_client s0) L (th_net s, c) \<Longrightarrow> lin_inv handle E (th_client s0) s c \<Longrightarrow>
      \<exists>c'. serial_calls R E (th_net s0, th_client s0) L' (th_net s', c') \<and> lin_inv handle E (th_client s0) s' c'"
  shows "linear R handle E s0 L' s'"
proof (cases "\<exists>u fd. th_pc s u = Lost fd")
  case True
  then obtain u fd where "th_pc s u = Lost fd" by blast
  with assms(2,3) have "th_pc s' u = Lost fd" by (cases "u = t") auto
  then show ?thesis unfolding linear_def by blast
next
  case False
  with assms(1,4,5) show ?thesis unfolding linear_def by blast
qed

lemma linear_lost: "th_pc s t = Lost fd \<Longrightarrow> linear R handle E s0 L s"
  unfolding linear_def by blast

context posix_files
begin

lemma lin_start_open:
  assumes I: "lin_inv handle E c0 s c" and t: "th_pc s t = Outside"
    and o: "sys_open ops (th_os s) path O_RDONLY 0 = (fd, os')" "fd \<noteq> -1"
    and p: "track_path E (th_client s) path = Some p" "\<not> contains_str ''.ports.cfg.'' path"
  shows "lin_inv handle E c0 (s\<lparr>th_os := os', th_pc := (th_pc s)(t := Before fd (Lib_Open path) no_registers (program (Lib_Open path) p))\<rparr>) c"
proof -
  note D = lin_invD [OF I]
  from open_fd [OF o] have f: "handle (th_os s) fd = None" "handle os' = (handle (th_os s))(fd \<mapsto> (path, 0))" "fd_in_range fd"
    by (auto simp: fd_in_range_def)
  with D(5) have free: "works_on (th_pc s u) \<noteq> Some fd" for u by blast
  have e: "entries (th_client s) fd = entries c fd" using D(7) free by blast
  have none: "fst (entries c fd) = None" using D(8) [of fd] f(1) by (cases "fst (entries c fd)") auto
  have "fold local_access (table_accesses (program (Lib_Open path) p) @ reply_accesses v) (entries c fd) = whole_op (Track p v) (entries c fd)" for v
    by (simp add: whole_op_def track_accesses_reply)
  then have "pc_ok E c0 (entries (th_client s) fd) (entries c fd) (Before fd (Lib_Open path) no_registers (program (Lib_Open path) p))"
    using p settled_path [OF D(2)] e none by (auto simp: knows_def)
  then show ?thesis
    by (intro lin_inv_step [where t = t and f = fd and pc' = "Before fd (Lib_Open path) no_registers (program (Lib_Open path) p)", OF I D(1-4)])
      (use f free t in auto)
qed

lemma thread_run_linear:
  assumes "thread_run R ops handle E s0 L s"
    and start: "\<And>t. th_pc s0 t = Outside" "client_inv (th_client s0)" "g_mercury_init (th_client s0)"
      "\<And>fd. fd_map (th_client s0) fd \<noteq> None \<Longrightarrow> handle (th_os s0) fd \<noteq> None"
    and ok: "client_ok E" and res: "\<And>p. \<exists>a. resolves E (th_client s0) p a"
  shows "linear R handle E s0 L s"
  using assms(1)
proof (induction rule: thread_run.induct)
  case th_start
  have "settled E (th_client s0) (th_client s0)" using start(3) by (simp add: settled_def)
  with start have "lin_inv handle E (th_client s0) s0 (th_client s0)" by (simp add: lin_inv_def client_invD(1) entries_def)
  then show ?case using sc_nil unfolding linear_def by blast
next
  case (th_others L s n)
  show ?case
  proof (cases "(\<exists>t fd. th_pc s t = Lost fd) \<or> th_raced s")
    case False
    with th_others.IH obtain c where c: "serial_calls R E (th_net s0, th_client s0) L (th_net s, c)" "lin_inv handle E (th_client s0) s c"
      unfolding linear_def by blast
    have "lin_inv handle E (th_client s0) (s\<lparr>th_net := n\<rparr>) c" by (rule lin_inv_os [OF c(2)]) simp_all
    with sc_others [OF c(1) th_others.hyps(2)] show ?thesis unfolding linear_def by auto
  qed (auto simp: linear_def)
next
  case (th_open_local L s t path fd os')
  have "handle os' x \<noteq> None" if "handle (th_os s) x \<noteq> None" for x
    using open_fd [OF th_open_local(3)] open_error [of "th_os s" path 0 os'] th_open_local(3) that by (cases "fd = -1") auto
  with th_open_local.IH lin_inv_os [of handle E "th_client s0" s _ "s\<lparr>th_os := os'\<rparr>"] show ?case
    unfolding linear_def by auto
next
  case (th_open L s t path fd os' p)
  with lin_start_open [OF _ th_open(2-6)] show ?case by (intro linear_step [where t = t, OF th_open.IH]) auto
next
  case (th_read L s t k fd)
  let ?s1 = "s\<lparr>th_pc := (th_pc s)(t := Before fd k no_registers (program k []))\<rparr>"
  let ?s = "?s1\<lparr>th_raced := th_raced s \<or> races handle s fd k\<rparr>"
  have I: "lin_inv handle E (th_client s0) ?s c" if n: "\<not> races handle s fd k" and c: "lin_inv handle E (th_client s0) s c" for c
    unfolding lin_inv_raced by (rule lin_start_read [OF c th_read(2) _ _ _ th_read(3)]) (use n in \<open>auto simp: races_def\<close>)
  have "linear R handle E s0 L ?s"
    by (rule linear_step [where t = t, OF th_read.IH]) (use I in \<open>auto simp: th_read(2)\<close>)
  then show ?case by simp
next
  case (th_close L s t fd)
  let ?pc = "if fd_map (th_client s) fd = None then After fd Lib_Close [] else Before fd Lib_Close no_registers (program Lib_Close [])"
  let ?s1 = "s\<lparr>th_pc := (th_pc s)(t := ?pc)\<rparr>"
  let ?s = "?s1\<lparr>th_raced := th_raced s \<or> races handle s fd Lib_Close\<rparr>"
  have I: "lin_inv handle E (th_client s0) ?s c" if n: "\<not> races handle s fd Lib_Close" and c: "lin_inv handle E (th_client s0) s c" for c
    unfolding lin_inv_raced by (rule lin_start_close [OF c th_close(2)]) (use n in \<open>auto simp: races_def\<close>)
  have "th_net ?s = th_net s" "th_pc ?s = (th_pc s)(t := ?pc)" "th_raced ?s = (th_raced s \<or> races handle s fd Lib_Close)" by simp_all
  with I have "linear R handle E s0 L ?s"
    by (intro linear_step [where t = t and s' = ?s, OF th_close.IH]) (simp, simp add: th_close(2), simp, metis)
  then show ?case by simp
next
  case (th_act L s t fd k r a as wk r' C)
  with lin_act [OF _ th_act(2,3) res] show ?case by (intro linear_step [where t = t, OF th_act.IH]) auto
next
  case (th_refused L s t fd k r a as wk C)
  with lin_refused [OF _ th_refused(2,3) res] show ?case by (intro linear_step [where t = t, OF th_refused.IH]) auto
next
  case (th_send_open L s t fd path r d n)
  show ?case
  proof (cases "open_reply d")
    case (Some v)
    with lin_send_open [OF _ th_send_open(2) ok th_send_open(3) Some] th_send_open(2) show ?thesis
      by (intro linear_step [where t = t, OF th_send_open.IH]) auto
  qed (intro linear_lost [where t = t], simp)
next
  case (th_send_read L s t fd k r x d n)
  show ?case
  proof (cases "read_reply d")
    case (Some res')
    with lin_send_read [OF _ th_send_read(2) ok th_send_read(3,4) Some] th_send_read(2) show ?thesis
      by (intro linear_step [where t = t, OF th_send_read.IH]) auto
  qed (intro linear_lost [where t = t], simp)
next
  case (th_send_close L s t fd r)
  with lin_send_close [OF _ th_send_close(2) ok] show ?case by (intro linear_step [where t = t, OF th_send_close.IH]) auto
next
  case (th_access L s t fd k x xs)
  have "changes k" if "lin_inv handle E (th_client s0) s c" for c
    using lin_invD(5) [OF that, of t fd] th_access(2) by auto
  with th_access(2) lin_access [OF _ th_access(2)] show ?case by (intro linear_step [where t = t, OF th_access.IH]) auto
next
  case (th_return L s t fd k)
  have "s\<lparr>th_os := th_os s, th_pc := (th_pc s)(t := Outside)\<rparr> = s\<lparr>th_pc := (th_pc s)(t := Outside)\<rparr>" by (cases s) simp
  with th_return lin_return [where os' = "th_os s", OF _ th_return(2)] show ?case
    by (intro linear_step [where t = t, OF th_return.IH]) auto
next
  case (th_close_return L s t fd ret os')
  have h: "handle os' y \<noteq> None" if "y \<noteq> fd" "handle (th_os s) y \<noteq> None" for y
    using close_ok [of "th_os s" fd] bad_fd [of "th_os s" fd] th_close_return(3) that by (cases "handle (th_os s) fd") auto
  with th_close_return lin_return [where os' = os', OF _ th_close_return(2)] show ?case
    by (intro linear_step [where t = t, OF th_close_return.IH]) auto
qed

end

section \<open>Progress\<close>

text \<open>Up to its request a call never gets stuck, whatever the other threads do.\<close>

lemma act_total:
  assumes pc: "pc_ok E c0 (entries C fd) e' (Before fd k r (a # as))" and wf: "fd_table_wf (fds C)" and st: "settled E c0 C"
    and w: "snd (snd e') \<noteq> Some HVAC_FD_OPENING" and res: "\<And>p. \<exists>b. resolves E c0 p b"
  shows "\<exists>x. act E wk a fd r C = Inr x"
proof (cases a)
  case Hash
  have "\<exists>h. host_of E C p = Inr h" for p using res [of p] settled_host [OF st] by (auto simp: resolves_def)
  then obtain h where "host_of E C (index_value [] (fd_map C) fd) = Inr h" by blast
  with Hash show ?thesis by (simp add: Let_def)
next
  case Look_Up
  with pc have h: "host_of E c0 (rg_path r) = Inr (rg_host r)" by (cases k) (auto simp: knows_def suffix_Cons)
  from res obtain b where b: "resolves E c0 (rg_path r) b" by blast
  from settled_address [OF st h b refl] obtain c2 where "lookup_server E (rg_host r) C = Inr (Some b, c2)" by blast
  with Look_Up show ?thesis by simp
next
  case Wait_Ready
  with pc have "entries C fd = e'" by (cases k) (auto simp: suffix_Cons)
  with w have "hvac_wait_fd_ready fd wk (fds C) = Inr (fd_status_of (fds C) fd = Some HVAC_FD_READY, fds C)"
    using hvac_wait_settled [OF wf] hvac_wait_unknown [OF wf] by (cases "fd_status_of (fds C) fd") (auto simp: entries_eq)
  with Wait_Ready show ?thesis by simp
qed (use st in \<open>simp_all add: ensure_mercury_def settled_def Let_def\<close>)

lemma reaches_request:
  assumes "thread_run R lops handle E s0 L s" and "lin_inv handle E c0 s c" and "th_pc s t = Before fd k r as"
    and res: "\<And>p. \<exists>b. resolves E c0 p b"
  shows "\<exists>s'. th_net s' = th_net s \<and> th_os s' = th_os s \<and> th_raced s' = th_raced s \<and> (\<forall>u. u \<noteq> t \<longrightarrow> th_pc s' u = th_pc s u) \<and>
    ((\<exists>r'. thread_run R lops handle E s0 L s' \<and> th_pc s' t = Before fd k r' [] \<and> lin_inv handle E c0 s' c) \<or>
     thread_run R lops handle E s0 (L @ [Did fd k (Got (-1, []))]) s' \<and> th_pc s' t = After fd k [] \<and>
       read_range k \<noteq> None \<and> fd_status_of (fds c) fd \<noteq> Some HVAC_FD_READY)"
  using assms(1-3)
proof (induction as arbitrary: s r)
  case Nil
  then show ?case by blast
next
  case (Cons a as)
  note D = lin_invD [OF Cons.prems(2)]
  from D(5) [of t fd] Cons.prems(3) have P: "pc_ok E c0 (entries (th_client s) fd) (entries c fd) (Before fd k r (a # as))" by auto
  have w: "snd (snd (entries c fd)) \<noteq> Some HVAC_FD_OPENING"
    using client_invD(2) [OF D(3), of fd] by (auto simp: entries_def)
  from act_total [OF P D(1,2) w res] obtain x where x: "act E [] a fd r (th_client s) = Inr x" by blast
  show ?case
  proof (cases x)
    case (Go r' C)
    note a = x [unfolded Go]
    from Cons.IH [OF th_act [OF Cons.prems(1,3) a] lin_act [OF Cons.prems(2,3) a res]] show ?thesis by fastforce
  next
    case (Refused C)
    note a = x [unfolded Refused]
    from th_refused [OF Cons.prems(1,3) a] act_refused(2,3) [OF a P D(1,3)] show ?thesis
      by (intro exI [of _ "s\<lparr>th_client := C, th_pc := (th_pc s)(t := After fd k [])\<rparr>"]) auto
  qed
qed

lemma accesses_complete:
  assumes "thread_run R lops handle E s0 L s" and "th_pc s t = After fd k xs"
  shows "\<exists>s'. thread_run R lops handle E s0 L s' \<and> th_pc s' = (th_pc s)(t := After fd k []) \<and> th_os s' = th_os s \<and> th_net s' = th_net s \<and>
    th_raced s' = th_raced s"
  using assms
proof (induction xs arbitrary: s)
  case Nil
  then show ?case by (intro exI [of _ s]) (simp add: fun_upd_idem)
next
  case (Cons x xs)
  from Cons.IH [OF th_access [OF Cons.prems]] show ?case by (simp del: fun_upd_apply add: fun_upd_same)
qed

section \<open>Properties\<close>

text \<open>
  C5: concurrent calls are linearizable. Threads open, read, pread and close files of an
  application whose Mercury is up, while the servers go on with their own work; each access to a
  table and each request is one step, and the steps interleave in any way. As long as no reply has been
  lost and no call has raced with an open or a close of its descriptor, the calls have the
  results and the servers get the requests of a run in which the functions of the library are called
  one after the other, in the order of the requests. A descriptor that no thread is opening or
  closing has the same entries in the tables in both runs, a thread that opens or closes a
  descriptor is alone on it, and the tables are consistent whenever all threads are outside.
\<close>

theorem concurrent_calls_linearizable:
  assumes "posix_files lops lcontent handle" and "client_ok E" and "client_inv (th_client s0)" and "g_mercury_init (th_client s0)"
    and "\<And>p. \<exists>a. resolves E (th_client s0) p a" and "\<And>fd. fd_map (th_client s0) fd \<noteq> None \<Longrightarrow> handle (th_os s0) fd \<noteq> None"
    and "\<And>t. th_pc s0 t = Outside" and "thread_run R lops handle E s0 L s" and "\<And>t fd. th_pc s t \<noteq> Lost fd"
    and "\<not> th_raced s"
  shows "(\<exists>c. serial_calls R E (th_net s0, th_client s0) L (th_net s, c) \<and> client_inv c \<and>
      (\<forall>fd. (\<forall>t. works_on (th_pc s t) = Some fd \<longrightarrow> \<not> writes (th_pc s t)) \<longrightarrow>
         fd_map (th_client s) fd = fd_map c fd \<and>
         index_value 0 (fd_redir_map (th_client s)) fd = index_value 0 (fd_redir_map c) fd \<and>
         fd_status_of (fds (th_client s)) fd = fd_status_of (fds c) fd)) \<and>
    (\<forall>t u fd. works_on (th_pc s t) = Some fd \<and> works_on (th_pc s u) = Some fd \<and> writes (th_pc s t) \<longrightarrow> t = u) \<and>
    ((\<forall>t. th_pc s t = Outside) \<longrightarrow> client_inv (th_client s))"
proof -
  from posix_files.thread_run_linear [OF assms(1,8,7,3,4,6,2,5)] assms(9,10) obtain c where
    run: "serial_calls R E (th_net s0, th_client s0) L (th_net s, c)" and I: "lin_inv handle E (th_client s0) s c"
    unfolding linear_def by blast
  note D = lin_invD [OF I]
  have "client_inv (th_client s)" if "\<forall>t. th_pc s t = Outside"
    by (rule client_inv_entries [OF D(1) D(7) D(3)]) (simp add: that)
  moreover have "fd_map (th_client s) fd = fd_map c fd \<and>
      index_value 0 (fd_redir_map (th_client s)) fd = index_value 0 (fd_redir_map c) fd \<and>
      fd_status_of (fds (th_client s)) fd = fd_status_of (fds c) fd"
    if "\<forall>t. works_on (th_pc s t) = Some fd \<longrightarrow> \<not> writes (th_pc s t)" for fd
    using D(7) [of fd] that by (simp add: entries_eq)
  ultimately show ?thesis using run D(3) D(6) by blast
qed

section \<open>Sample threads\<close>

definition sample_threads :: "'n \<Rightarrow> (linux, 'n) threads" where
  "sample_threads n = \<lparr>th_os = sample_os\<lparr>fdt := [5 \<mapsto> (''/data/a'', 0)]\<rparr>, th_net = n, th_client = sample_tracked ''/data/a'' 3,
     th_pc = (\<lambda>t. Outside), th_raced = False\<rparr>"

lemma sample_threads_fields:
  "th_net (sample_threads n) = n" "th_client (sample_threads n) = sample_tracked ''/data/a'' 3" "th_pc (sample_threads n) t = Outside"
  "\<not> th_raced (sample_threads n)" "fdt (th_os (sample_threads n)) = [5 \<mapsto> (''/data/a'', 0)]"
  by (simp_all add: sample_threads_def)

lemma sample_threads_start:
  "client_inv (th_client (sample_threads n))" "g_mercury_init (th_client (sample_threads n))"
  "fd_map (th_client (sample_threads n)) fd \<noteq> None \<Longrightarrow> fdt (th_os (sample_threads n)) fd \<noteq> None"
  "\<exists>a. resolves (sample_env status) (th_client (sample_threads n)) p a"
proof -
  show "client_inv (th_client (sample_threads n))" by (simp add: sample_threads_fields sample_tracked_inv)
  show "g_mercury_init (th_client (sample_threads n))"
    by (simp add: sample_threads_fields sample_tracked_def sample_opening_def)
  show "fdt (th_os (sample_threads n)) fd \<noteq> None" if "fd_map (th_client (sample_threads n)) fd \<noteq> None"
    using that by (auto simp: sample_threads_fields sample_tracked_def split: if_splits)
  have "host_of (sample_env status) (sample_tracked ''/data/a'' 3) p = Inr 0"
    by (simp add: host_of_def sample_tracked_def sample_env_def int32_id)
  with sample_tracked_host(2) show "\<exists>a. resolves (sample_env status) (th_client (sample_threads n)) p a"
    unfolding resolves_def sample_threads_fields by blast
qed

text \<open>Thread 0 opens a file while thread 1 closes another one.\<close>

abbreviation sample_thread_run :: "event list \<Rightarrow> (linux, unit) threads \<Rightarrow> bool" where
  "sample_thread_run \<equiv> thread_run (\<lambda>n n'. False) linux_ops fdt (sample_env 7) (sample_threads ())"

lemma sample_lin_inv:
  assumes "sample_thread_run L s" and "\<And>t fd. th_pc s t \<noteq> Lost fd" and "\<not> th_raced s"
  shows "\<exists>c. lin_inv fdt (sample_env 7) (th_client (sample_threads ())) s c"
  using lx.thread_run_linear [OF assms(1) sample_threads_fields(3) sample_threads_start(1-3) sample_client_ok sample_threads_start(4)]
    assms(2,3) unfolding linear_def by blast

lemma sample_run_to_send:
  obtains s r0 r1 where "sample_thread_run [] s" and "\<not> th_raced s" and "th_pc s 0 = Before 3 (Lib_Open ''/data/a'') r0 []"
    and "th_pc s 1 = Before 5 Lib_Close r1 []" and "\<And>u. u \<noteq> 0 \<Longrightarrow> u \<noteq> 1 \<Longrightarrow> th_pc s u = Outside"
proof -
  let ?s0 = "sample_threads ()"
  have p: "track_path (sample_env 7 :: unit client_env) (th_client ?s0) ''/data/a'' = Some ''/data/a''"
    by (simp add: track_path_def sample_threads_fields sample_tracked_def sample_opening_def sample_client_def sample_path)
  have c: "\<not> contains_str ''.ports.cfg.'' ''/data/a''" by code_simp
  have "free_fd (th_os ?s0) = Some 3" by (simp add: free_fd_def sample_threads_def sample_os_def upt_rec)
  then obtain os1 where o: "sys_open linux_ops (th_os ?s0) ''/data/a'' O_RDONLY 0 = (3, os1)"
      "fdt os1 = [5 \<mapsto> (''/data/a'', 0), 3 \<mapsto> (''/data/a'', 0)]"
    by (simp add: linux_ops_def linux_open_def O_RDONLY_def) (simp add: sample_threads_def sample_os_def)
  from th_open [OF th_start _ o(1) _ p c, of 0] sample_threads_fields(3) obtain s1 r where
    s1: "sample_thread_run [] s1" "th_pc s1 = (\<lambda>t. Outside)(0 := Before 3 (Lib_Open ''/data/a'') r (program (Lib_Open ''/data/a'') ''/data/a''))"
      "th_os s1 = os1" "th_client s1 = sample_tracked ''/data/a'' 3" "\<not> th_raced s1"
    by (fastforce simp: sample_threads_def)
  have no: "\<not> races fdt s1 5 Lib_Close" by (auto simp: races_def s1 o(2) fd_in_range_def)
  obtain s2 where s2: "sample_thread_run [] s2"
    "th_pc s2 = (th_pc s1)(1 := Before 5 Lib_Close no_registers (program Lib_Close []))" "\<not> th_raced s2"
    using th_close [OF s1(1), of 1 5] no s1(5) sample_tracked_fields(1) [of "''/data/a''"] by (fastforce simp: s1(2,4))
  have "th_pc s2 t \<noteq> Lost fd" for t fd by (simp add: s2(2) s1(2))
  from sample_lin_inv [OF s2(1) this s2(3)] obtain c where I: "lin_inv fdt (sample_env 7) (th_client ?s0) s2 c" by blast
  have t0: "th_pc s2 0 = Before 3 (Lib_Open ''/data/a'') r (program (Lib_Open ''/data/a'') ''/data/a'')" by (simp add: s2(2) s1(2))
  from reaches_request [OF s2(1) I t0 sample_threads_start(4)] s2(3) obtain s3 r0 where
    s3: "\<forall>u. u \<noteq> 0 \<longrightarrow> th_pc s3 u = th_pc s2 u" "sample_thread_run [] s3" "th_pc s3 0 = Before 3 (Lib_Open ''/data/a'') r0 []" "\<not> th_raced s3"
    and I3: "lin_inv fdt (sample_env 7) (th_client ?s0) s3 c" by auto
  have t1: "th_pc s3 1 = Before 5 Lib_Close no_registers (program Lib_Close [])" by (simp add: s3(1) s2(2))
  from reaches_request [OF s3(2) I3 t1 sample_threads_start(4)] s3(4) obtain s4 r1 where
    s4: "\<forall>u. u \<noteq> 1 \<longrightarrow> th_pc s4 u = th_pc s3 u" "sample_thread_run [] s4" "th_pc s4 1 = Before 5 Lib_Close r1 []" "\<not> th_raced s4" by auto
  show thesis
    by (rule that [OF s4(2,4) _ s4(3)]) (simp_all add: s4(1) s3 s2(2) s1(2))
qed

theorem concurrent_calls_linearizable_witness:
  "\<exists>s c. sample_thread_run [Did 3 (Lib_Open ''/data/a'') (Opened True), Did 5 Lib_Close Closed] s \<and> th_pc s = (\<lambda>t. Outside) \<and>
     serial_calls (\<lambda>n n'. False) (sample_env 7) ((), sample_tracked ''/data/a'' 3)
       [Did 3 (Lib_Open ''/data/a'') (Opened True), Did 5 Lib_Close Closed] (th_net s, c) \<and>
     fd_map (th_client s) 3 = fd_map c 3 \<and> fd_map (th_client s) 5 = fd_map c 5 \<and> client_inv (th_client s)"
proof -
  obtain s r0 r1 where s: "sample_thread_run [] s" "th_pc s 0 = Before 3 (Lib_Open ''/data/a'') r0 []"
    "th_pc s 1 = Before 5 Lib_Close r1 []" and nr: "\<not> th_raced s" and out: "\<And>u. u \<noteq> 0 \<Longrightarrow> u \<noteq> 1 \<Longrightarrow> th_pc s u = Outside"
    by (rule sample_run_to_send) blast
  have f: "fwd_open (sample_env 7) (th_net s) (rg_addr r0) \<lparr>open_path = rg_path r0\<rparr> = (Completes 0 \<lparr>open_ret_status = 7\<rparr>, th_net s)"
    by simp
  let ?L1 = "[Did 3 (Lib_Open ''/data/a'') (Opened True)]" and ?L2 = "[Did 3 (Lib_Open ''/data/a'') (Opened True), Did 5 Lib_Close Closed]"
  from th_send_open [OF s(1,2) f] obtain s1 where s1: "sample_thread_run ?L1 s1"
    "th_pc s1 = (th_pc s)(0 := After 3 (Lib_Open ''/data/a'') [Store_Remote 7, Mark_Status 7])" "\<not> th_raced s1"
    using nr by (simp add: HG_SUCCESS_def del: fun_upd_apply)
  have "th_pc s1 1 = Before 5 Lib_Close r1 []" using s(3) by (simp add: s1(2))
  from th_send_close [OF s1(1) this] obtain s2 where s2: "sample_thread_run ?L2 s2" "th_pc s2 = (th_pc s1)(1 := After 5 Lib_Close untrack_accesses)" "\<not> th_raced s2"
    using s1(3) by fastforce
  have "th_pc s2 0 = After 3 (Lib_Open ''/data/a'') [Store_Remote 7, Mark_Status 7]" by (simp add: s2(2) s1(2))
  from accesses_complete [OF s2(1) this] obtain s3 where s3: "sample_thread_run ?L2 s3" "th_pc s3 = (th_pc s2)(0 := After 3 (Lib_Open ''/data/a'') [])"
    "\<not> th_raced s3" using s2(3) by blast
  from th_return [OF s3(1), of 0] obtain s4 where s4: "sample_thread_run ?L2 s4" "th_pc s4 = (th_pc s3)(0 := Outside)" "\<not> th_raced s4"
    using s3(2,3) by fastforce
  have "th_pc s4 1 = After 5 Lib_Close untrack_accesses" by (simp add: s4(2) s3(2) s2(2))
  from accesses_complete [OF s4(1) this] obtain s5 where s5: "sample_thread_run ?L2 s5" "th_pc s5 = (th_pc s4)(1 := After 5 Lib_Close [])" "\<not> th_raced s5"
    using s4(3) by blast
  obtain k os' where "sys_close linux_ops (th_os s5) 5 = (k, os')" by (metis surj_pair)
  from th_close_return [OF s5(1) _ this, of 1] obtain s6 where s6: "sample_thread_run ?L2 s6" "th_pc s6 = (th_pc s5)(1 := Outside)" "\<not> th_raced s6"
    using s5(2,3) by fastforce
  have idle: "th_pc s6 t = Outside" for t
    using out [of t] by (auto simp: s6(2) s5(2) s4(2) s3(2) s2(2) s1(2))
  then have nl: "th_pc s6 t \<noteq> Lost fd" for t fd by simp
  from concurrent_calls_linearizable [OF lx.posix_files_axioms sample_client_ok sample_threads_start(1,2,4,3) sample_threads_fields(3) s6(1) nl s6(3)]
  obtain c where "serial_calls (\<lambda>n n'. False) (sample_env 7) ((), sample_tracked ''/data/a'' 3) ?L2 (th_net s6, c)"
    "fd_map (th_client s6) 3 = fd_map c 3 \<and> fd_map (th_client s6) 5 = fd_map c 5" "client_inv (th_client s6)"
    by (auto simp: idle sample_threads_fields)
  with s6(1) idle show ?thesis by (intro exI [of _ s6] exI [of _ c]) (auto simp: fun_eq_iff)
qed

end
