(* ===== verification/HVAC_Shared.thy ===== *)
theory HVAC_Shared
  imports HVAC_Linearization
begin

text \<open>
  Threads that share descriptors, on the servers of \<open>HVAC_System\<close>: what the equivalence of \<open>HVAC_Linearization\<close>
  gives for the bytes the threads get.
\<close>

section \<open>The file in the order of the requests\<close>

text \<open>
  \<open>in_order d fd off L\<close>: the events on \<open>fd\<close> are reads and preads with the bytes of a file \<open>d\<close>, each read
  from where the one before it stopped, the first from \<open>off\<close>. \<open>position\<close> is where the last one stopped.
\<close>

fun in_order :: "byte list \<Rightarrow> int \<Rightarrow> nat \<Rightarrow> event list \<Rightarrow> bool" where
  "in_order d fd off [] = True"
| "in_order d fd off (Others # L) = in_order d fd off L"
| "in_order d fd off (Did f k res # L) =
     (if f \<noteq> fd then in_order d fd off L
      else case (k, res) of
        (Lib_Read count, Got (r, b)) \<Rightarrow> b = chunk d off count \<and> r = int (length b) \<and> in_order d fd (off + length b) L
      | (Lib_Pread count pos, Got (r, b)) \<Rightarrow> b = chunk d (nat pos) count \<and> r = int (length b) \<and> in_order d fd off L
      | _ \<Rightarrow> False)"

fun position :: "int \<Rightarrow> nat \<Rightarrow> event list \<Rightarrow> nat" where
  "position fd off [] = off"
| "position fd off (Did f (Lib_Read count) (Got (r, b)) # L) = position fd (if f = fd then off + length b else off) L"
| "position fd off (e # L) = position fd off L"

text \<open>The calls on \<open>fd\<close> in the run: reads and preads below 2 GiB, no close.\<close>

fun reads_only :: "int \<Rightarrow> event \<Rightarrow> bool" where
  "reads_only fd Others = True"
| "reads_only fd (Did f (Lib_Open path) res) = (f \<noteq> fd)"
| "reads_only fd (Did f (Lib_Read count) res) = (f = fd \<longrightarrow> 0 \<le> count \<and> count < 2 ^ 31)"
| "reads_only fd (Did f (Lib_Pread count pos) res) = (f = fd \<longrightarrow> 0 \<le> count \<and> count < 2 ^ 31 \<and> 0 \<le> pos)"
| "reads_only fd (Did f Lib_Close res) = (f \<noteq> fd)"

lemma in_order_snoc:
  "in_order d fd off (L @ [e]) \<longleftrightarrow> in_order d fd off L \<and> in_order d fd (position fd off L) [e]"
proof (induction d fd off L rule: in_order.induct)
  case (3 d fd off f k res L)
  then show ?case by (cases k; cases res) auto
qed auto

lemma position_snoc: "position fd off (L @ [e]) = position fd (position fd off L) [e]"
  by (induction fd off L rule: position.induct) auto

lemma position_other: "f \<noteq> fd \<Longrightarrow> position fd off [Did f k res] = off"
  by (cases k; cases res) auto

section \<open>The serial run on the servers\<close>

definition mover_moves :: "'o posix_ops \<Rightarrow> (string \<Rightarrow> string) \<Rightarrow> 'o cluster \<Rightarrow> 'o cluster \<Rightarrow> bool" where
  "mover_moves ops nvmepath n n' \<longleftrightarrow> (\<exists>a s s'. n a = Some s \<and> mover_step ops (nvmepath a) s s' \<and> n' = n(a \<mapsto> s'))"

text \<open>The position of a descriptor against the events so far, client \<open>k\<close> being the one with the threads.\<close>

definition tracks_file ::
    "('o \<Rightarrow> string \<rightharpoonup> byte list) \<Rightarrow> ('o \<Rightarrow> int \<rightharpoonup> (string \<times> nat)) \<Rightarrow> (nat \<Rightarrow> 'o cluster client_env) \<Rightarrow> nat \<Rightarrow>
     (nat \<Rightarrow> client) \<Rightarrow> int \<Rightarrow> string \<Rightarrow> nat \<Rightarrow> byte list \<Rightarrow> event list \<Rightarrow> 'o cluster \<Rightarrow> client \<Rightarrow> bool" where
  "tracks_file content handle Es k cs fd p off d L n c \<longleftrightarrow> system_inv content handle Es n (cs(k := c)) \<and>
     linked content handle (Es k) n c fd p (position fd off L) d \<and> in_order d fd off L"

lemma resolves_connect: "resolves (connect ops hg E) = resolves E"
  by (simp add: resolves_def fun_eq_iff)

lemma client_ok_connect: "client_ok (connect ops hg E) = client_ok E"
  by (simp add: client_ok_def connect_def)

context posix_files
begin

lemma tracks_file_other:
  assumes T: "tracks_file content handle Es k cs fd p off d L n c" and hg: "mercury_ok hg" and f: "f \<noteq> fd"
    and st: "system_step ops hg Es nvmepath (Call k f) (n, cs(k := c)) (n', (cs(k := c))(k := c'))"
  shows "tracks_file content handle Es k cs fd p off d (L @ [Did f x res]) n' c'"
proof -
  from T have inv: "system_inv content handle Es n (cs(k := c))" and l: "linked content handle (Es k) n ((cs(k := c)) k) fd p (position fd off L) d"
    and o: "in_order d fd off L" by (simp_all add: tracks_file_def)
  from system_step_inv(1) [OF st inv hg] system_step_inv(2) [OF st inv hg l] f o show ?thesis
    by (simp add: tracks_file_def in_order_snoc position_snoc position_other)
qed

lemma serial_tracks_file:
  assumes "serial_calls (mover_moves ops nvmepath) (connect ops hg (Es k)) x L y" and "x = (n0, cs k)"
    and "system_inv content handle Es n0 cs" and hg: "mercury_ok hg" and ok: "client_ok (Es k)"
    and "linked content handle (Es k) n0 (cs k) fd p off d" and "\<forall>e \<in> set L. reads_only fd e"
  shows "tracks_file content handle Es k cs fd p off d L (fst y) (snd y)"
  using assms(1,2,3,6,7)
proof (induction rule: serial_calls.induct)
  case sc_nil
  then show ?case by (simp add: tracks_file_def)
next
  case (sc_others L n c n')
  then have T: "tracks_file content handle Es k cs fd p off d L n c" by simp
  from sc_others.hyps(2) obtain a s s' where m: "n a = Some s" "mover_step ops (nvmepath a) s s'" "n' = n(a \<mapsto> s')"
    by (auto simp: mover_moves_def)
  have st: "system_step ops hg Es nvmepath Background (n, cs(k := c)) (n', cs(k := c))" unfolding m(3) using m(1,2) by (rule sys_mover)
  from T have inv: "system_inv content handle Es n (cs(k := c))" and l: "linked content handle (Es k) n ((cs(k := c)) k) fd p (position fd off L) d"
    and o: "in_order d fd off L" by (simp_all add: tracks_file_def)
  from system_step_inv(1) [OF st inv hg] system_step_inv(2) [OF st inv hg l] o show ?case
    by (simp add: tracks_file_def in_order_snoc position_snoc)
next
  case (sc_open L n c f path b n' c')
  then have T: "tracks_file content handle Es k cs fd p off d L n c" and f: "f \<noteq> fd" by auto
  have "system_step ops hg Es nvmepath (Call k f) (n, cs(k := c)) (n', (cs(k := c))(k := c'))"
    by (rule sys_track) (use sc_open.hyps in auto)
  from tracks_file_other [OF T hg f this] show ?case by simp
next
  case (sc_read L n c f count wk res n' c')
  then have T: "tracks_file content handle Es k cs fd p off d L n c" by auto
  have st: "system_step ops hg Es nvmepath (Call k f) (n, cs(k := c)) (n', (cs(k := c))(k := c'))"
    by (rule sys_read) (use sc_read.hyps in auto)
  show ?case
  proof (cases "f = fd")
    case False
    from tracks_file_other [OF T hg False st] show ?thesis by simp
  next
    case True
    with sc_read.prems have "0 \<le> count" "count < 2 ^ 31" by auto
    then have i: "int32 count = count" "0 \<le> int32 count" by (simp_all add: int32_id)
    from T have inv: "system_inv content handle Es n (cs(k := c))" and l: "linked content handle (Es k) n c fd p (position fd off L) d"
      and o: "in_order d fd off L" by (simp_all add: tracks_file_def)
    have "client_inv c" using system_invD(2) [OF inv, of k] by simp
    from remote_read_linked [OF this hg ok l i(2), of wk] sc_read.hyps(2) True i(1)
      system_step_inv(1) [OF st inv hg] o show ?thesis
      by (auto simp: tracks_file_def in_order_snoc position_snoc)
  qed
next
  case (sc_pread L n c f count pos wk res n' c')
  then have T: "tracks_file content handle Es k cs fd p off d L n c" by auto
  have st: "system_step ops hg Es nvmepath (Call k f) (n, cs(k := c)) (n', (cs(k := c))(k := c'))"
    by (rule sys_pread) (use sc_pread.hyps in auto)
  show ?case
  proof (cases "f = fd")
    case False
    from tracks_file_other [OF T hg False st] show ?thesis by simp
  next
    case True
    with sc_pread.prems have "0 \<le> count" "count < 2 ^ 31" and pos: "0 \<le> pos" by auto
    then have i: "int32 count = count" "0 \<le> int32 count" by (simp_all add: int32_id)
    from T have inv: "system_inv content handle Es n (cs(k := c))" and l: "linked content handle (Es k) n c fd p (position fd off L) d"
      and o: "in_order d fd off L" by (simp_all add: tracks_file_def)
    have "client_inv c" using system_invD(2) [OF inv, of k] by simp
    from remote_pread_linked [OF this hg ok l i(2) pos, of wk] sc_pread.hyps(2) True i(1)
      system_step_inv(1) [OF st inv hg] o show ?thesis
      by (auto simp: tracks_file_def in_order_snoc position_snoc)
  qed
next
  case (sc_close L n c f b n' c')
  then have T: "tracks_file content handle Es k cs fd p off d L n c" and f: "f \<noteq> fd" by auto
  have "system_step ops hg Es nvmepath (Call k f) (n, cs(k := c)) (n', (cs(k := c))(k := c'))"
    by (rule sys_remove) (use sc_close.hyps in auto)
  from tracks_file_other [OF T hg f this] show ?case by simp
qed

text \<open>A read of a linked descriptor that has begun can return.\<close>

lemma read_returns:
  assumes run: "thread_run R lops lhandle (connect ops hg E) s0 L s" and I: "lin_inv lhandle (connect ops hg E) c0 s c"
    and l: "linked content handle E (th_net s) c fd p off d" and hg: "mercury_ok hg" and t: "th_pc s t = Before fd k r as"
    and k: "read_range k = Some (count, pos)" "0 \<le> int32 count" "pos = -1 \<or> 0 \<le> pos"
    and res: "\<And>p. \<exists>a. resolves E c0 p a"
  shows "\<exists>data s'. thread_run R lops lhandle (connect ops hg E) s0 (L @ [Did fd k (Got (int (length data), data))]) s' \<and>
    th_pc s' = (th_pc s)(t := Outside) \<and> th_raced s' = th_raced s"
proof -
  let ?E = "connect ops hg E"
  from l obtain a sv rfd h where m: "fd_status_of (fds c) fd = Some HVAC_FD_READY" "fd_map c fd = Some p"
    and a: "resolves E c p a" "th_net s a = Some sv" and r: "fd_redir_map c fd = Some rfd"
    and h: "handle (srv_os sv) rfd = Some (h, off)" "content (srv_os sv) h = Some d" unfolding linked_def by blast
  have res': "\<exists>a. resolves ?E c0 p a" for p using res by (simp add: resolves_connect)
  from reaches_request [OF run I t res'] m(1) obtain s1 r1 where s1: "th_net s1 = th_net s" "\<forall>u. u \<noteq> t \<longrightarrow> th_pc s1 u = th_pc s u"
    "thread_run R lops lhandle ?E s0 L s1" "th_pc s1 t = Before fd k r1 []" "th_raced s1 = th_raced s" and I1: "lin_inv lhandle ?E c0 s1 c" by auto
  note D = lin_invD [OF I1]
  from D(5) [of t fd] s1(4) have "pc_ok ?E c0 (entries (th_client s1) fd) (entries c fd) (Before fd k r1 [])" by auto
  then have kn: "knows ?E c0 (entries c fd) r1 []" "entries (th_client s1) fd = entries c fd" by (auto simp: pc_ok_read [OF k(1)])
  from kn(2) r have rd: "index_value 0 (fd_redir_map (th_client s1)) fd = rfd" by (simp add: entries_def)
  from kn m(2) r have q: "rg_path r1 = p" by (auto simp: knows_def entries_def)
  from kn q obtain b where b: "rg_addr r1 = Some b" "resolves ?E c0 p b" by (auto simp: knows_def)
  with D(4) have "resolves E c p b" by (simp add: settled_def resolves_connect)
  with a(1) resolves_unique b(1) have addr: "rg_addr r1 = Some a" by metis
  from serve_read_linked [OF hg h k(2) int32_bounds(2) int32_le_uint64 [OF k(2)] k(3)] obtain data sv' where
    sv: "serve_read ops hg \<lparr>input_val = int32 count, bulk_size = uint64 count, accessfd = rfd, rpc_offset = pos\<rparr> sv =
      Inr ((\<lparr>rpc_ret = int (length data)\<rparr>, data), sv')" by blast
  have f: "fwd_read ?E (th_net s1) (rg_addr r1) (read_request fd (th_client s1) (count, pos)) =
      (Completes 0 (\<lparr>rpc_ret = int (length data)\<rparr>, data), (th_net s)(a \<mapsto> sv'))"
    using sv a(2) by (simp add: client_ops read_request_def rd addr s1(1) deliver_def)
  let ?s2 = "s1\<lparr>th_net := (th_net s)(a \<mapsto> sv'), th_pc := (th_pc s1)(t := After fd k [])\<rparr>"
  have r2: "thread_run R lops lhandle ?E s0 (L @ [Did fd k (Got (int (length data), data))]) ?s2"
    using th_send_read [OF s1(3,4) k(1) f] by (simp add: HG_SUCCESS_def)
  have "thread_run R lops lhandle ?E s0 (L @ [Did fd k (Got (int (length data), data))]) (?s2\<lparr>th_pc := (th_pc ?s2)(t := Outside)\<rparr>)"
    by (rule th_return [OF r2, of t fd k]) (use read_shape [OF k(1)] in auto)
  moreover have "(th_pc ?s2)(t := Outside) = (th_pc s)(t := Outside)" "th_raced ?s2 = th_raced s"
    using s1(2,5) by (auto simp: fun_eq_iff)
  ultimately show ?thesis by (intro exI) auto
qed

end

section \<open>Properties\<close>

text \<open>
  C6: threads that share a descriptor read the file. A descriptor that is linked to a file of a server
  may be read by any number of threads at once, while other threads open, read and close other files
  and movers copy. As long as no reply has been lost and no call has raced with an open or a close of its descriptor: in the order of their requests the reads return the bytes of the file without gap or
  repetition, the preads return the bytes at their offsets, and no read that has begun has to wait for
  any other thread.
\<close>

theorem threads_share_descriptor:
  assumes "posix_files lops lcontent lhandle" and "posix_files ops content handle" and "mercury_ok hg" and "client_ok (Es k)"
    and "system_inv content handle Es (th_net s0) cs" and "cs k = th_client s0"
    and "linked content handle (Es k) (th_net s0) (th_client s0) fd p off d" and "g_mercury_init (th_client s0)"
    and "\<And>p. \<exists>a. resolves (Es k) (th_client s0) p a"
    and "\<And>fd. fd_map (th_client s0) fd \<noteq> None \<Longrightarrow> lhandle (th_os s0) fd \<noteq> None" and "\<And>t. th_pc s0 t = Outside"
    and "thread_run (mover_moves ops nvmepath) lops lhandle (connect ops hg (Es k)) s0 L s" and "\<And>t fd. th_pc s t \<noteq> Lost fd"
    and "\<not> th_raced s" and "\<forall>e \<in> set L. reads_only fd e"
  shows "in_order d fd off L \<and>
    (\<forall>t call r as. th_pc s t = Before fd call r as \<and> (\<forall>res. reads_only fd (Did fd call res)) \<longrightarrow>
       (\<exists>res s'. thread_run (mover_moves ops nvmepath) lops lhandle (connect ops hg (Es k)) s0 (L @ [Did fd call res]) s' \<and>
          th_pc s' = (th_pc s)(t := Outside) \<and> th_raced s' = th_raced s))"
proof -
  let ?E = "connect ops hg (Es k)"
  have inv: "client_inv (th_client s0)" using system_invD(2) [OF assms(5), of k] assms(6) by simp
  have ok: "client_ok ?E" using assms(4) by (simp add: client_ok_connect)
  have res: "\<exists>a. resolves ?E (th_client s0) p a" for p using assms(9) by (simp add: resolves_connect)
  from posix_files.thread_run_linear [OF assms(1,12,11) inv assms(8,10) ok res] assms(13,14) obtain c where
    run: "serial_calls (mover_moves ops nvmepath) ?E (th_net s0, cs k) L (th_net s, c)" and I: "lin_inv lhandle ?E (th_client s0) s c"
    unfolding linear_def assms(6) by blast
  from posix_files.serial_tracks_file [OF assms(2) run refl assms(5,3,4) _ assms(15)] assms(6,7) have
    T: "tracks_file content handle Es k cs fd p off d L (th_net s) c" by simp
  then have l: "linked content handle (Es k) (th_net s) c fd p (position fd off L) d" by (simp add: tracks_file_def)
  have "\<exists>res s'. thread_run (mover_moves ops nvmepath) lops lhandle ?E s0 (L @ [Did fd call res]) s' \<and> th_pc s' = (th_pc s)(t := Outside) \<and>
      th_raced s' = th_raced s"
    if t: "th_pc s t = Before fd call r as" and v: "\<forall>res. reads_only fd (Did fd call res)" for t call r as
  proof -
    from v obtain count pos where k: "read_range call = Some (count, pos)" "0 \<le> int32 count" "pos = -1 \<or> 0 \<le> pos"
      by (cases call) (auto simp: int32_id)
    from posix_files.read_returns [OF assms(2,12) I l assms(3) t k assms(9)] show ?thesis by blast
  qed
  with T show ?thesis by (simp add: tracks_file_def)
qed

section \<open>Two threads on one descriptor\<close>

abbreviation shared_run :: "event list \<Rightarrow> (linux, linux cluster) threads \<Rightarrow> bool" where
  "shared_run \<equiv> thread_run (mover_moves linux_ops (\<lambda>a. ''/bb/XXXXXX'')) linux_ops fdt sample_net
     (sample_threads (sample_cluster (opened_server Mover_Locking)))"

text \<open>Both have begun before either sends its request.\<close>

lemma sample_both_reading:
  obtains s where "shared_run [] s" and "th_pc s 0 = Before 5 (Lib_Read 2) no_registers (program (Lib_Read 2) [])"
    and "th_pc s (Suc 0) = Before 5 (Lib_Pread 2 3) no_registers (program (Lib_Pread 2 3) [])"
    and "\<And>t fd. th_pc s t \<noteq> Lost fd" and "\<not> th_raced s"
proof -
  let ?s0 = "sample_threads (sample_cluster (opened_server Mover_Locking))"
  have 0: "\<not> races fdt ?s0 5 (Lib_Read 2)" by (simp add: races_def sample_threads_fields fd_in_range_def)
  obtain s1 where s1: "shared_run [] s1" "th_pc s1 = (th_pc ?s0)(0 := Before 5 (Lib_Read 2) no_registers (program (Lib_Read 2) []))"
    "\<not> th_raced s1" "th_client s1 = th_client ?s0" "th_os s1 = th_os ?s0"
  proof (rule that)
    show "shared_run [] (?s0\<lparr>th_pc := (th_pc ?s0)(0 := Before 5 (Lib_Read 2) no_registers (program (Lib_Read 2) [])),
        th_raced := (th_raced ?s0 \<or> races fdt ?s0 5 (Lib_Read 2))\<rparr>)"
      by (rule th_read [OF th_start]) (simp_all add: sample_threads_fields)
  qed (use 0 in \<open>simp_all add: sample_threads_fields\<close>)
  have 1: "\<not> races fdt s1 5 (Lib_Pread 2 3)" by (simp add: races_def s1(2,5) sample_threads_fields fd_in_range_def)
  obtain s2 where s2: "shared_run [] s2" "th_pc s2 = (th_pc s1)(Suc 0 := Before 5 (Lib_Pread 2 3) no_registers (program (Lib_Pread 2 3) []))"
    "\<not> th_raced s2"
  proof (rule that)
    show "shared_run [] (s1\<lparr>th_pc := (th_pc s1)(Suc 0 := Before 5 (Lib_Pread 2 3) no_registers (program (Lib_Pread 2 3) [])),
        th_raced := (th_raced s1 \<or> races fdt s1 5 (Lib_Pread 2 3))\<rparr>)"
      by (rule th_read [OF s1(1)]) (simp_all add: s1(2,4) sample_threads_fields sample_tracked_fields)
  qed (use 1 s1(3) in simp_all)
  show thesis by (rule that [OF s2(1) _ _ _ s2(3)]) (simp_all add: s2(2) s1(2) sample_threads_fields)
qed

theorem threads_share_descriptor_witness:
  "\<exists>s. shared_run [Did 5 (Lib_Pread 2 3) (Got (2, [40, 50])), Did 5 (Lib_Read 2) (Got (2, [10, 20]))] s"
proof -
  let ?s0 = "sample_threads (sample_cluster (opened_server Mover_Locking))" and ?d = "[10, 20, 30, 40, 50]"
  let ?cs = "sample_clients(0 := sample_tracked ''/data/a'' 3)" and ?Es = "\<lambda>k. sample_env 0 :: linux cluster client_env"
  have inv: "system_inv files fdt ?Es (th_net ?s0) ?cs"
    using lx.system_run_inv [OF sample_system_run system_inv_start [OF sample_cluster_inv sample_start(1,2)] sample_mercury_ok(1)]
    by (simp add: sample_threads_fields)
  have l: "linked files fdt (?Es 0) (th_net ?s0) (th_client ?s0) 5 ''/data/a'' 0 ?d"
    using sample_linked by (simp add: sample_threads_fields)
  have T: "in_order ?d 5 0 L \<and> (\<forall>t call r as. th_pc s t = Before 5 call r as \<and> (\<forall>res. reads_only 5 (Did 5 call res)) \<longrightarrow>
       (\<exists>res s'. shared_run (L @ [Did 5 call res]) s' \<and> th_pc s' = (th_pc s)(t := Outside) \<and> th_raced s' = th_raced s))"
    if run: "shared_run L s" and nl: "\<And>t fd. th_pc s t \<noteq> Lost fd" and nr: "\<not> th_raced s" and v: "\<forall>e \<in> set L. reads_only 5 e" for L s
    using threads_share_descriptor [where Es = ?Es and k = 0, OF lx.posix_files_axioms lx.posix_files_axioms sample_mercury_ok(1) sample_client_ok inv _ l
        sample_threads_start(2,4,3) sample_threads_fields(3) run nl nr v] by (simp add: sample_threads_fields)
  obtain s where s: "shared_run [] s" "th_pc s 0 = Before 5 (Lib_Read 2) no_registers (program (Lib_Read 2) [])"
    "th_pc s (Suc 0) = Before 5 (Lib_Pread 2 3) no_registers (program (Lib_Pread 2 3) [])" "\<And>t fd. th_pc s t \<noteq> Lost fd"
    "\<not> th_raced s" by (rule sample_both_reading) blast
  have N: "\<exists>res s'. shared_run (L @ [Did 5 call res]) s' \<and> th_pc s' = (th_pc s)(t := Outside) \<and> th_raced s' = th_raced s"
    if "shared_run L s" "\<And>t fd. th_pc s t \<noteq> Lost fd" "\<not> th_raced s" "\<forall>e \<in> set L. reads_only 5 e" "th_pc s t = Before 5 call r as"
      "\<forall>res. reads_only 5 (Did 5 call res)" for L s t call r as
    using conjunct2 [OF T [OF that(1-4)]] that(5,6) by blast
  from N [OF s(1,4,5) _ s(3)] s(5) obtain x1 s1 where s1: "shared_run ([] @ [Did 5 (Lib_Pread 2 3) x1]) s1" "th_pc s1 = (th_pc s)(Suc 0 := Outside)"
    "\<not> th_raced s1" by auto
  have nl1: "th_pc s1 t \<noteq> Lost fd" for t fd using s(4) by (simp add: s1(2))
  have t0: "th_pc s1 0 = Before 5 (Lib_Read 2) no_registers (program (Lib_Read 2) [])" by (simp add: s1(2) s(2))
  from N [OF s1(1) nl1 s1(3) _ t0] s1(3) obtain x0 s2 where s2: "shared_run [Did 5 (Lib_Pread 2 3) x1, Did 5 (Lib_Read 2) x0] s2"
    "th_pc s2 = (th_pc s1)(0 := Outside)" "\<not> th_raced s2" by auto
  have nl2: "th_pc s2 t \<noteq> Lost fd" for t fd using nl1 by (simp add: s2(2))
  from T [OF s2(1) nl2 s2(3)] have "in_order ?d 5 0 [Did 5 (Lib_Pread 2 3) x1, Did 5 (Lib_Read 2) x0]" by simp
  then have "x1 = Got (2, [40, 50])" "x0 = Got (2, [10, 20])"
    by (auto simp: chunk_def MAX_RW_COUNT_def numeral_2_eq_2 numeral_3_eq_3 split: lib_result.splits prod.splits)
  with s2(1) show ?thesis by blast
qed

end
