(* ===== verification/HVAC_First_Calls.thy ===== *)
theory HVAC_First_Calls
  imports HVAC_Client
begin

text \<open>
  The first tracked opens of several threads (\<open>mthvac_client.cpp\<close>, \<open>hvac_track_file\<close>). Mercury is
  initialised on first use: the flag \<open>g_mercury_init\<close> is tested, and set after the initialisation and
  the registration of the requests, without a lock. The four parts are steps that interleave. A second
  initialisation gives a new Mercury class, in which nothing is registered.
\<close>

section \<open>Steps\<close>





section \<open>Invariant\<close>













section \<open>Properties\<close>



end
