(* ===== verification/Spec2Isabelle.thy ===== *)
theory Spec2Isabelle
  imports HVAC_Transparency HVAC_Deployment HVAC_Loss HVAC_Preload HVAC_Threads HVAC_Sessions HVAC_Wire HVAC_Locks HVAC_Client_Stats
    HVAC_Reports HVAC_Shared HVAC_First_Calls
begin

text \<open>
  \<^bold>\<open>MT-HVAC\<close>. A client library, loaded with LD_PRELOAD, intercepts open, close, read and pread of an
  application. A file below the data directory is tracked: the library asks one of the servers, chosen
  by a hash of the path, to open the file, and the reads of the application become requests to that
  server. When a file is closed the server queues it for its data mover thread, which copies it to a
  fast local device; later opens of the path are redirected to the copy. Servers post their addresses
  in a text file that clients read. Both sides speak Mercury RPC and keep timing statistics and logs.

  \<^bold>\<open>Theories and sources\<close> (under src/src/).

  \<^item> \<open>HVAC_Prelude\<close>: faults and sequencing (\<open>run\<close>), C integer conversions, \<open>operator[]\<close> of the
    standard maps, decimal text (\<open>atoi\<close>, \<open>%d\<close>), with their lemmas. A failed \<open>assert\<close>, \<open>exit\<close>, a
    null pointer access, a division by zero, a write past a buffer and a wait nobody ends are values.
  \<^item> \<open>HVAC_Posix\<close>: the system calls as the record \<open>posix_ops\<close>; the locale \<open>posix_files\<close> has the laws
    for regular files the code relies on, and \<open>linux_ops\<close> with the interpretation \<open>lx\<close> shows that a
    file system with finite descriptors and finite space meets them.
  \<^item> \<open>HVAC_Data_Mover\<close> (mthvac_data_mover.cpp): the globals shared with the handlers, the queue with the
    locale \<open>fifo_queue\<close>, \<open>hvac_data_mover_fn\<close> as the step relation \<open>mover_step\<close> and as the function
    \<open>mover_round\<close> for one round.
  \<^item> \<open>HVAC_Comm\<close> (mthvac_comm.h, mthvac_comm.cpp): the messages, the request handlers, and the runs of a
    server \<open>server_step\<close>, in which handlers and mover interleave.
  \<^item> \<open>HVAC_Engine\<close> (mthvac_comm.cpp and the registration lists of both sides): \<open>hvac_init_comm\<close>, the
    progress loop, shutdown, registration.
  \<^item> \<open>HVAC_Address\<close>: \<open>hvac_comm_list_addr\<close> (mthvac_comm.cpp) and \<open>hvac_client_comm_lookup_addr\<close>
    (mthvac_comm_client.cpp) over the text of the address file.
  \<^item> \<open>HVAC_Fd_State\<close> (mthvac_comm_client.cpp, lines 39 to 170): the status objects and their table, the
    locale \<open>fd_status_table\<close> with its interpretation \<open>ft\<close>, the wait with its deadline, the threads at
    the sharded locks with the lock each function takes.
  \<^item> \<open>HVAC_Comm_Client\<close> (mthvac_comm_client.cpp): RPC generators, callbacks, synchronisation context.
  \<^item> \<open>HVAC_Client\<close> (mthvac_client.cpp): start-up, the tracking decision, the remote operations, the script
    interface; the invariant \<open>client_inv\<close> and the runs \<open>client_step\<close>.
  \<^item> \<open>HVAC_Wrappers\<close> (wrappers.c, mthvac_internal.h): the intercepted calls and their statistics.
  \<^item> \<open>HVAC_System\<close>: client and servers composed (\<open>connect\<close>, \<open>deliver\<close>), the relation \<open>linked\<close> between a local
    descriptor and the file its server reads, and the properties that span both sides.
  \<^item> \<open>HVAC_Isolation\<close>: any number of clients with the servers and their movers, the runs
    \<open>system_run\<close>, in which servers can be lost, what one call can change (\<open>server_frame\<close>, \<open>client_frame\<close>) and who owns a remote
    descriptor.
  \<^item> \<open>HVAC_Application\<close>, \<open>HVAC_Transparency\<close>: an application that opens, reads, preads and closes files,
    on the operating system alone and through the wrappers with everything behind them; the relation
    \<open>mirror\<close> between the two and the forward simulation, in the locale \<open>mirrored_storage\<close>.
  \<^item> \<open>HVAC_Deployment\<close>: the servers of a job started one after the other (\<open>server_main\<close>), then a client
    (\<open>hvac_client_init\<close>): they establish what \<open>HVAC_Transparency\<close> assumes of the client.
  \<^item> \<open>HVAC_Loss\<close>: what the wrappers do when the server of an open file has disappeared.
  \<^item> \<open>HVAC_Preload\<close> (src/tests/my_ldpreload.cpp): the library for comparison measurements.
  \<^item> \<open>HVAC_Threads\<close> (mthvac_comm_client.cpp, with the progress loop of mthvac_comm.cpp): application
    threads inside the generators and the callbacks on the progress thread as small steps, with the
    life time of the synchronisation contexts and of the callback arguments. Changes of the shared
    maps take two steps; \<open>overlapped\<close> notes that one has met another access of its map.
  \<^item> \<open>HVAC_Sessions\<close> (wrappers.c, mthvac_client.cpp, mthvac_comm_client.cpp): threads that open, read and
    close at the same time, each access to a table of the client a step; and the same operations one
    after the other by the functions of \<open>HVAC_Client\<close>.
  \<^item> \<open>HVAC_Linear\<close>, \<open>HVAC_Linear_Steps\<close>, \<open>HVAC_Linearization\<close> (the same files): the calls of
    several threads cut at every access to a table and at their request to a server (\<open>program\<close>, \<open>act\<close>,
    \<open>thread_run\<close>), with reads and preads that share descriptors; \<open>th_raced\<close> notes that a descriptor was read
    or closed that was not open or that another thread was opening or closing; the invariant \<open>lin_inv\<close> and the
    equivalence with runs in which the functions of \<open>HVAC_Client\<close> are called one at a time (\<open>serial_calls\<close>).
  \<^item> \<open>HVAC_Shared\<close>: these threads on the servers of \<open>HVAC_System\<close>.
  \<^item> \<open>HVAC_First_Calls\<close> (mthvac_client.cpp, lines 146 to 151): the first tracked opens of several threads.
  \<^item> \<open>HVAC_Wire\<close> (mthvac_comm.h): the types of the messages and a record of all that a client sends.
  \<^item> \<open>HVAC_Locks\<close>: the lazy initialisation of the lock array (mthvac_comm_client.cpp, lines 65 to 82)
    and the accesses of handlers and mover to the data they share (mthvac_comm.cpp,
    mthvac_data_mover.cpp).
  \<^item> \<open>HVAC_Server_Stats\<close> (mthvac_comm.cpp, mthvac_timer.h): the handlers with their timing guards.
  \<^item> \<open>HVAC_Client_Stats\<close> (mthvac_client.cpp, mthvac_comm_client.cpp): the client functions with theirs,
    and the guard of a callback, which records after the callback has woken its caller.
  \<^item> \<open>HVAC_Reports\<close> (mthvac_timer.h): a reader of the exported call histories.
  \<^item> \<open>HVAC_Timer\<close> (mthvac_timer.h), \<open>HVAC_Logging\<close> (hvac_logging.h, hvac_logging.c), \<open>HVAC_Server\<close>
    (mthvac_server.cpp).

  \<^bold>\<open>How code becomes definitions\<close>. The globals of a component are a record; a function takes the record
  and returns it updated; a function that can stop the process returns \<open>fault + result\<close>. Definitions keep
  the names of the code; a part of a function with a name of its own (for example \<open>read_file\<close>,
  \<open>track_path\<close>) is mapped to its lines. Integers are \<open>int\<close> with the conversions of the code written out
  (\<open>int32\<close>, \<open>uint64\<close>), flags are 32-bit words. A shared pointer is an address in a store. Threads are
  step relations: the mover against the handlers, the application threads against the progress thread,
  the users of the sharded locks, the calls of an application against each other. Where a function exists both in one piece and as steps, a theorem ties
  the two: \<open>mover_round_completes\<close> for the mover, \<open>threaded_open_refines\<close> for the open generator. Timing guards are left out of the functions and added in
  theories of their own; \<open>erases_calls\<close> says for the client that the functions are the same but for the timers.

  \<^bold>\<open>Parameters\<close>. Mercury (records \<open>mercury\<close>, \<open>engine_env\<close>, \<open>client_env\<close>), the operating system
  (\<open>posix_ops\<close>), \<open>std::hash\<close>, \<open>canonical\<close>, the environment variables, log4c, number formatting and the
  iteration order of hash maps. What is assumed of them is stated where it is used: \<open>posix_files\<close>,
  \<open>mercury_ok\<close> (no call fails), \<open>bulk_bounded\<close> (a transfer beyond a registered region is refused),
  \<open>client_ok\<close>, and \<open>mercury_up\<close> where Mercury has to come up. In \<open>connect\<close> a request reaches the server
  with its address at once. What Mercury makes of a request whose server is gone (\<open>hg_gone\<close>) or aborts while it
  handles the request (\<open>hg_aborts\<close>) is a parameter: it is refused, reported to the callback as an error, or never
  heard of again. The theorems hold for all choices and say what each leads to.

  \<^bold>\<open>What is shown\<close>. The interception is transparent: while movers and other clients work, every
  open, read, pread and close of an application returns what it would have returned without the
  library, provided the servers have the files of the data set as the application sees them, counts are
  below 2 GiB, offsets are not negative and no server the application uses is lost, to an abort or otherwise
  (\<open>HVAC_Transparency\<close>); files whose remote
  open fails are covered. A job started by \<open>server_main\<close> and
  \<open>hvac_client_init\<close> meets the assumptions on the client, and if Mercury can be initialised it is up with all
  requests registered on both sides (\<open>HVAC_Deployment\<close>). After the loss of a server closes stay right; if its
  requests are refused, preads stay right and reads start again at the beginning of the file; a call that waits for a
  reply from the lost server does not return (\<open>HVAC_Loss\<close>).
  Seen from the servers, reads and preads of a tracked file return the bytes of the file on its
  server (\<open>HVAC_System\<close>), whatever other clients, other descriptors and the movers do short of the loss
  of this server, and no remote descriptor has two owners (\<open>HVAC_Isolation\<close>). Servers keep their cache coherent
  and never change a file that exists, in all reachable states (\<open>HVAC_Comm\<close>); the mover finishes its
  rounds and a closed file is found in the cache afterwards. The client tables stay consistent in all
  reachable states, reads never block between calls, removal leaves no trace (\<open>HVAC_Client\<close>); what is sent fits its types (\<open>HVAC_Wire\<close>). Calls of
  several threads at the same time never touch a dead object, all return but those whose replies never
  arrive, and leave each descriptor in the state of its own reply as long as no two accesses of one map
  overlap (\<open>HVAC_Threads\<close>); the kernel, which gives out only
  free descriptors, keeps opens and closes of different threads apart, so their effect is that of running
  them one after the other (\<open>HVAC_Sessions\<close>). With the requests and their answers joined in, every run of
  threads without lost replies and races on a descriptor gives the results of a serial run in the order of the
  requests (\<open>HVAC_Linearization\<close>), so
  threads that share a descriptor read each byte of the file once and in order (\<open>HVAC_Shared\<close>). First
  calls never use Mercury before it is initialised, but can initialise it twice, which drops the registered
  requests (\<open>HVAC_First_Calls\<close>). The status
  table implements a map, waits end, the locks exclude within a shard (\<open>HVAC_Fd_State\<close>). Posted addresses
  are found (\<open>HVAC_Address\<close>, \<open>HVAC_Server\<close>). Untracked descriptors are untouched by the interception and
  the statistics are exact (\<open>HVAC_Wrappers\<close>, \<open>HVAC_Timer\<close>, \<open>HVAC_Server_Stats\<close>,
  \<open>HVAC_Client_Stats\<close>) and their exports
  can be read back (\<open>HVAC_Reports\<close>). Other theorems state where the code does not
  do what its users expect: lost wake-ups, races on the map behind the sharded locks, in their initialisation
  and on the cache map, requests that abort
  a server, truncated counts, stale addresses, a buffer too small for large process ids.

  \<^bold>\<open>Loops\<close>. The drain loop and the loops over the address file are total functions with termination
  proofs by length. The progress loop and the wait loop run over the finite list of what the environment
  does; the theorems say which environments make them return, and a wait that is never ended is the fault
  \<open>Blocked_Forever\<close>. The interleaved threads have a rank that every step but a spurious wake-up
  decreases. No fuel is used.

  \<^bold>\<open>Not modelled\<close>. Log messages, except for arguments with an effect (\<open>fd_to_path[fd]\<close> in the log line
  of the read handler); allocation failures;
  rounding of floating point; two threads inside one standard container at the same time, which has no
  behaviour to model (the theories state where it can happen); the encoding of messages into bytes,
  which Mercury generates; the wrappers under \<open>#if 0\<close> or in comments; the basic test program, build files and
  job scripts. lseek is among the wrappers in comments: an application that seeks on a tracked descriptor
  moves the local position only, so the calls of \<open>HVAC_Application\<close> leave it out.

  \<^bold>\<open>Bounds of the composition\<close>. The threaded runs (\<open>HVAC_Linear\<close>) have one application with its threads, the
  servers and the movers; several clients at once are in \<open>HVAC_Isolation\<close>, each with one call at a time, and a
  call that does not return is there the loss of its server at most. In the threaded runs Mercury has been
  initialised, the application's files are opened for reading, and each access to a table is one step. The
  equivalence with serial runs speaks of runs in which no reply is lost and no call races (\<open>th_raced\<close>); lost
  replies are in \<open>HVAC_Loss\<close>. Overlapping changes of a map are noted in \<open>HVAC_Threads\<close> only. The statistics of
  \<open>HVAC_Client_Stats\<close> are those of one application thread and one progress thread.
\<close>

end
